(* ===== verification/Muli_Prelude.thy ===== *)
theory Muli_Prelude
  imports Main "HOL-Library.AList" "HOL-Library.Sublist"
begin

text \<open>
  Shared vocabulary of the development: the result type of fallible Rust code, the parts of
  Rust's \<open>str\<close> and \<open>Option\<close> interfaces that the components use, the concurrent hash map
  (\<open>DashMap\<close>/\<open>HashMap\<close>) as an association list with distinct keys whose order is the (arbitrary)
  iteration order of the map, and machine-integer bounds.

  A Rust \<open>str\<close> is the list of its UTF-8 bytes (\<open>string\<close>), so that \<open>length\<close> is \<open>str::len\<close>.
\<close>

named_theorems muli_splits \<open>case splits for the results of fallible operations\<close>
named_theorems result_simps \<open>when a fallible operation returns Ok\<close>
named_theorems str_simps \<open>evaluation of the string primitives\<close>

section \<open>Results\<close>

definition and_then :: "'e + 'a \<Rightarrow> ('a \<Rightarrow> 'e + 'b) \<Rightarrow> 'e + 'b" where
  "and_then r f = (case r of Inl e \<Rightarrow> Inl e | Inr x \<Rightarrow> f x)"

definition is_ok :: "'e + 'a \<Rightarrow> bool" where
  "is_ok r = (case r of Inl _ \<Rightarrow> False | Inr _ \<Rightarrow> True)"

definition ok_or :: "'a option \<Rightarrow> 'e \<Rightarrow> 'e + 'a" where
  "ok_or x e = (case x of None \<Rightarrow> Inl e | Some v \<Rightarrow> Inr v)"

definition result_ok :: "'e + 'a \<Rightarrow> 'a option" where
  "result_ok r = (case r of Inl _ \<Rightarrow> None | Inr x \<Rightarrow> Some x)"

text \<open>A \<open>for\<close> loop whose body may return early with an error.\<close>

fun try_for :: "('a \<Rightarrow> 'e + unit) \<Rightarrow> 'a list \<Rightarrow> 'e + unit" where
  "try_for f [] = Inr ()"
| "try_for f (x # xs) = (case f x of Inl e \<Rightarrow> Inl e | Inr _ \<Rightarrow> try_for f xs)"

section \<open>Strings\<close>

definition starts_with :: "string \<Rightarrow> string \<Rightarrow> bool" where
  "starts_with s p = (take (length p) s = p)"

definition ends_with :: "string \<Rightarrow> string \<Rightarrow> bool" where
  "ends_with s p = starts_with (rev s) (rev p)"

definition strip_prefix :: "string \<Rightarrow> string \<Rightarrow> string option" where
  "strip_prefix s p = (if starts_with s p then Some (drop (length p) s) else None)"

definition strip_suffix :: "string \<Rightarrow> string \<Rightarrow> string option" where
  "strip_suffix s p = (if ends_with s p then Some (take (length s - length p) s) else None)"

text \<open>\<open>str::find\<close>: the byte offset of the first occurrence.\<close>

fun find_sub :: "string \<Rightarrow> string \<Rightarrow> nat option" where
  "find_sub [] p = (if p = [] then Some 0 else None)"
| "find_sub (c # s) p = (if starts_with (c # s) p then Some 0 else map_option Suc (find_sub s p))"

definition contains_sub :: "string \<Rightarrow> string \<Rightarrow> bool" where
  "contains_sub s p = (find_sub s p \<noteq> None)"

definition split_once :: "string \<Rightarrow> string \<Rightarrow> (string \<times> string) option" where
  "split_once s p = (case find_sub s p of None \<Rightarrow> None
     | Some i \<Rightarrow> Some (take i s, drop (i + length p) s))"

text \<open>
  \<open>char::is_whitespace\<close>: the Unicode property \<open>White_Space\<close>, as the UTF-8 encodings of the
  characters that have it. On a well-formed UTF-8 string the encodings match at character
  boundaries only.
\<close>

definition white_space :: "string list" where
  "white_space =
     [[CHR 0x09], [CHR 0x0A], [CHR 0x0B], [CHR 0x0C], [CHR 0x0D], [CHR 0x20],
      [CHR 0xC2, CHR 0x85], [CHR 0xC2, CHR 0xA0], [CHR 0xE1, CHR 0x9A, CHR 0x80],
      [CHR 0xE2, CHR 0x80, CHR 0x80], [CHR 0xE2, CHR 0x80, CHR 0x81],
      [CHR 0xE2, CHR 0x80, CHR 0x82], [CHR 0xE2, CHR 0x80, CHR 0x83],
      [CHR 0xE2, CHR 0x80, CHR 0x84], [CHR 0xE2, CHR 0x80, CHR 0x85],
      [CHR 0xE2, CHR 0x80, CHR 0x86], [CHR 0xE2, CHR 0x80, CHR 0x87],
      [CHR 0xE2, CHR 0x80, CHR 0x88], [CHR 0xE2, CHR 0x80, CHR 0x89],
      [CHR 0xE2, CHR 0x80, CHR 0x8A], [CHR 0xE2, CHR 0x80, CHR 0xA8],
      [CHR 0xE2, CHR 0x80, CHR 0xA9], [CHR 0xE2, CHR 0x80, CHR 0xAF],
      [CHR 0xE2, CHR 0x81, CHR 0x9F], [CHR 0xE3, CHR 0x80, CHR 0x80]]"

text \<open>Strip one of the given non-empty encodings from the front, as long as one matches.\<close>

fun strip_any :: "string list \<Rightarrow> nat \<Rightarrow> string \<Rightarrow> string" where
  "strip_any ws 0 s = s"
| "strip_any ws (Suc n) s =
     (case List.find (\<lambda>w. starts_with s w) ws of None \<Rightarrow> s
      | Some w \<Rightarrow> strip_any ws n (drop (length w) s))"

definition trim_start :: "string \<Rightarrow> string" where
  "trim_start s = strip_any white_space (length s) s"

definition trim_end :: "string \<Rightarrow> string" where
  "trim_end s = rev (strip_any (map rev white_space) (length s) (rev s))"

definition trim :: "string \<Rightarrow> string" where
  "trim s = trim_end (trim_start s)"

text \<open>\<open>str::trim_matches\<close> for one ASCII character.\<close>

definition trim_matches :: "char \<Rightarrow> string \<Rightarrow> string" where
  "trim_matches c s = rev (dropWhile (\<lambda>x. x = c) (rev (dropWhile (\<lambda>x. x = c) s)))"

fun join :: "string \<Rightarrow> string list \<Rightarrow> string" where
  "join sep [] = []"
| "join sep [x] = x"
| "join sep (x # y # zs) = x @ sep @ join sep (y # zs)"

text \<open>\<open>str::split\<close> for a non-empty separator, and \<open>str::replace\<close> of one ASCII character.\<close>

function split_sub :: "string \<Rightarrow> string \<Rightarrow> string list" where
  "split_sub s p = (case find_sub s p of None \<Rightarrow> [s]
     | Some i \<Rightarrow> if p = [] then [s] else take i s # split_sub (drop (i + length p) s) p)"
  by pat_completeness auto
termination
proof (relation "measure (\<lambda>(s, p). length s)")
  fix s p :: string and i
  assume "find_sub s p = Some i" "p \<noteq> []"
  then have "s \<noteq> []" by auto
  then show "((drop (i + length p) s, p), s, p) \<in> measure (\<lambda>(s, p). length s)"
    using \<open>p \<noteq> []\<close> by (cases s; cases p) simp_all
qed simp

declare split_sub.simps [simp del]

definition replace_char :: "char \<Rightarrow> string \<Rightarrow> string \<Rightarrow> string" where
  "replace_char c by s = concat (map (\<lambda>x. if x = c then by else [x]) s)"

text \<open>\<open>Display\<close> of an unsigned integer.\<close>

fun show_nat :: "nat \<Rightarrow> string" where
  "show_nat n = (if n < 10 then [char_of (48 + n)] else show_nat (n div 10) @ [char_of (48 + n mod 10)])"

declare show_nat.simps [simp del]

definition is_ascii_digit :: "char \<Rightarrow> bool" where
  "is_ascii_digit c = (48 \<le> (of_char c :: nat) \<and> (of_char c :: nat) \<le> 57)"

definition is_ascii_alphabetic :: "char \<Rightarrow> bool" where
  "is_ascii_alphabetic c = (let n = (of_char c :: nat) in (65 \<le> n \<and> n \<le> 90) \<or> (97 \<le> n \<and> n \<le> 122))"

definition is_ascii_alphanumeric :: "char \<Rightarrow> bool" where
  "is_ascii_alphanumeric c = (is_ascii_digit c \<or> is_ascii_alphabetic c)"

definition is_ascii_hexdigit :: "char \<Rightarrow> bool" where
  "is_ascii_hexdigit c = (let n = (of_char c :: nat) in
     is_ascii_digit c \<or> (65 \<le> n \<and> n \<le> 70) \<or> (97 \<le> n \<and> n \<le> 102))"

section \<open>Hash maps\<close>

type_synonym 'v table = "(string \<times> 'v) list"

abbreviation tbl_get :: "'v table \<Rightarrow> string \<Rightarrow> 'v option" where
  "tbl_get \<equiv> map_of"

abbreviation tbl_insert :: "string \<Rightarrow> 'v \<Rightarrow> 'v table \<Rightarrow> 'v table" where
  "tbl_insert \<equiv> AList.update"

abbreviation tbl_remove :: "string \<Rightarrow> 'v table \<Rightarrow> 'v table" where
  "tbl_remove \<equiv> AList.delete"

abbreviation tbl_keys :: "'v table \<Rightarrow> string list" where
  "tbl_keys t \<equiv> map fst t"

abbreviation tbl_values :: "'v table \<Rightarrow> 'v list" where
  "tbl_values t \<equiv> map snd t"

abbreviation tbl_contains :: "'v table \<Rightarrow> string \<Rightarrow> bool" where
  "tbl_contains t k \<equiv> map_of t k \<noteq> None"

text \<open>Well-formed tables: a key occurs once.\<close>

abbreviation tbl_ok :: "'v table \<Rightarrow> bool" where
  "tbl_ok t \<equiv> distinct (map fst t)"

text \<open>\<open>HashMap::collect\<close> from an iterator of pairs: later pairs replace earlier ones.\<close>

definition tbl_collect :: "(string \<times> 'v) list \<Rightarrow> 'v table" where
  "tbl_collect ps = fold (\<lambda>(k, v) t. AList.update k v t) ps []"

section \<open>Machine integers\<close>

abbreviation U32_MAX :: nat where "U32_MAX \<equiv> 4294967295"
abbreviation U64_MAX :: nat where "U64_MAX \<equiv> 18446744073709551615"

definition saturating_add_u64 :: "nat \<Rightarrow> nat \<Rightarrow> nat" where
  "saturating_add_u64 a b = min (a + b) U64_MAX"

section \<open>Lemmas\<close>

lemma and_then_Inl [simp]: "and_then (Inl e) f = Inl e"
  by (simp add: and_then_def)

lemma and_then_Inr [simp]: "and_then (Inr x) f = f x"
  by (simp add: and_then_def)

lemma and_then_ok_iff [result_simps]: "and_then r f = Inr y \<longleftrightarrow> (\<exists>x. r = Inr x \<and> f x = Inr y)"
  by (cases r) auto

lemma ok_or_ok_iff [result_simps]: "ok_or x e = Inr v \<longleftrightarrow> x = Some v"
  by (simp add: ok_or_def split: option.splits)

lemma is_ok_simps [simp]: "is_ok (Inr x)" "\<not> is_ok (Inl e)"
  by (simp_all add: is_ok_def)

lemma is_ok_iff: "is_ok r \<longleftrightarrow> (\<exists>x. r = Inr x)"
  by (cases r) auto

lemma try_for_ok_iff [result_simps]: "try_for f xs = Inr u \<longleftrightarrow> (\<forall>x \<in> set xs. is_ok (f x))"
  by (induction xs) (auto split: sum.splits)

lemma try_for_Inl: "try_for f xs = Inl e \<Longrightarrow> \<exists>x \<in> set xs. f x = Inl e"
  by (induction xs) (auto split: sum.splits)

lemma starts_with_prefix: "starts_with s p \<longleftrightarrow> prefix p s"
  by (metis append_eq_conv_conj prefix_def starts_with_def)

lemma starts_with_append [simp]: "starts_with (p @ s) p"
  by (simp add: starts_with_def)

lemma ends_with_suffix: "ends_with s p \<longleftrightarrow> suffix p s"
  by (simp add: ends_with_def starts_with_prefix suffix_to_prefix)

lemma strip_prefix_Some: "strip_prefix s p = Some r \<longleftrightarrow> s = p @ r"
  by (auto simp: strip_prefix_def starts_with_prefix prefix_def)

lemma strip_suffix_Some: "strip_suffix s p = Some r \<longleftrightarrow> s = r @ p"
  by (auto simp: strip_suffix_def ends_with_suffix suffix_def)

lemma find_sub_Some:
  "find_sub s p = Some i \<Longrightarrow> i + length p \<le> length s \<and> take (length p) (drop i s) = p"
proof (induction s arbitrary: i)
  case (Cons c s)
  show ?case
  proof (cases "starts_with (c # s) p")
    case True
    with Cons.prems have "i = 0" by simp
    moreover from True have "prefix p (c # s)" by (simp add: starts_with_prefix)
    ultimately show ?thesis
      using True by (auto simp: starts_with_def dest: prefix_length_le)
  next
    case False
    with Cons show ?thesis by auto
  qed
qed (auto split: if_splits)

lemma find_sub_split: "find_sub s p = Some i \<Longrightarrow> s = take i s @ p @ drop (i + length p) s"
  using find_sub_Some [of s p i] append_take_drop_id [of i s]
    append_take_drop_id [of "length p" "drop i s"] by (simp add: add.commute)

lemma find_sub_None: "find_sub s p = None \<longleftrightarrow> (\<nexists>u v. s = u @ p @ v)"
proof (induction s)
  case (Cons c s)
  have "(\<exists>u v. c # s = u @ p @ v) \<longleftrightarrow> prefix p (c # s) \<or> (\<exists>u v. s = u @ p @ v)"
    by (metis (no_types, lifting) append_Cons append_Nil append_eq_Cons_conv prefix_def)
  with Cons show ?case by (auto simp: starts_with_prefix)
qed auto

lemma contains_sub_iff: "contains_sub s p \<longleftrightarrow> (\<exists>u v. s = u @ p @ v)"
  using find_sub_None [of s p] by (auto simp: contains_sub_def)

lemma contains_sub_single: "contains_sub s [c] \<longleftrightarrow> c \<in> set s"
  by (auto simp: contains_sub_iff in_set_conv_decomp)

lemma map_of_values: "map_of t k = Some v \<Longrightarrow> v \<in> set (tbl_values t)"
  by (force dest: map_of_SomeD)

lemma tbl_ok_map_of: "tbl_ok t \<Longrightarrow> (k, v) \<in> set t \<Longrightarrow> map_of t k = Some v"
  by (rule map_of_is_SomeI)

lemma map_of_tbl_insert [simp]: "map_of (tbl_insert k v t) = (map_of t)(k \<mapsto> v)"
  by (rule update_conv')

lemma map_of_tbl_remove [simp]: "map_of (tbl_remove k t) = (map_of t)(k := None)"
  by (rule delete_conv')

lemma tbl_ok_insert [simp]: "tbl_ok t \<Longrightarrow> tbl_ok (tbl_insert k v t)"
  by (rule distinct_update)

lemma tbl_ok_remove [simp]: "tbl_ok t \<Longrightarrow> tbl_ok (tbl_remove k t)"
  by (rule distinct_delete)

lemma tbl_collect_ok: "tbl_ok (tbl_collect ps)"
proof -
  have "tbl_ok t \<Longrightarrow> tbl_ok (fold (\<lambda>(k, v) t. AList.update k v t) ps t)" for t
    by (induction ps arbitrary: t) auto
  then show ?thesis by (simp add: tbl_collect_def)
qed

lemma map_of_tbl_collect: "map_of (tbl_collect ps) = map_of (rev ps)"
proof -
  have "map_of (fold (\<lambda>(k, v) t. AList.update k v t) ps t) = map_of t ++ map_of (rev ps)" for t
    by (induction ps arbitrary: t) (auto simp: map_add_upd_left)
  then show ?thesis by (simp add: tbl_collect_def)
qed

lemma find_Some_iff_set: "List.find P xs = Some x \<Longrightarrow> x \<in> set xs \<and> P x"
  by (auto simp: find_Some_iff)

lemma keys_tbl_insert: "fst ` set (tbl_insert k v t) = insert k (fst ` set t)"
  by (simp add: map_of_tbl_insert flip: dom_map_of_conv_image_fst)

section \<open>Trimming\<close>

text \<open>The printable ASCII characters are not white space, nor the first or last byte of its encoding.\<close>

definition trim_safe :: "char \<Rightarrow> bool" where
  "trim_safe c \<longleftrightarrow> 32 < (of_char c :: nat) \<and> (of_char c :: nat) < 127"

lemma white_space_bytes:
  "list_all (\<lambda>w. w \<noteq> [] \<and> \<not> trim_safe (hd w) \<and> \<not> trim_safe (last w)
     \<and> (hd w = CHR '' '' \<or> last w = CHR '' '' \<longrightarrow> w = '' '')) white_space"
  by (simp add: white_space_def trim_safe_def)

lemma white_space_nonempty: "[] \<notin> set white_space" "[] \<notin> set (map rev white_space)"
  using white_space_bytes by (auto simp: list_all_iff)

lemma trim_safe_bytes: "trim_safe c \<Longrightarrow> c \<notin> set (map hd white_space)" "trim_safe c \<Longrightarrow> c \<notin> set (map last white_space)"
  using white_space_bytes by (auto simp: list_all_iff)

lemma white_space_space:
  "w \<in> set white_space \<Longrightarrow> hd w = CHR '' '' \<or> last w = CHR '' '' \<Longrightarrow> w = '' ''" "'' '' \<in> set white_space"
  using white_space_bytes by (auto simp: list_all_iff) (simp add: white_space_def)

lemma strip_any_stop:
  assumes "c \<notin> set (map hd ws)" and "[] \<notin> set ws"
  shows "strip_any ws n (c # s) = c # s"
proof (cases n)
  case (Suc m)
  have "\<not> starts_with (c # s) w" if "w \<in> set ws" for w
  proof
    assume "starts_with (c # s) w"
    moreover have "w \<noteq> []" using that assms(2) by blast
    ultimately have "hd w = c" by (cases w) (auto simp: starts_with_def)
    then show False using assms(1) that by auto
  qed
  then have "List.find (\<lambda>w. starts_with (c # s) w) ws = None" by (simp add: find_None_iff)
  then show ?thesis by (simp add: Suc)
qed simp

lemma strip_any_space:
  assumes "[] \<notin> set ws" and "\<And>w. w \<in> set ws \<Longrightarrow> hd w = CHR '' '' \<Longrightarrow> w = '' ''" and "'' '' \<in> set ws"
  shows "strip_any ws (Suc (length s)) (CHR '' '' # s) = strip_any ws (length s) s"
proof -
  let ?P = "\<lambda>w. starts_with (CHR '' '' # s) w"
  have "?P '' ''" by (simp add: starts_with_def)
  then obtain w where w: "List.find ?P ws = Some w"
    using assms(3) by (metis find_None_iff option.exhaust)
  then have m: "w \<in> set ws" "?P w" by (auto dest: find_Some_iff_set)
  then have "w \<noteq> []" using assms(1) by blast
  then have "hd w = CHR '' ''" using m(2) by (cases w) (auto simp: starts_with_def)
  then have "w = '' ''" using assms(2) m(1) by blast
  then show ?thesis using w by simp
qed

lemma trim_start_stop: "trim_safe c \<Longrightarrow> trim_start (c # s) = c # s"
  unfolding trim_start_def by (intro strip_any_stop trim_safe_bytes white_space_nonempty)

lemma trim_end_stop: "trim_safe c \<Longrightarrow> trim_end (s @ [c]) = s @ [c]"
proof -
  assume "trim_safe c"
  then have "c \<notin> set (map hd (map rev white_space))" using trim_safe_bytes(2) by (simp add: hd_rev)
  then have "strip_any (map rev white_space) (length (s @ [c])) (c # rev s) = c # rev s"
    using white_space_nonempty(2) by (rule strip_any_stop)
  then show ?thesis by (simp add: trim_end_def del: strip_any.simps)
qed

lemma trim_start_space [simp]: "trim_start (CHR '' '' # s) = trim_start s"
  unfolding trim_start_def length_Cons
  by (rule strip_any_space [OF white_space_nonempty(1)]) (simp_all add: white_space_space)

lemma trim_end_space: "trim_end (s @ '' '') = trim_end s"
proof -
  have "w = '' ''" if "w \<in> set (map rev white_space)" "hd w = CHR '' ''" for w
    using that white_space_space(1) [of "rev w"] by (auto simp: hd_rev)
  moreover have "'' '' \<in> set (map rev white_space)" using white_space_space(2) by (simp add: rev_image_eqI)
  ultimately have "strip_any (map rev white_space) (Suc (length (rev s))) (CHR '' '' # rev s)
      = strip_any (map rev white_space) (length (rev s)) (rev s)"
    by (intro strip_any_space white_space_nonempty(2))
  then show ?thesis by (simp add: trim_end_def del: strip_any.simps)
qed

lemma trim_ends: "trim_safe c \<Longrightarrow> trim_safe d \<Longrightarrow> trim (c # s @ [d]) = c # s @ [d]"
  unfolding trim_def using trim_end_stop [of d "c # s"] by (simp add: trim_start_stop)

section \<open>Lists, tables and separators\<close>

lemma foldl_append_concat: "foldl (\<lambda>acc x. acc @ f x) acc xs = acc @ concat (map f xs)"
  by (induction xs arbitrary: acc) simp_all

lemma concat_pages: "length xs \<le> n * k \<Longrightarrow> concat (map (\<lambda>p. take k (drop (p * k) xs)) [0..<n]) = xs"
proof -
  have "concat (map (\<lambda>p. take k (drop (p * k) xs)) [0..<n]) = take (n * k) xs" for n
    by (induction n) (simp_all add: take_add [symmetric] add.commute)
  then show "length xs \<le> n * k \<Longrightarrow> ?thesis" by simp
qed

lemma distinct_map_sort_key: "distinct (map f (sort_key k xs)) \<longleftrightarrow> distinct (map f xs)"
  by (simp add: distinct_map)

lemma foldl_remove: "foldl (\<lambda>t i. tbl_remove i t) t ks = filter (\<lambda>(k, _). k \<notin> set ks) t"
  by (induction ks arbitrary: t) (auto simp: AList.delete_eq intro!: filter_cong)

lemma map_of_filter_values:
  "tbl_ok t \<Longrightarrow> tbl_get (filter (\<lambda>(_, v). P v) t) i = (case tbl_get t i of None \<Rightarrow> None | Some v \<Rightarrow> if P v then Some v else None)"
  by (induction t) (force split: option.splits dest: map_of_SomeD)+

lemma find_sub_single: "c \<notin> set u \<Longrightarrow> find_sub (u @ c # v) [c] = Some (length u)"
  by (induction u) (auto simp: starts_with_def)

lemma find_sub_single_None: "c \<notin> set u \<Longrightarrow> find_sub u [c] = None"
  by (induction u) (auto simp: starts_with_def)

lemma split_once_single: "c \<notin> set u \<Longrightarrow> split_once (u @ c # v) [c] = Some (u, v)" "c \<notin> set u \<Longrightarrow> split_once u [c] = None"
  by (simp_all add: split_once_def find_sub_single find_sub_single_None)

end
