(* ===== verification/Muli_Error.thy ===== *)
theory Muli_Error
  imports Muli_Prelude
begin

text \<open>
  The error type of the system (\<open>muli-core/src/error.rs\<close>) with its retry classification. A
  \<open>Duration\<close> is its number of nanoseconds.
\<close>

type_synonym duration = nat

datatype MuliError =
    Docker string
  | ContainerNotFound string
  | ImagePullFailed string string
  | JobNotFound string
  | InvalidStateTransition string string
  | Timeout duration
  | Cancelled_err string
  | AgentNotFound string
  | InsufficientResources string string
  | ConcurrencyLimit string
  | Storage string
  | Conflict string
  | Grpc string
  | Validation string
  | Internal string
  | Pipeline string
  | PipelineYamlError string
  | PipelineDagCycle string
  | NotFound string
  | PermissionDenied string
  | TenantSuspended string
  | QuotaExceeded string

type_synonym 'a result = "MuliError + 'a"

fun is_retryable :: "MuliError \<Rightarrow> bool" where
  "is_retryable (Docker _) = True"
| "is_retryable (ImagePullFailed _ _) = True"
| "is_retryable (Timeout _) = True"
| "is_retryable (InsufficientResources _ _) = True"
| "is_retryable (ConcurrencyLimit _) = True"
| "is_retryable (Storage _) = True"
| "is_retryable (Grpc _) = True"
| "is_retryable _ = False"

definition is_permanent :: "MuliError \<Rightarrow> bool" where
  "is_permanent e = (\<not> is_retryable e)"

end
