(* ===== verification/Retry.thy ===== *)
theory Retry
  imports Muli_Error
begin

text \<open>
  The retry policy (\<open>muli-queue/src/retry.rs\<close>). A \<open>Duration\<close> is its length in nanoseconds, at
  most \<open>DURATION_MAX\<close> (\<open>u64::MAX\<close> seconds and 999,999,999 nanoseconds); \<open>saturating_mul\<close> stops there.
  The multiplier is the \<open>u32\<close> power of two with its saturation written out.
\<close>

definition NANOS_PER_SEC :: nat where
  "NANOS_PER_SEC = 1000000000"

definition DURATION_MAX :: nat where
  "DURATION_MAX = U64_MAX * NANOS_PER_SEC + (NANOS_PER_SEC - 1)"

definition from_secs :: "nat \<Rightarrow> nat" where
  "from_secs s = s * NANOS_PER_SEC"

record RetryPolicy =
  max_retries :: nat
  base_delay :: nat
  max_delay :: nat

definition RetryPolicy_default :: RetryPolicy where
  "RetryPolicy_default = \<lparr>max_retries = 2, base_delay = from_secs 5, max_delay = from_secs 300\<rparr>"

definition checked_pow_u32 :: "nat \<Rightarrow> nat \<Rightarrow> nat option" where
  "checked_pow_u32 b e = (if b ^ e \<le> U32_MAX then Some (b ^ e) else None)"

definition duration_saturating_mul :: "nat \<Rightarrow> nat \<Rightarrow> nat" where
  "duration_saturating_mul d m = min (d * m) DURATION_MAX"

definition should_retry :: "RetryPolicy \<Rightarrow> MuliError \<Rightarrow> nat \<Rightarrow> nat option" where
  "should_retry p err attempt =
     (if \<not> is_retryable err \<or> max_retries p \<le> attempt then None
      else
        let multiplier = (case checked_pow_u32 2 attempt of Some m \<Rightarrow> m | None \<Rightarrow> U32_MAX);
            delay = duration_saturating_mul (base_delay p) multiplier
        in Some (min delay (max_delay p)))"

definition retry_multiplier :: "nat \<Rightarrow> nat" where
  "retry_multiplier attempt = min (2 ^ attempt) U32_MAX"

lemma checked_pow_multiplier:
  "(case checked_pow_u32 2 n of Some m \<Rightarrow> m | None \<Rightarrow> U32_MAX) = retry_multiplier n"
  by (simp add: checked_pow_u32_def retry_multiplier_def)

lemma retry_multiplier_mono: "i \<le> j \<Longrightarrow> retry_multiplier i \<le> retry_multiplier j"
  unfolding retry_multiplier_def by (intro min.mono power_increasing) simp_all

lemma should_retry_Some:
  "should_retry p err n = Some d \<longleftrightarrow>
     is_retryable err \<and> n < max_retries p
     \<and> d = min (min (base_delay p * retry_multiplier n) DURATION_MAX) (max_delay p)"
  by (auto simp: should_retry_def Let_def checked_pow_multiplier duration_saturating_mul_def)

text \<open>
  C29. The backoff of a retry: an error is retried exactly when it is retryable and attempts are
  left; the delay never exceeds the policy's maximum, never shrinks from one attempt to the
  next, and is \<open>base_delay * 2^attempt\<close> capped at the maximum while \<open>attempt < 32\<close> and no
  saturation of \<open>Duration\<close> is in play.
\<close>

theorem should_retry_backoff:
  "(should_retry p err n \<noteq> None \<longleftrightarrow> is_retryable err \<and> n < max_retries p)
   \<and> (should_retry p err n = Some d \<longrightarrow> d \<le> max_delay p
       \<and> (\<forall>m d'. should_retry p err m = Some d' \<and> n \<le> m \<longrightarrow> d \<le> d')
       \<and> (n < 32 \<and> max_delay p \<le> DURATION_MAX \<longrightarrow> d = min (base_delay p * 2 ^ n) (max_delay p)))"
proof -
  have mono: "d \<le> d'" if "should_retry p err n = Some d" "should_retry p err m = Some d'" "n \<le> m" for m d'
  proof -
    have "base_delay p * retry_multiplier n \<le> base_delay p * retry_multiplier m"
      by (intro mult_le_mono2 retry_multiplier_mono that(3))
    then show ?thesis using that(1,2) unfolding should_retry_Some by linarith
  qed
  have exact: "d = min (base_delay p * 2 ^ n) (max_delay p)"
    if "should_retry p err n = Some d" "n < 32" "max_delay p \<le> DURATION_MAX"
  proof -
    have "(2::nat) ^ n \<le> 2 ^ 31" using that(2) by (intro power_increasing) simp_all
    then have "retry_multiplier n = 2 ^ n" by (simp add: retry_multiplier_def)
    then show ?thesis using that by (simp add: should_retry_Some min_def)
  qed
  show ?thesis using mono exact by (auto simp: should_retry_Some)
qed

theorem should_retry_backoff_witness:
  "should_retry RetryPolicy_default (Docker ''daemon down'') 1 = Some (from_secs 10)
   \<and> from_secs 10 \<le> max_delay RetryPolicy_default"
proof -
  have "should_retry RetryPolicy_default (Docker ''daemon down'') 1 = Some (from_secs 10)"
    by (simp add: should_retry_def RetryPolicy_default_def checked_pow_u32_def Let_def
        duration_saturating_mul_def DURATION_MAX_def NANOS_PER_SEC_def from_secs_def)
  then show ?thesis using should_retry_backoff [of RetryPolicy_default "Docker ''daemon down''" 1] by blast
qed

end
