(* ===== verification/Job_State.thy ===== *)
theory Job_State
  imports Muli_Error
begin

text \<open>
  The job state machine (\<open>muli-core/src/job/state_machine.rs\<close>): the states, the transition
  check that every job store applies, the list of next states offered to clients and the coarse
  status. The step relation \<open>job_step\<close> is one accepted transition; the lemmas show that the
  machine is a finite, monotone progression towards the terminal states.
\<close>

datatype JobState = Pending | Scheduled | Pulling | Running | Succeeded | Failed | Cancelled | TimedOut

fun is_terminal :: "JobState \<Rightarrow> bool" where
  "is_terminal Succeeded = True"
| "is_terminal Failed = True"
| "is_terminal Cancelled = True"
| "is_terminal TimedOut = True"
| "is_terminal _ = False"

definition can_transition_to :: "JobState \<Rightarrow> JobState \<Rightarrow> bool" where
  "can_transition_to self target =
     (if is_terminal self then False
      else if target = Cancelled then True
      else (self, target) \<in> {(Pending, Scheduled), (Scheduled, Pulling), (Scheduled, Running),
              (Pulling, Running), (Pulling, Failed), (Running, Succeeded), (Running, Failed),
              (Running, TimedOut)})"

fun JobState_to_string :: "JobState \<Rightarrow> string" where
  "JobState_to_string Pending = ''Pending''"
| "JobState_to_string Scheduled = ''Scheduled''"
| "JobState_to_string Pulling = ''Pulling''"
| "JobState_to_string Running = ''Running''"
| "JobState_to_string Succeeded = ''Succeeded''"
| "JobState_to_string Failed = ''Failed''"
| "JobState_to_string Cancelled = ''Cancelled''"
| "JobState_to_string TimedOut = ''TimedOut''"

definition transition_to :: "JobState \<Rightarrow> JobState \<Rightarrow> JobState result" where
  "transition_to self target =
     (if can_transition_to self target then Inr target
      else Inl (InvalidStateTransition (JobState_to_string self) (JobState_to_string target)))"

definition valid_transitions :: "JobState \<Rightarrow> JobState list" where
  "valid_transitions self =
     (if is_terminal self then []
      else Cancelled # (case self of
          Pending \<Rightarrow> [Scheduled]
        | Scheduled \<Rightarrow> [Pulling, Running]
        | Pulling \<Rightarrow> [Running, Failed]
        | Running \<Rightarrow> [Succeeded, Failed, TimedOut]
        | _ \<Rightarrow> []))"

datatype SimpleJobStatus = SPending | SRunning | SSucceeded | SFailed | SUnknown

fun SimpleJobStatus_from :: "JobState \<Rightarrow> SimpleJobStatus" where
  "SimpleJobStatus_from Pending = SPending"
| "SimpleJobStatus_from Scheduled = SPending"
| "SimpleJobStatus_from Pulling = SRunning"
| "SimpleJobStatus_from Running = SRunning"
| "SimpleJobStatus_from Succeeded = SSucceeded"
| "SimpleJobStatus_from Failed = SFailed"
| "SimpleJobStatus_from Cancelled = SFailed"
| "SimpleJobStatus_from TimedOut = SFailed"

section \<open>The machine as a step relation\<close>

inductive job_step :: "JobState \<Rightarrow> JobState \<Rightarrow> bool" where
  accepted: "transition_to s t = Inr t \<Longrightarrow> job_step s t"

text \<open>The states a job passes through, given the sequence of accepted targets.\<close>

fun job_path :: "JobState \<Rightarrow> JobState list \<Rightarrow> bool" where
  "job_path s [] = True"
| "job_path s (t # ts) = (job_step s t \<and> job_path t ts)"

text \<open>Progress: how far a state is from the start.\<close>

fun stage :: "JobState \<Rightarrow> nat" where
  "stage Pending = 0"
| "stage Scheduled = 1"
| "stage Pulling = 2"
| "stage Running = 3"
| "stage _ = 4"

fun simple_stage :: "SimpleJobStatus \<Rightarrow> nat" where
  "simple_stage SPending = 0"
| "simple_stage SRunning = 1"
| "simple_stage _ = 2"

section \<open>Lemmas\<close>

inductive_cases job_stepE [elim!]: "job_step s t"

lemma job_step_iff [simp]: "job_step s t \<longleftrightarrow> can_transition_to s t"
  by (auto simp: job_step.simps transition_to_def split: if_splits)

lemma transition_to_ok_iff [result_simps]:
  "transition_to s t = Inr u \<longleftrightarrow> can_transition_to s t \<and> u = t"
  by (auto simp: transition_to_def)

lemma can_transition_cases:
  "can_transition_to s t \<longleftrightarrow> \<not> is_terminal s \<and> (t = Cancelled
     \<or> s = Pending \<and> t = Scheduled \<or> s = Scheduled \<and> t \<in> {Pulling, Running}
     \<or> s = Pulling \<and> t \<in> {Running, Failed} \<or> s = Running \<and> t \<in> {Succeeded, Failed, TimedOut})"
  by (cases s) (auto simp: can_transition_to_def)

lemma can_transition_stage: "can_transition_to s t \<Longrightarrow> stage s < stage t"
  by (cases s; cases t) (simp_all add: can_transition_to_def)

lemma stage_le: "stage s \<le> 4"
  by (cases s) simp_all

lemma stage_terminal: "is_terminal s \<longleftrightarrow> stage s = 4"
  by (cases s) simp_all

lemma terminal_no_transition [simp]: "is_terminal s \<Longrightarrow> \<not> can_transition_to s t"
  by (simp add: can_transition_to_def)

lemma no_transition_to_Pending [simp]: "\<not> can_transition_to s Pending"
  by (cases s) (simp_all add: can_transition_to_def)

lemma JobState_to_string_inj: "JobState_to_string s = JobState_to_string t \<longleftrightarrow> s = t"
  by (cases s; cases t) simp_all

lemma job_path_stage: "job_path s ts \<Longrightarrow> stage s + length ts \<le> stage (last (s # ts))"
proof (induction ts arbitrary: s)
  case (Cons t ts)
  from Cons.prems have "stage s < stage t" by (simp add: can_transition_stage)
  moreover from Cons have "stage t + length ts \<le> stage (last (t # ts))" by simp
  ultimately show ?case by simp
qed simp

lemma job_path_append [simp]: "job_path s (ts @ us) \<longleftrightarrow> job_path s ts \<and> job_path (last (s # ts)) us"
  by (induction ts arbitrary: s) auto

section \<open>Properties\<close>

text \<open>
  The list of next states a client is shown is exactly the set of transitions the machine
  accepts, without duplicates: \<open>valid_transitions\<close> agrees with \<open>can_transition_to\<close> (and with
  what \<open>transition_to\<close> returns) on all 64 pairs of states.
\<close>

theorem valid_transitions_exact:
  "(t \<in> set (valid_transitions s) \<longleftrightarrow> transition_to s t = Inr t)
   \<and> distinct (valid_transitions s)
   \<and> (valid_transitions s = [] \<longleftrightarrow> is_terminal s)"
  by (cases s; cases t) (simp_all add: valid_transitions_def transition_to_def can_transition_to_def)

text \<open>
  Every history of a job is finite and monotone: a path of accepted transitions from
  \<open>Pending\<close> has at most four steps, visits no state twice, a terminal state can only be its
  last state, and the coarse status shown to clients never goes backwards along it.
\<close>

theorem job_history_bounded:
  assumes "job_path Pending ts"
  shows "length ts \<le> 4 \<and> distinct (Pending # ts)
    \<and> (\<forall>t \<in> set (butlast (Pending # ts)). \<not> is_terminal t)
    \<and> sorted (map (simple_stage \<circ> SimpleJobStatus_from) (Pending # ts))"
proof -
  have step: "sorted_wrt (\<lambda>a b. stage a < stage b) (s # us)" if "job_path s us" for s us
    using that
  proof (induction us arbitrary: s)
    case (Cons u us)
    then have "stage s < stage u" by (simp add: can_transition_stage)
    with Cons.IH [of u] Cons.prems show ?case by auto
  qed simp
  note stages = step [OF assms]
  have "length ts \<le> 4"
    using job_path_stage [OF assms] stage_le [of "last (Pending # ts)"] by simp
  moreover have "sorted_wrt (<) (map stage (Pending # ts))"
    unfolding sorted_wrt_map by (rule stages)
  then have "distinct (Pending # ts)"
    by (metis distinct_map strict_sorted_iff)
  moreover have "sorted_wrt (\<lambda>a b. (simple_stage \<circ> SimpleJobStatus_from) a
      \<le> (simple_stage \<circ> SimpleJobStatus_from) b) (Pending # ts)"
  proof (rule sorted_wrt_mono_rel [OF _ stages])
    fix a b assume "stage a < stage b"
    then show "(simple_stage \<circ> SimpleJobStatus_from) a \<le> (simple_stage \<circ> SimpleJobStatus_from) b"
      by (cases a; cases b) simp_all
  qed
  then have "sorted (map (simple_stage \<circ> SimpleJobStatus_from) (Pending # ts))"
    by (simp only: sorted_map)
  moreover have "\<forall>t \<in> set (butlast (Pending # ts)). \<not> is_terminal t"
  proof
    fix t assume t: "t \<in> set (butlast (Pending # ts))"
    have "stage t < stage (last (Pending # ts))"
      using stages t append_butlast_last_id [of "Pending # ts"]
      by (metis list.distinct(1) list.set_intros(1) sorted_wrt_append)
    then show "\<not> is_terminal t"
      using stage_le [of "last (Pending # ts)"] by (simp add: stage_terminal)
  qed
  ultimately show ?thesis by blast
qed

theorem job_history_bounded_witness:
  "job_path Pending [Scheduled, Pulling, Running, TimedOut]
   \<and> length [Scheduled, Pulling, Running, TimedOut] \<le> 4
   \<and> distinct [Pending, Scheduled, Pulling, Running, TimedOut]"
proof -
  have p: "job_path Pending [Scheduled, Pulling, Running, TimedOut]"
    by (simp add: can_transition_to_def)
  show ?thesis using p job_history_bounded [OF p] by blast
qed

end
