(* ===== verification/Muli_Float.thy ===== *)
theory Muli_Float
  imports Complex_Main Muli_Prelude
begin

text \<open>
  Rust's \<open>f64\<close> on the values the program computes: non-negative and finite. A value is the
  rational it denotes and every arithmetic operation rounds its exact result to the nearest
  binary64 value, ties to even (\<open>fl\<close>). Rounding is monotone and the identity on the integers
  up to \<open>2\<^sup>5\<^sup>3\<close>; comparison (\<open>total_cmp\<close>) of such values is the order of the rationals.
\<close>

fun bitlen :: "nat \<Rightarrow> nat" where
  "bitlen n = (if n = 0 then 0 else Suc (bitlen (n div 2)))"

declare bitlen.simps [simp del]

definition round_half_even :: "rat \<Rightarrow> int" where
  "round_half_even x =
     (let f = \<lfloor>x\<rfloor>; d = x - of_int f in
      if d < 1 / 2 then f else if 1 / 2 < d then f + 1 else if even f then f else f + 1)"

text \<open>
  The smallest positive binary64 value is \<open>2\<^sup>-\<^sup>1\<^sup>0\<^sup>7\<^sup>4\<close>. Measured in this unit, a value with more than
  53 significant bits is rounded at the bit that leaves 53.
\<close>

definition fl_exp :: "rat \<Rightarrow> nat" where
  "fl_exp y = bitlen (nat \<lfloor>y\<rfloor>) - 53"

definition fl_unit :: "rat \<Rightarrow> rat" where
  "fl_unit y = of_int (round_half_even (y / 2 ^ fl_exp y)) * 2 ^ fl_exp y"

definition fl_denom :: nat where
  "fl_denom = 1074"

definition fl :: "rat \<Rightarrow> rat" where
  "fl x = fl_unit (x * 2 ^ fl_denom) / 2 ^ fl_denom"

section \<open>Lemmas\<close>

lemma bitlen_0 [simp]: "bitlen 0 = 0"
  by (simp add: bitlen.simps [of 0])

lemma bitlen_upper: "n < 2 ^ bitlen n"
proof (induction n rule: bitlen.induct)
  case (1 n)
  then show ?case by (subst bitlen.simps) (auto simp: Suc_leI)
qed

lemma bitlen_lower: "0 < n \<Longrightarrow> 2 ^ (bitlen n - 1) \<le> n"
proof (induction n rule: bitlen.induct)
  case (1 n)
  show ?case
  proof (cases "n div 2 = 0")
    case True
    with "1.prems" show ?thesis
      by (subst bitlen.simps) simp
  next
    case False
    then have b: "bitlen (n div 2) = Suc (bitlen (n div 2) - 1)"
      using bitlen.simps [of "n div 2"] by simp
    have "2 ^ (bitlen (n div 2) - 1) \<le> n div 2"
      using "1.IH" "1.prems" False by simp
    then have "2 * 2 ^ (bitlen (n div 2) - 1) \<le> n" by linarith
    then have "2 ^ bitlen (n div 2) \<le> n" by (subst b) simp
    with "1.prems" show ?thesis by (subst bitlen.simps) simp
  qed
qed

lemma bitlen_le: "n < 2 ^ m \<Longrightarrow> bitlen n \<le> m"
proof (cases "n = 0")
  case False
  assume "n < 2 ^ m"
  with bitlen_lower [of n] False have "2 ^ (bitlen n - 1) < (2 :: nat) ^ m" by linarith
  then show ?thesis by simp
qed simp

lemma round_half_even_int [simp]: "round_half_even (of_int z) = z"
  by (simp add: round_half_even_def)

lemma round_half_even_bounds: "\<lfloor>x\<rfloor> \<le> round_half_even x" "round_half_even x \<le> \<lfloor>x\<rfloor> + 1"
  by (simp_all add: round_half_even_def Let_def)

lemma round_half_even_mono: "x \<le> y \<Longrightarrow> round_half_even x \<le> round_half_even y"
proof -
  assume le: "x \<le> y"
  show ?thesis
  proof (cases "\<lfloor>x\<rfloor> = \<lfloor>y\<rfloor>")
    case True
    with le show ?thesis by (auto simp: round_half_even_def Let_def)
  next
    case False
    with le have "\<lfloor>x\<rfloor> + 1 \<le> \<lfloor>y\<rfloor>" using floor_mono [OF le] by linarith
    with round_half_even_bounds [of x] round_half_even_bounds [of y] show ?thesis by linarith
  qed
qed

lemma round_half_even_ge: "of_int z \<le> x \<Longrightarrow> z \<le> round_half_even x"
  using round_half_even_mono [of "of_int z" x] by simp

lemma round_half_even_le: "x \<le> of_int z \<Longrightarrow> round_half_even x \<le> z"
  using round_half_even_mono [of x "of_int z"] by simp

lemma fl_exp_upper: "0 \<le> y \<Longrightarrow> y < 2 ^ (53 + fl_exp y)"
proof -
  assume y: "0 \<le> y"
  have "nat \<lfloor>y\<rfloor> < 2 ^ bitlen (nat \<lfloor>y\<rfloor>)" by (rule bitlen_upper)
  also have "\<dots> \<le> 2 ^ (53 + fl_exp y)" by (simp add: fl_exp_def)
  finally have "nat \<lfloor>y\<rfloor> < 2 ^ (53 + fl_exp y)" .
  then have "int (nat \<lfloor>y\<rfloor>) < int (2 ^ (53 + fl_exp y))" by (simp only: of_nat_less_iff)
  then have "\<lfloor>y\<rfloor> < 2 ^ (53 + fl_exp y)" using y by simp
  then show ?thesis by (simp add: floor_less_iff)
qed

lemma fl_exp_lower: "0 \<le> y \<Longrightarrow> 0 < fl_exp y \<Longrightarrow> 2 ^ (52 + fl_exp y) \<le> y"
proof -
  assume y: "0 \<le> y" and e: "0 < fl_exp y"
  have b: "bitlen (nat \<lfloor>y\<rfloor>) - 1 = 52 + fl_exp y" using e by (simp add: fl_exp_def)
  have "0 < nat \<lfloor>y\<rfloor>" using e by (cases "nat \<lfloor>y\<rfloor> = 0") (simp_all add: fl_exp_def)
  then have "2 ^ (52 + fl_exp y) \<le> nat \<lfloor>y\<rfloor>" using bitlen_lower [of "nat \<lfloor>y\<rfloor>"] b by simp
  then have "int (2 ^ (52 + fl_exp y)) \<le> int (nat \<lfloor>y\<rfloor>)" by (simp only: of_nat_le_iff)
  then have "2 ^ (52 + fl_exp y) \<le> \<lfloor>y\<rfloor>" using y by simp
  then show ?thesis by (simp add: le_floor_iff)
qed

lemma fl_exp_mono: "0 \<le> x \<Longrightarrow> x \<le> y \<Longrightarrow> fl_exp x \<le> fl_exp y"
proof (rule ccontr)
  assume "0 \<le> x" "x \<le> y" "\<not> fl_exp x \<le> fl_exp y"
  then have "2 ^ (52 + fl_exp x) \<le> x" "y < 2 ^ (53 + fl_exp y)" "53 + fl_exp y \<le> 52 + fl_exp x"
    by (simp_all add: fl_exp_lower fl_exp_upper)
  moreover have "(2 :: rat) ^ (53 + fl_exp y) \<le> 2 ^ (52 + fl_exp x)"
    using \<open>53 + fl_exp y \<le> 52 + fl_exp x\<close> by (intro power_increasing) auto
  ultimately show False using \<open>x \<le> y\<close> by linarith
qed

lemma fl_unit_le: "0 \<le> y \<Longrightarrow> fl_unit y \<le> 2 ^ (53 + fl_exp y)"
proof -
  assume y: "0 \<le> y"
  have "y / 2 ^ fl_exp y \<le> of_int (2 ^ 53)"
    using fl_exp_upper [OF y] by (simp add: divide_le_eq power_add)
  then have "round_half_even (y / 2 ^ fl_exp y) \<le> 2 ^ 53" by (rule round_half_even_le)
  then have "(of_int (round_half_even (y / 2 ^ fl_exp y)) :: rat) \<le> of_int (2 ^ 53)"
    by (simp only: of_int_le_iff)
  then show ?thesis by (simp add: fl_unit_def power_add)
qed

lemma fl_unit_ge: "0 \<le> y \<Longrightarrow> 0 < fl_exp y \<Longrightarrow> 2 ^ (52 + fl_exp y) \<le> fl_unit y"
proof -
  assume y: "0 \<le> y" and e: "0 < fl_exp y"
  have "of_int (2 ^ 52) \<le> y / 2 ^ fl_exp y"
    using fl_exp_lower [OF y e] by (simp add: le_divide_eq power_add)
  then have "2 ^ 52 \<le> round_half_even (y / 2 ^ fl_exp y)" by (rule round_half_even_ge)
  then have "of_int (2 ^ 52) \<le> (of_int (round_half_even (y / 2 ^ fl_exp y)) :: rat)"
    by (simp only: of_int_le_iff)
  then show ?thesis by (simp add: fl_unit_def power_add)
qed

lemma fl_unit_mono: "0 \<le> x \<Longrightarrow> x \<le> y \<Longrightarrow> fl_unit x \<le> fl_unit y"
proof (cases "fl_exp x = fl_exp y")
  case True
  assume "x \<le> y"
  then have "round_half_even (x / 2 ^ fl_exp x) \<le> round_half_even (y / 2 ^ fl_exp y)"
    unfolding True by (intro round_half_even_mono divide_right_mono) auto
  then show ?thesis by (simp add: fl_unit_def True)
next
  case False
  assume "0 \<le> x" "x \<le> y"
  with False fl_exp_mono [of x y] have lt: "fl_exp x < fl_exp y" by linarith
  have "fl_unit x \<le> 2 ^ (53 + fl_exp x)" using \<open>0 \<le> x\<close> by (rule fl_unit_le)
  also have "(2 :: rat) ^ (53 + fl_exp x) \<le> 2 ^ (52 + fl_exp y)"
    using lt by (intro power_increasing) auto
  also have "\<dots> \<le> fl_unit y" using \<open>0 \<le> x\<close> \<open>x \<le> y\<close> lt by (intro fl_unit_ge) auto
  finally show ?thesis .
qed

lemma fl_mono: "0 \<le> x \<Longrightarrow> x \<le> y \<Longrightarrow> fl x \<le> fl y"
  by (simp add: fl_def divide_right_mono fl_unit_mono mult_right_mono)

lemma fl_unit_of_nat: "n < 2 ^ 53 \<Longrightarrow> fl_unit (of_nat n * 2 ^ N) = of_nat n * 2 ^ N"
proof -
  assume n: "n < 2 ^ 53"
  let ?y = "(of_nat n :: rat) * 2 ^ N"
  have "\<lfloor>?y\<rfloor> = int (n * 2 ^ N)"
    using floor_of_int [of "int (n * 2 ^ N)", where 'a = rat] by simp
  then have "nat \<lfloor>?y\<rfloor> = n * 2 ^ N" by (simp only: nat_int)
  also have "\<dots> < 2 ^ 53 * 2 ^ N" using n by (intro mult_strict_right_mono) auto
  also have "\<dots> = 2 ^ (53 + N)" by (simp only: power_add)
  finally have "bitlen (nat \<lfloor>?y\<rfloor>) \<le> 53 + N" by (rule bitlen_le)
  then have e: "fl_exp ?y \<le> N" by (simp only: fl_exp_def)
  define d where "d = N - fl_exp ?y"
  have N: "(2 :: rat) ^ N = 2 ^ d * 2 ^ fl_exp ?y"
    using e by (simp add: d_def power_add [symmetric])
  have q: "?y / 2 ^ fl_exp ?y = of_int (int n * 2 ^ d)"
    by (subst (1) N) simp
  show ?thesis
    unfolding fl_unit_def q round_half_even_int by (subst (2) N) simp
qed

lemma fl_of_nat: "n < 2 ^ 53 \<Longrightarrow> fl (of_nat n) = of_nat n"
  by (simp add: fl_def fl_unit_of_nat)

lemma fl_numeral: "numeral k < (2 :: nat) ^ 53 \<Longrightarrow> fl (numeral k) = numeral k"
  using fl_of_nat [of "numeral k"] by simp

end
