(* ===== verification/Job_Model.thy ===== *)
theory Job_Model
  imports Job_State Muli_Float "HOL-Library.List_Lexorder" "HOL-Library.Char_ord"
    "HOL-Library.Product_Lexorder"
begin

text \<open>
  The job record (\<open>muli-core/src/job/model.rs\<close>), the resource specification it carries
  (\<open>muli-core/src/resource/limits.rs\<close>) and the priority score with its order
  (\<open>muli-core/src/job/priority.rs\<close>). Clock readings (\<open>Utc::now()\<close>) and fresh UUIDs are arguments;
  a \<open>DateTime<Utc>\<close> is its number of nanoseconds since the epoch.
\<close>

type_synonym datetime = int

record CheckoutSpec =
  clone_url :: string
  co_sha :: string
  submodules :: bool

record ArtifactDownload =
  dl_run_id :: string
  dl_job_name :: string

record JobSubstepSpec =
  substep_name :: string
  substep_commands :: "string list"

record EnvVar =
  env_name :: string
  env_value :: string

datatype PriorityTier = Free | Standard | Premium | Enterprise

fun weight :: "PriorityTier \<Rightarrow> nat" where
  "weight Free = 1"
| "weight Standard = 10"
| "weight Premium = 100"
| "weight Enterprise = 1000"

record RegistryCredentials =
  rc_server :: string
  rc_username :: string
  rc_password :: string

record ResourceSpec =
  cpu_request :: string
  cpu_limit :: string
  memory_request :: string
  memory_limit :: string
  timeout_seconds :: nat

definition ResourceSpec_default :: ResourceSpec where
  "ResourceSpec_default = \<lparr>cpu_request = ''500m'', cpu_limit = ''1000m'', memory_request = ''512Mi'',
     memory_limit = ''1Gi'', timeout_seconds = 1800\<rparr>"

record JobSpec =
  deployment_id :: string
  project_id :: string
  workspace_id :: string
  spec_tenant_id :: string
  runner_image :: string
  spec_env_vars :: "EnvVar list"
  spec_resources :: ResourceSpec
  priority_tier :: PriorityTier
  framework :: string
  idempotency_key :: "string option"
  registry_credentials :: "RegistryCredentials option"
  spec_commands :: "string list"
  spec_substeps :: "JobSubstepSpec list"
  spec_checkout :: "CheckoutSpec option"
  artifact_downloads :: "ArtifactDownload list"
  artifact_upload_paths :: "string list"
  artifact_upload_key :: "string option"
  pipeline_step_run_id :: "string option"

record JobResult =
  res_exit_code :: "int option"
  res_message :: string
  res_container_id :: "string option"

record Job =
  job_id :: string
  job_name :: string
  job_spec :: JobSpec
  job_state :: JobState
  job_result :: "JobResult option"
  retry_count :: nat
  priority_score :: rat
  job_created_at :: datetime
  job_updated_at :: datetime
  scheduled_at :: "datetime option"
  job_started_at :: "datetime option"
  job_finished_at :: "datetime option"
  assigned_agent :: "string option"

record StoredLogLine =
  log_sequence :: nat
  log_timestamp :: datetime
  log_stream :: string
  log_message :: string
  log_substep_name :: "string option"
  log_event_type :: "string option"
  log_exit_code :: "int option"

abbreviation job_tenant :: "Job \<Rightarrow> string" where
  "job_tenant j \<equiv> spec_tenant_id (job_spec j)"

section \<open>Priority\<close>

definition NANOS_PER_MINUTE :: int where
  "NANOS_PER_MINUTE = 60000000000"

text \<open>\<open>(now - enqueued_at).num_minutes().max(0)\<close>: whole minutes, truncated towards zero.\<close>

definition wait_minutes :: "datetime \<Rightarrow> datetime \<Rightarrow> nat" where
  "wait_minutes now enqueued_at =
     (if enqueued_at \<le> now then nat ((now - enqueued_at) div NANOS_PER_MINUTE) else 0)"

definition calculate_score :: "datetime \<Rightarrow> PriorityTier \<Rightarrow> datetime \<Rightarrow> rat" where
  "calculate_score now tier enqueued_at =
     (let wm = fl (of_nat (wait_minutes now enqueued_at))
      in fl (fl (of_nat (weight tier) * fl (10 + wm)) / 10))"

record ScoredJob =
  sj_job_id :: string
  sj_score :: rat
  enqueued_at :: datetime
  sj_tenant_id :: string

definition ScoredJob_new :: "datetime \<Rightarrow> string \<Rightarrow> PriorityTier \<Rightarrow> datetime \<Rightarrow> string \<Rightarrow> ScoredJob" where
  "ScoredJob_new now jid tier enq tenant =
     \<lparr>sj_job_id = jid, sj_score = calculate_score now tier enq, enqueued_at = enq,
      sj_tenant_id = tenant\<rparr>"

definition refresh_score :: "datetime \<Rightarrow> PriorityTier \<Rightarrow> ScoredJob \<Rightarrow> ScoredJob" where
  "refresh_score now tier j = j\<lparr>sj_score := calculate_score now tier (enqueued_at j)\<rparr>"

text \<open>\<open>Ord for ScoredJob\<close>: by score, then by job id; the lexicographic order of the pair.\<close>

datatype ordering = Less | Equal | Greater

definition ScoredJob_cmp :: "ScoredJob \<Rightarrow> ScoredJob \<Rightarrow> ordering" where
  "ScoredJob_cmp a b =
     (if sj_score a < sj_score b then Less else if sj_score b < sj_score a then Greater
      else if sj_job_id a < sj_job_id b then Less else if sj_job_id b < sj_job_id a then Greater
      else Equal)"

definition Job_new :: "string \<Rightarrow> datetime \<Rightarrow> datetime \<Rightarrow> JobSpec \<Rightarrow> Job" where
  "Job_new uuid now score_now spec =
     \<lparr>job_id = uuid, job_name = ''muli-'' @ take 8 uuid, job_spec = spec, job_state = Pending,
      job_result = None, retry_count = 0,
      priority_score = calculate_score score_now (priority_tier spec) now,
      job_created_at = now, job_updated_at = now, scheduled_at = None, job_started_at = None,
      job_finished_at = None, assigned_agent = None\<rparr>"

definition recalculate_score :: "datetime \<Rightarrow> Job \<Rightarrow> Job" where
  "recalculate_score now j =
     j\<lparr>priority_score := calculate_score now (priority_tier (job_spec j)) (job_created_at j)\<rparr>"

section \<open>Lemmas\<close>

definition sj_key :: "ScoredJob \<Rightarrow> rat \<times> string" where
  "sj_key j = (sj_score j, sj_job_id j)"

lemma ScoredJob_cmp_key:
  "ScoredJob_cmp a b = (if sj_key a < sj_key b then Less else if sj_key b < sj_key a then Greater else Equal)"
  by (auto simp: ScoredJob_cmp_def less_prod_def' sj_key_def)

lemma weight_pos: "0 < weight t"
  by (cases t) simp_all

lemma weight_le: "weight t \<le> 1000"
  by (cases t) simp_all

lemma wait_minutes_mono: "enq' \<le> enq \<Longrightarrow> now \<le> now' \<Longrightarrow> wait_minutes now enq \<le> wait_minutes now' enq'"
  by (auto simp: wait_minutes_def NANOS_PER_MINUTE_def intro!: nat_mono zdiv_mono1)

lemma fl_nonneg: "0 \<le> x \<Longrightarrow> 0 \<le> fl x"
  using fl_mono [of 0 x] fl_of_nat [of 0] by simp

lemma calculate_score_mono:
  assumes "wait_minutes now enq \<le> wait_minutes now' enq'" and "weight t \<le> weight t'"
  shows "calculate_score now t enq \<le> calculate_score now' t' enq'"
proof -
  let ?m = "fl (of_nat (wait_minutes now enq))" and ?m' = "fl (of_nat (wait_minutes now' enq'))"
  have m: "0 \<le> ?m" "?m \<le> ?m'" using assms(1) by (auto intro: fl_mono fl_nonneg)
  then have "fl (10 + ?m) \<le> fl (10 + ?m')" "0 \<le> fl (10 + ?m)" by (auto intro: fl_mono fl_nonneg)
  then have "of_nat (weight t) * fl (10 + ?m) \<le> of_nat (weight t') * fl (10 + ?m')"
    and "0 \<le> of_nat (weight t) * fl (10 + ?m)"
    using assms(2) by (auto intro!: mult_mono)
  then have "fl (of_nat (weight t) * fl (10 + ?m)) \<le> fl (of_nat (weight t') * fl (10 + ?m'))"
    and "0 \<le> fl (of_nat (weight t) * fl (10 + ?m))"
    by (auto intro: fl_mono fl_nonneg)
  then have "fl (of_nat (weight t) * fl (10 + ?m)) / 10 \<le> fl (of_nat (weight t') * fl (10 + ?m')) / 10"
    and "0 \<le> fl (of_nat (weight t) * fl (10 + ?m)) / 10"
    by (simp_all add: divide_right_mono)
  then show ?thesis by (simp only: calculate_score_def Let_def fl_mono)
qed

text \<open>Scores that are whole numbers are computed without rounding.\<close>

lemma calculate_score_exact:
  assumes "wait_minutes now enq = 10 * k" and "weight t * (10 + 10 * k) < 2 ^ 53"
  shows "calculate_score now t enq = of_nat (weight t * (1 + k))"
proof -
  have "10 + 10 * k \<le> weight t * (10 + 10 * k)" using weight_pos [of t] by (cases "weight t") auto
  with assms(2) have k: "10 + 10 * k < 2 ^ 53" by linarith
  have a: "fl (of_nat (10 * k)) = of_nat (10 * k)" using k by (intro fl_of_nat) linarith
  have b: "fl (10 + of_nat (10 * k)) = of_nat (10 + 10 * k)" using fl_of_nat [OF k] by simp
  have c: "fl (of_nat (weight t) * of_nat (10 + 10 * k)) = of_nat (weight t * (10 + 10 * k))"
    using fl_of_nat [OF assms(2)] by simp
  have "(of_nat (weight t * (10 + 10 * k)) :: rat) / 10 = of_nat (weight t * (1 + k))"
    by (simp add: algebra_simps)
  moreover have "fl (of_nat (weight t * (1 + k))) = of_nat (weight t * (1 + k))"
    using assms(2) by (intro fl_of_nat) (simp add: algebra_simps)
  ultimately show ?thesis
    by (simp only: calculate_score_def Let_def assms(1) a b c)
qed

section \<open>Properties\<close>

text \<open>
  C28. Priority scores respect tiers and waiting time, also after rounding: a job of a tier that
  weighs at least as much and was enqueued no later never scores lower at the same or a later
  moment. Waiting removes starvation: a job of any tier that has waited 10000 minutes scores
  strictly higher than every job that is just being enqueued, whatever its tier.
\<close>

theorem score_no_starvation:
  assumes "enq' \<le> enq" and "now \<le> now'" and "weight t \<le> weight t'"
  shows "calculate_score now t enq \<le> calculate_score now' t' enq'
    \<and> (10000 \<le> wait_minutes now' enq' \<longrightarrow> calculate_score now' u now' < calculate_score now' t' enq')"
proof (intro conjI impI)
  show "calculate_score now t enq \<le> calculate_score now' t' enq'"
    using assms by (intro calculate_score_mono wait_minutes_mono)
next
  assume w: "10000 \<le> wait_minutes now' enq'"
  have "wait_minutes now' now' = 10 * 0" by (simp add: wait_minutes_def)
  then have "calculate_score now' u now' = of_nat (weight u * (1 + 0))"
    using weight_le [of u] by (intro calculate_score_exact) auto
  also have "\<dots> < of_nat (weight Free * (1 + 1000))" using weight_le [of u] by simp
  also have "\<dots> = calculate_score (10000 * NANOS_PER_MINUTE) Free 0"
    by (intro calculate_score_exact [symmetric]) (simp_all add: wait_minutes_def NANOS_PER_MINUTE_def)
  also have "\<dots> \<le> calculate_score now' t' enq'"
    using w weight_pos [of t']
    by (intro calculate_score_mono) (simp_all add: wait_minutes_def NANOS_PER_MINUTE_def)
  finally show "calculate_score now' u now' < calculate_score now' t' enq'" .
qed

theorem score_no_starvation_witness:
  "calculate_score (10000 * NANOS_PER_MINUTE) Enterprise (10000 * NANOS_PER_MINUTE)
     < calculate_score (10000 * NANOS_PER_MINUTE) Free 0"
proof -
  have "10000 \<le> wait_minutes (10000 * NANOS_PER_MINUTE) 0"
    by (simp add: wait_minutes_def NANOS_PER_MINUTE_def)
  then show ?thesis
    using score_no_starvation [of 0 0 "10000 * NANOS_PER_MINUTE" "10000 * NANOS_PER_MINUTE"
      Free Free Enterprise] by simp
qed

end
