(* ===== verification/Priority_Queue.thy ===== *)
theory Priority_Queue
  imports Job_Model "HOL-Library.Multiset"
begin

text \<open>
  The scheduler's priority queue (\<open>muli-queue/src/queue.rs\<close>). \<open>BinaryHeap\<close> is the list of its
  entries in some internal order; its \<open>pop\<close> takes an entry that is maximal in the order of
  \<open>ScoredJob\<close>. A \<open>HashSet\<close> is a list without repetitions. The mutex makes every operation atomic,
  so an operation is a function on the protected state; \<open>notify_permit\<close> is the single permit a
  \<open>tokio::sync::Notify\<close> can store.

  The abstract content of the queue is \<open>live\<close>, its entries without a tombstone. The locale
  \<open>job_queue\<close> is the contract the scheduler and the agent service rely on.
\<close>

record PriorityQueue =
  heap :: "ScoredJob list"
  tiers :: "PriorityTier table"
  removed :: "string list"
  notify_permit :: bool

definition PriorityQueue_new :: PriorityQueue where
  "PriorityQueue_new = \<lparr>heap = [], tiers = [], removed = [], notify_permit = False\<rparr>"

fun heap_pop :: "ScoredJob list \<Rightarrow> (ScoredJob \<times> ScoredJob list) option" where
  "heap_pop [] = None"
| "heap_pop (j # h) = (case heap_pop h of None \<Rightarrow> Some (j, [])
     | Some (m, r) \<Rightarrow> if ScoredJob_cmp j m = Less then Some (m, j # r) else Some (j, m # r))"

definition push :: "ScoredJob \<Rightarrow> PriorityTier \<Rightarrow> PriorityQueue \<Rightarrow> PriorityQueue" where
  "push job tier q = q\<lparr>tiers := tbl_insert (sj_job_id job) tier (tiers q), heap := job # heap q,
     notify_permit := True\<rparr>"

lemma heap_pop_None: "heap_pop h = None \<longleftrightarrow> h = []"
  by (cases h) (auto split: option.splits)

lemma heap_pop_length: "heap_pop h = Some (m, r) \<Longrightarrow> length h = Suc (length r)"
  by (induction h arbitrary: m r) (auto simp: heap_pop_None split: option.splits if_splits)

function pop :: "PriorityQueue \<Rightarrow> ScoredJob option \<times> PriorityQueue" where
  "pop q = (case heap_pop (heap q) of None \<Rightarrow> (None, q)
     | Some (job, h) \<Rightarrow>
         if sj_job_id job \<in> set (removed q)
         then pop (q\<lparr>heap := h, removed := removeAll (sj_job_id job) (removed q)\<rparr>)
         else (Some job, q\<lparr>heap := h\<rparr>))"
  by pat_completeness auto
termination
  by (relation "measure (\<lambda>q. length (heap q))") (auto dest: heap_pop_length)

declare pop.simps [simp del]

definition requeue :: "ScoredJob \<Rightarrow> PriorityQueue \<Rightarrow> PriorityQueue" where
  "requeue job q = q\<lparr>heap := job # heap q\<rparr>"

definition remove :: "string \<Rightarrow> PriorityQueue \<Rightarrow> PriorityQueue" where
  "remove jid q = q\<lparr>tiers := tbl_remove jid (tiers q), removed := List.insert jid (removed q)\<rparr>"

definition len :: "PriorityQueue \<Rightarrow> nat" where
  "len q = length (heap q) - length (removed q)"

definition queue_is_empty :: "PriorityQueue \<Rightarrow> bool" where
  "queue_is_empty q = (len q = 0)"

text \<open>\<open>clock j\<close> is the reading of the clock when entry \<open>j\<close> is refreshed.\<close>

definition refresh_scores :: "(ScoredJob \<Rightarrow> datetime) \<Rightarrow> PriorityQueue \<Rightarrow> PriorityQueue" where
  "refresh_scores clock q =
     (let jobs = filter (\<lambda>j. sj_job_id j \<notin> set (removed q)) (heap q);
          jobs' = map (\<lambda>j. case tbl_get (tiers q) (sj_job_id j) of None \<Rightarrow> j
                      | Some tier \<Rightarrow> refresh_score (clock j) tier j) jobs
      in q\<lparr>heap := jobs', removed := []\<rparr>)"

section \<open>Abstract content and invariant\<close>

definition live :: "PriorityQueue \<Rightarrow> ScoredJob list" where
  "live q = filter (\<lambda>j. sj_job_id j \<notin> set (removed q)) (heap q)"

abbreviation ids :: "ScoredJob list \<Rightarrow> string list" where
  "ids js \<equiv> map sj_job_id js"

text \<open>A job is queued at most once. Tombstones may be stale: of jobs no longer in the heap.\<close>

definition queue_inv :: "PriorityQueue \<Rightarrow> bool" where
  "queue_inv q \<longleftrightarrow> distinct (ids (heap q)) \<and> distinct (removed q) \<and> tbl_ok (tiers q)"

definition stale :: "PriorityQueue \<Rightarrow> string list" where
  "stale q = filter (\<lambda>i. i \<notin> set (ids (heap q))) (removed q)"

section \<open>The contract of a job queue\<close>

locale job_queue =
  fixes q_inv :: "'q \<Rightarrow> bool"
    and q_live :: "'q \<Rightarrow> ScoredJob list"
    and q_pop :: "'q \<Rightarrow> ScoredJob option \<times> 'q"
    and q_requeue :: "ScoredJob \<Rightarrow> 'q \<Rightarrow> 'q"
  assumes pop_None: "q_inv q \<Longrightarrow> q_pop q = (None, q') \<Longrightarrow> q_inv q' \<and> q_live q = [] \<and> q_live q' = []"
    and pop_Some: "q_inv q \<Longrightarrow> q_pop q = (Some j, q') \<Longrightarrow> q_inv q' \<and> mset (q_live q) = add_mset j (mset (q_live q'))"
    and pop_max: "q_inv q \<Longrightarrow> q_pop q = (Some j, q') \<Longrightarrow> x \<in> set (q_live q) \<Longrightarrow> sj_key x \<le> sj_key j"
    and requeue_popped: "q_inv q \<Longrightarrow> q_pop q = (Some j, q') \<Longrightarrow>
      q_inv (q_requeue j q') \<and> mset (q_live (q_requeue j q')) = mset (q_live q)"
begin

lemma pop_empty_iff: "q_inv q \<Longrightarrow> fst (q_pop q) = None \<longleftrightarrow> q_live q = []"
proof (cases "q_pop q")
  case (Pair a q')
  assume "q_inv q"
  with Pair show ?thesis using pop_None [of q q'] pop_Some [of q _ q'] by (cases a) auto
qed

lemma pop_mem: "q_inv q \<Longrightarrow> q_pop q = (Some j, q') \<Longrightarrow> j \<in> set (q_live q)"
  using pop_Some [of q j q'] by (metis set_mset_mset union_single_eq_member)

lemma pop_live_subset: "q_inv q \<Longrightarrow> q_pop q = (Some j, q') \<Longrightarrow> set (q_live q') \<subseteq> set (q_live q)"
  using pop_Some [of q j q'] by (metis set_mset_add_mset_insert set_mset_mset subset_insertI)

lemma pop_live_length: "q_inv q \<Longrightarrow> q_pop q = (Some j, q') \<Longrightarrow> length (q_live q) = Suc (length (q_live q'))"
  using pop_Some [of q j q'] by (metis size_add_mset size_mset)

end

section \<open>Lemmas\<close>

lemma heap_pop_mset: "heap_pop h = Some (m, r) \<Longrightarrow> mset h = add_mset m (mset r)"
  by (induction h arbitrary: m r) (auto simp: heap_pop_None split: option.splits if_splits)

lemma ScoredJob_cmp_Less: "ScoredJob_cmp a b = Less \<longleftrightarrow> sj_key a < sj_key b"
  by (simp add: ScoredJob_cmp_key)

lemma heap_pop_max: "heap_pop h = Some (m, r) \<Longrightarrow> x \<in> set h \<Longrightarrow> sj_key x \<le> sj_key m"
proof (induction h arbitrary: m r)
  case (Cons j h)
  show ?case
  proof (cases "heap_pop h")
    case None
    with Cons.prems show ?thesis by (simp add: heap_pop_None)
  next
    case (Some p)
    obtain m' r' where p: "heap_pop h = Some (m', r')" using Some by (cases p) simp
    have IH: "x \<in> set h \<Longrightarrow> sj_key x \<le> sj_key m'" using Cons.IH [OF p] .
    have "m = (if sj_key j < sj_key m' then m' else j)"
      using Cons.prems(1) p by (simp add: ScoredJob_cmp_Less split: if_splits)
    then show ?thesis using IH Cons.prems(2) by (auto split: if_splits)
  qed
qed simp

lemma distinct_map_mset: "mset xs = mset ys \<Longrightarrow> distinct (map f xs) \<longleftrightarrow> distinct (map f ys)"
  by (metis mset_eq_imp_distinct_iff mset_map)

lemma heap_pop_ids:
  assumes "heap_pop h = Some (m, r)" and "distinct (ids h)"
  shows "distinct (ids r)" "sj_job_id m \<notin> set (ids r)" "set (ids h) = insert (sj_job_id m) (set (ids r))"
proof -
  have m: "mset h = mset (m # r)" using heap_pop_mset [OF assms(1)] by simp
  then have "distinct (ids (m # r))" using assms(2) distinct_map_mset by blast
  then show "distinct (ids r)" "sj_job_id m \<notin> set (ids r)" by simp_all
  show "set (ids h) = insert (sj_job_id m) (set (ids r))"
    using arg_cong [OF m, of set_mset] by simp
qed

lemma live_mset: "mset (live q) = filter_mset (\<lambda>j. sj_job_id j \<notin> set (removed q)) (mset (heap q))"
  by (simp add: live_def mset_filter)

text \<open>Dropping a tombstoned entry together with its tombstone does not change the live entries.\<close>

lemma live_drop_tombstone:
  assumes "queue_inv q" and "heap_pop (heap q) = Some (j, h)" and "sj_job_id j \<in> set (removed q)"
  defines "q' \<equiv> q\<lparr>heap := h, removed := removeAll (sj_job_id j) (removed q)\<rparr>"
  shows "queue_inv q'" "mset (live q') = mset (live q)"
proof -
  note h = heap_pop_ids [OF assms(2)] and inv = assms(1) [unfolded queue_inv_def]
  show "queue_inv q'"
    using inv h by (auto simp: q'_def queue_inv_def distinct_removeAll)
  have "filter_mset (\<lambda>x. sj_job_id x \<notin> set (removed q')) (mset h)
      = filter_mset (\<lambda>x. sj_job_id x \<notin> set (removed q)) (mset h)"
    using h(2) inv by (intro filter_mset_cong) (auto simp: q'_def image_iff)
  then show "mset (live q') = mset (live q)"
    using heap_pop_mset [OF assms(2)] assms(3) by (simp add: live_mset q'_def)
qed

lemma pop_cases:
  assumes "queue_inv q"
  shows "case pop q of
      (None, q') \<Rightarrow> queue_inv q' \<and> mset (live q) = {#} \<and> live q' = []
    | (Some j, q') \<Rightarrow> queue_inv q' \<and> mset (live q) = add_mset j (mset (live q'))
        \<and> sj_job_id j \<notin> set (ids (heap q')) \<and> sj_job_id j \<notin> set (removed q')
        \<and> (\<forall>x \<in> set (live q). sj_key x \<le> sj_key j)"
  using assms
proof (induction q rule: pop.induct)
  case (1 q)
  show ?case
  proof (cases "heap_pop (heap q)")
    case None
    then have "pop q = (None, q)" by (subst pop.simps) simp
    moreover have "live q = []" using None by (simp add: heap_pop_None live_def)
    ultimately show ?thesis using "1.prems" by simp
  next
    case (Some p)
    obtain j h where p: "heap_pop (heap q) = Some (j, h)" using Some by (cases p) simp
    show ?thesis
    proof (cases "sj_job_id j \<in> set (removed q)")
      case True
      let ?q = "q\<lparr>heap := h, removed := removeAll (sj_job_id j) (removed q)\<rparr>"
      note drop = live_drop_tombstone [OF "1.prems" p True]
      have "pop q = pop ?q" using p True by (subst pop.simps) simp
      moreover have "set (live ?q) = set (live q)" using drop(2) by (metis set_mset_mset)
      ultimately show ?thesis
        using "1.IH" [OF p refl True drop(1)] drop(2) by (simp split: prod.splits option.splits)
    next
      case False
      then have "pop q = (Some j, q\<lparr>heap := h\<rparr>)" using p by (subst pop.simps) simp
      moreover have "queue_inv (q\<lparr>heap := h\<rparr>)"
        using "1.prems" heap_pop_ids [OF p] by (simp add: queue_inv_def)
      moreover have "mset (live q) = add_mset j (mset (live (q\<lparr>heap := h\<rparr>)))"
        using heap_pop_mset [OF p] False by (simp add: live_mset)
      moreover have "\<forall>x \<in> set (live q). sj_key x \<le> sj_key j"
        using heap_pop_max [OF p] by (simp add: live_def)
      ultimately show ?thesis
        using heap_pop_ids(2) [OF p] "1.prems" False by (simp add: queue_inv_def)
    qed
  qed
qed

lemma requeue_live: "sj_job_id j \<notin> set (removed q) \<Longrightarrow> live (requeue j q) = j # live q"
  by (simp add: live_def requeue_def)

lemma requeue_inv: "queue_inv q \<Longrightarrow> sj_job_id j \<notin> set (ids (heap q)) \<Longrightarrow> queue_inv (requeue j q)"
  by (simp add: queue_inv_def requeue_def)

interpretation pq: job_queue queue_inv live pop requeue
proof unfold_locales
  fix q q' assume "queue_inv q" "pop q = (None, q')"
  then show "queue_inv q' \<and> live q = [] \<and> live q' = []" using pop_cases [of q] by simp
next
  fix q j q' assume a: "queue_inv q" "pop q = (Some j, q')"
  then show "queue_inv q' \<and> mset (live q) = add_mset j (mset (live q'))" using pop_cases [of q] by simp
  from a show "queue_inv (requeue j q') \<and> mset (live (requeue j q')) = mset (live q)"
    using pop_cases [of q] by (simp add: requeue_live requeue_inv)
next
  fix q j q' x assume "queue_inv q" "pop q = (Some j, q')" "x \<in> set (live q)"
  then show "sj_key x \<le> sj_key j" using pop_cases [of q] by simp
qed

lemma push_inv: "queue_inv q \<Longrightarrow> sj_job_id j \<notin> set (ids (heap q)) \<Longrightarrow> queue_inv (push j t q)"
  by (simp add: queue_inv_def push_def)

lemma push_live: "sj_job_id j \<notin> set (removed q) \<Longrightarrow> live (push j t q) = j # live q"
  by (simp add: live_def push_def)

lemma remove_inv: "queue_inv q \<Longrightarrow> queue_inv (remove i q)"
  by (simp add: queue_inv_def remove_def)

lemma remove_live: "live (remove i q) = filter (\<lambda>j. sj_job_id j \<noteq> i) (live q)"
  by (auto simp: live_def remove_def conj_commute intro!: filter_cong)

lemma refresh_inv: "queue_inv q \<Longrightarrow> queue_inv (refresh_scores clock q)"
proof -
  assume "queue_inv q"
  moreover have "ids (heap (refresh_scores clock q)) = ids (live q)"
    by (auto simp: refresh_scores_def Let_def live_def refresh_score_def split: option.splits)
  moreover have "tiers (refresh_scores clock q) = tiers q" "removed (refresh_scores clock q) = []"
    by (simp_all add: refresh_scores_def Let_def)
  ultimately show ?thesis
    unfolding queue_inv_def by (simp add: live_def distinct_map_filter)
qed

lemma refresh_ids: "ids (live (refresh_scores clock q)) = ids (live q)"
  by (auto simp: refresh_scores_def Let_def live_def refresh_score_def split: option.splits)

section \<open>Sample queue\<close>

definition sample_job :: "string \<Rightarrow> rat \<Rightarrow> ScoredJob" where
  "sample_job i s = \<lparr>sj_job_id = i, sj_score = s, enqueued_at = 0, sj_tenant_id = ''t''\<rparr>"

text \<open>Three jobs queued, the best of which was removed, and a tombstone of a job that ran before.\<close>

definition sample_queue :: PriorityQueue where
  "sample_queue = \<lparr>heap = [sample_job ''a'' 10, sample_job ''b'' 100, sample_job ''c'' 50],
     tiers = [(''a'', Standard), (''c'', Premium)], removed = [''z'', ''b''], notify_permit = True\<rparr>"

lemma sample_queue_inv: "queue_inv sample_queue"
  by (simp add: sample_queue_def queue_inv_def sample_job_def)

section \<open>Properties\<close>

text \<open>
  C7. The tombstoned heap implements a priority queue on its live entries. Pushing a new job
  adds it, removing a job deletes exactly its entry, \<open>pop\<close> returns an entry of maximal score
  (ties by job id) and deletes exactly that one, a popped job can be put back, refreshing the
  scores keeps exactly the live jobs, and all of these keep every job queued at most once.
\<close>

theorem queue_refines_live:
  assumes "queue_inv q"
  shows "(sj_job_id j \<notin> set (ids (heap q)) \<and> sj_job_id j \<notin> set (removed q) \<longrightarrow>
            queue_inv (push j t q) \<and> live (push j t q) = j # live q)
    \<and> queue_inv (remove i q) \<and> live (remove i q) = filter (\<lambda>j. sj_job_id j \<noteq> i) (live q)
    \<and> queue_inv (refresh_scores clock q) \<and> ids (live (refresh_scores clock q)) = ids (live q)
    \<and> (fst (pop q) = None \<longleftrightarrow> live q = [])
    \<and> (\<forall>m q'. pop q = (Some m, q') \<longrightarrow> queue_inv q' \<and> mset (live q) = add_mset m (mset (live q'))
         \<and> (\<forall>x \<in> set (live q). sj_key x \<le> sj_key m)
         \<and> queue_inv (requeue m q') \<and> mset (live (requeue m q')) = mset (live q))"
  using assms
  by (simp add: push_inv push_live remove_inv remove_live refresh_inv refresh_ids
      pq.pop_empty_iff pq.requeue_popped) (blast dest: pq.pop_Some pq.pop_max)

theorem queue_refines_live_witness:
  "queue_inv sample_queue \<and> fst (pop sample_queue) = Some (sample_job ''c'' 50)
    \<and> mset (live sample_queue) = add_mset (sample_job ''c'' 50) (mset (live (snd (pop sample_queue))))
    \<and> live (push (sample_job ''d'' 1) Standard sample_queue) = sample_job ''d'' 1 # live sample_queue"
proof -
  have c: "fst (pop sample_queue) = Some (sample_job ''c'' 50)"
    by (simp add: sample_queue_def pop.simps sample_job_def ScoredJob_cmp_def)
  have "sj_job_id (sample_job ''d'' 1) \<notin> set (ids (heap sample_queue))
      \<and> sj_job_id (sample_job ''d'' 1) \<notin> set (removed sample_queue)"
    by (simp add: sample_queue_def sample_job_def)
  with c show ?thesis
    using sample_queue_inv
      queue_refines_live [OF sample_queue_inv, of "sample_job ''d'' 1" Standard "[]" "\<lambda>_. 0"]
    by (metis prod.collapse)
qed

text \<open>
  What \<open>len\<close> reports: the live entries minus the stale tombstones, those left behind when a
  job that had already left the heap is removed. It is the number of live jobs exactly when no
  stale tombstone is around; a refresh clears all of them.
\<close>

theorem queue_len_exact:
  assumes "queue_inv q"
  shows "len q = length (live q) - length (stale q)
    \<and> (set (removed q) \<subseteq> set (ids (heap q)) \<longrightarrow> len q = length (live q))
    \<and> len (refresh_scores clock q) = length (live q)"
proof -
  let ?D = "filter (\<lambda>j. sj_job_id j \<in> set (removed q)) (heap q)"
  note inv = assms [unfolded queue_inv_def]
  have sum: "length (heap q) = length (live q) + length ?D"
    unfolding live_def by (metis add.commute sum_length_filter_compl)
  have split: "length (removed q) = length (stale q)
      + length (filter (\<lambda>i. i \<in> set (ids (heap q))) (removed q))"
    unfolding stale_def by (metis add.commute sum_length_filter_compl)
  have "length ?D = length (ids ?D)" by simp
  also have "\<dots> = card (set (ids ?D))"
    using inv by (intro distinct_card [symmetric]) (simp add: distinct_map_filter)
  also have "set (ids ?D) = set (filter (\<lambda>i. i \<in> set (ids (heap q))) (removed q))" by auto
  also have "card \<dots> = length (filter (\<lambda>i. i \<in> set (ids (heap q))) (removed q))"
    using inv by (intro distinct_card) simp
  finally have len: "len q = length (live q) - length (stale q)"
    using sum split by (simp add: len_def)
  moreover have "set (removed q) \<subseteq> set (ids (heap q)) \<Longrightarrow> stale q = []"
    by (auto simp: stale_def filter_empty_conv)
  moreover have "len (refresh_scores clock q) = length (live q)"
    by (simp add: len_def refresh_scores_def Let_def live_def)
  ultimately show ?thesis by simp
qed

theorem queue_len_exact_witness:
  "queue_inv sample_queue \<and> stale sample_queue = [''z''] \<and> length (live sample_queue) = 2
    \<and> len sample_queue = 2 - 1 \<and> len (refresh_scores (\<lambda>_. 0) sample_queue) = 2"
proof -
  have "stale sample_queue = [''z'']" "length (live sample_queue) = 2"
    by (simp_all add: sample_queue_def sample_job_def stale_def live_def)
  then show ?thesis using queue_len_exact [OF sample_queue_inv, of "\<lambda>_. 0"] sample_queue_inv by simp
qed

text \<open>
  The count is wrong in an ordinary run: a job is dispatched, then cancelled while it runs (the
  cancel path calls \<open>remove\<close> for every active job), and another job waits in the queue. The queue
  then reports itself empty although \<open>pop\<close> would return the waiting job. And a job whose id was
  removed while it was not queued is dropped by the next \<open>pop\<close> when it is queued later.
\<close>

theorem queue_len_undercounts:
  assumes "queue_inv q" and "live q = [a]" and "removed q = []"
    and "sj_job_id b \<noteq> sj_job_id a" and "sj_job_id b \<notin> set (ids (heap q))"
  defines "q' \<equiv> remove (sj_job_id b) q"
  shows "queue_is_empty q' \<and> fst (pop q') = Some a"
proof -
  have h: "heap q = [a]" using assms(2,3) by (simp add: live_def)
  then show ?thesis
    using assms(3,4) by (simp add: q'_def remove_def queue_is_empty_def len_def pop.simps)
qed

theorem push_of_removed_is_lost:
  assumes "heap q = []"
  shows "fst (pop (push j t (remove (sj_job_id j) q))) = None"
  using assms by (simp add: push_def remove_def pop.simps)

end
