(* ===== verification/Concurrency.thy ===== *)
theory Concurrency
  imports Muli_Error
begin

text \<open>
  The concurrency limiter (\<open>muli-queue/src/concurrency.rs\<close>): a global semaphore and one atomic
  counter per tenant. Two models: \<open>try_acquire\<close> and \<open>permit_drop\<close> are the calls executed without
  interference, as explicit state passing; \<open>limiter_step\<close> is the code with the grain of its atomic
  operations (semaphore acquire, map entry, load, compare-exchange, fetch-sub, semaphore release),
  interleaved over any number of threads.

  Counters are never removed from the map, so an \<open>Arc\<close> to a counter is the tenant's name.
\<close>

record ConcurrencyLimiter =
  global_avail :: nat
  per_tenant :: "nat table"
  per_tenant_limit :: nat

record ConcurrencyPermit =
  permit_tenant :: string

definition ConcurrencyLimiter_new :: "nat \<Rightarrow> nat \<Rightarrow> ConcurrencyLimiter" where
  "ConcurrencyLimiter_new global_limit tenant_limit =
     \<lparr>global_avail = global_limit, per_tenant = [], per_tenant_limit = tenant_limit\<rparr>"

definition active_count_for_tenant :: "ConcurrencyLimiter \<Rightarrow> string \<Rightarrow> nat" where
  "active_count_for_tenant l t = (case tbl_get (per_tenant l) t of None \<Rightarrow> 0 | Some c \<Rightarrow> c)"

definition active_count :: "ConcurrencyLimiter \<Rightarrow> nat" where
  "active_count l = sum_list (map snd (per_tenant l))"

definition global_limit_error :: MuliError where
  "global_limit_error = ConcurrencyLimit ''global concurrency limit reached''"

definition tenant_limit_error :: "string \<Rightarrow> MuliError" where
  "tenant_limit_error t = ConcurrencyLimit (''tenant '' @ t @ '' concurrency limit reached'')"

text \<open>\<open>entry(..).or_insert_with(0)\<close>\<close>

definition tenant_entry :: "string \<Rightarrow> nat table \<Rightarrow> nat table" where
  "tenant_entry t m = (case tbl_get m t of None \<Rightarrow> tbl_insert t 0 m | Some _ \<Rightarrow> m)"

definition try_acquire :: "ConcurrencyLimiter \<Rightarrow> string \<Rightarrow> ConcurrencyPermit result \<times> ConcurrencyLimiter" where
  "try_acquire l t =
     (if global_avail l = 0 then (Inl global_limit_error, l)
      else
        let l1 = l\<lparr>global_avail := global_avail l - 1, per_tenant := tenant_entry t (per_tenant l)\<rparr>;
            current = active_count_for_tenant l1 t
        in if per_tenant_limit l \<le> current
           then (Inl (tenant_limit_error t), l1\<lparr>global_avail := global_avail l1 + 1\<rparr>)
           else (Inr \<lparr>permit_tenant = t\<rparr>, l1\<lparr>per_tenant := tbl_insert t (current + 1) (per_tenant l1)\<rparr>))"

text \<open>Dropping a permit runs \<open>Drop::drop\<close> (the \<open>fetch_sub\<close>), then drops the semaphore permit.\<close>

definition permit_drop :: "ConcurrencyPermit \<Rightarrow> ConcurrencyLimiter \<Rightarrow> ConcurrencyLimiter" where
  "permit_drop p l =
     (let t = permit_tenant p;
          l1 = l\<lparr>per_tenant := tbl_insert t (active_count_for_tenant l t - 1) (per_tenant l)\<rparr>
      in l1\<lparr>global_avail := global_avail l1 + 1\<rparr>)"

section \<open>The atomic steps of a thread\<close>

datatype limiter_pc =
    AcquireGlobal string
  | GetCounter string
  | LoadCounter string
  | CompareExchange string nat
  | ReleaseGlobal string
  | Holding string
  | DropGlobal string
  | Denied MuliError
  | Dropped

fun thread_step :: "ConcurrencyLimiter \<Rightarrow> limiter_pc \<Rightarrow> ConcurrencyLimiter \<times> limiter_pc" where
  "thread_step l (AcquireGlobal t) =
     (if global_avail l = 0 then (l, Denied global_limit_error)
      else (l\<lparr>global_avail := global_avail l - 1\<rparr>, GetCounter t))"
| "thread_step l (GetCounter t) = (l\<lparr>per_tenant := tenant_entry t (per_tenant l)\<rparr>, LoadCounter t)"
| "thread_step l (LoadCounter t) =
     (let current = active_count_for_tenant l t
      in if per_tenant_limit l \<le> current then (l, ReleaseGlobal t) else (l, CompareExchange t current))"
| "thread_step l (CompareExchange t current) =
     (if active_count_for_tenant l t = current
      then (l\<lparr>per_tenant := tbl_insert t (current + 1) (per_tenant l)\<rparr>, Holding t)
      else (l, LoadCounter t))"
| "thread_step l (ReleaseGlobal t) = (l\<lparr>global_avail := global_avail l + 1\<rparr>, Denied (tenant_limit_error t))"
| "thread_step l (Holding t) =
     (l\<lparr>per_tenant := tbl_insert t (active_count_for_tenant l t - 1) (per_tenant l)\<rparr>, DropGlobal t)"
| "thread_step l (DropGlobal t) = (l\<lparr>global_avail := global_avail l + 1\<rparr>, Dropped)"
| "thread_step l (Denied e) = (l, Denied e)"
| "thread_step l Dropped = (l, Dropped)"

text \<open>Any thread may move next; a new call to \<open>try_acquire\<close> may start at any time.\<close>

inductive limiter_step :: "ConcurrencyLimiter \<times> limiter_pc list \<Rightarrow> ConcurrencyLimiter \<times> limiter_pc list \<Rightarrow> bool" where
  call: "limiter_step (l, ts) (l, ts @ [AcquireGlobal t])"
| move: "i < length ts \<Longrightarrow> thread_step l (ts ! i) = (l', pc) \<Longrightarrow> limiter_step (l, ts) (l', ts[i := pc])"

definition limiter_reachable :: "nat \<Rightarrow> nat \<Rightarrow> ConcurrencyLimiter \<times> limiter_pc list \<Rightarrow> bool" where
  "limiter_reachable n k s = limiter_step\<^sup>*\<^sup>* (ConcurrencyLimiter_new n k, []) s"

fun has_global :: "limiter_pc \<Rightarrow> bool" where
  "has_global (AcquireGlobal t) = False"
| "has_global (Denied e) = False"
| "has_global Dropped = False"
| "has_global _ = True"

definition holds :: "string \<Rightarrow> limiter_pc \<Rightarrow> bool" where
  "holds t pc = (pc = Holding t)"

definition cnt :: "('a \<Rightarrow> bool) \<Rightarrow> 'a list \<Rightarrow> nat" where
  "cnt P xs = length (filter P xs)"

section \<open>The contract of a limiter\<close>

locale slot_limiter =
  fixes l_inv :: "'l \<Rightarrow> bool"
    and acquire :: "'l \<Rightarrow> string \<Rightarrow> 'p result \<times> 'l"
    and free_slots :: "'l \<Rightarrow> nat"
    and tenant_limit :: "'l \<Rightarrow> nat"
    and active :: "'l \<Rightarrow> string \<Rightarrow> nat"
  assumes acquire_ok: "l_inv l \<Longrightarrow> acquire l t = (Inr p, l') \<Longrightarrow>
      l_inv l' \<and> free_slots l = Suc (free_slots l') \<and> tenant_limit l' = tenant_limit l
      \<and> active l t < tenant_limit l \<and> active l' = (active l)(t := Suc (active l t))"
    and acquire_err: "l_inv l \<Longrightarrow> acquire l t = (Inl e, l') \<Longrightarrow>
      l_inv l' \<and> free_slots l' = free_slots l \<and> tenant_limit l' = tenant_limit l \<and> active l' = active l
      \<and> (free_slots l = 0 \<or> tenant_limit l \<le> active l t)"
begin

lemma acquire_ok_iff: "l_inv l \<Longrightarrow> is_ok (fst (acquire l t)) \<longleftrightarrow> 0 < free_slots l \<and> active l t < tenant_limit l"
proof (cases "acquire l t")
  case (Pair r l')
  assume "l_inv l"
  with Pair show ?thesis
    using acquire_ok [of l t _ l'] acquire_err [of l t _ l'] by (cases r) auto
qed

end

section \<open>Lemmas\<close>

lemma counter_updates [simp]:
  "active_count_for_tenant (l\<lparr>per_tenant := tenant_entry t (per_tenant l)\<rparr>) u = active_count_for_tenant l u"
  "active_count_for_tenant (l\<lparr>global_avail := n, per_tenant := tenant_entry t (per_tenant l)\<rparr>) u
     = active_count_for_tenant l u"
  "active_count_for_tenant (l\<lparr>per_tenant := tbl_insert t c (per_tenant l)\<rparr>) u
     = (if u = t then c else active_count_for_tenant l u)"
  "active_count_for_tenant (l\<lparr>global_avail := n, per_tenant := tbl_insert t c (tenant_entry t (per_tenant l))\<rparr>) u
     = (if u = t then c else active_count_for_tenant l u)"
  "active_count_for_tenant (l\<lparr>global_avail := n\<rparr>) u = active_count_for_tenant l u"
  "active_count_for_tenant (l\<lparr>global_avail := n, per_tenant := tbl_insert t c (per_tenant l)\<rparr>) u
     = (if u = t then c else active_count_for_tenant l u)"
  by (simp_all add: active_count_for_tenant_def tenant_entry_def map_of_tbl_insert split: option.splits)

lemma cnt_Nil [simp]: "cnt P [] = 0"
  by (simp add: cnt_def)

lemma cnt_append [simp]: "cnt P (xs @ ys) = cnt P xs + cnt P ys"
  by (simp add: cnt_def)

lemma cnt_Cons [simp]: "cnt P (x # xs) = of_bool (P x) + cnt P xs"
  by (simp add: cnt_def)

lemma cnt_update: "i < length xs \<Longrightarrow> cnt P (xs[i := y]) + of_bool (P (xs ! i)) = cnt P xs + of_bool (P y)"
proof (induction xs arbitrary: i)
  case (Cons x xs)
  then show ?case by (cases i) simp_all
qed simp

lemma cnt_pos: "i < length xs \<Longrightarrow> P (xs ! i) \<Longrightarrow> 0 < cnt P xs"
  by (auto simp: cnt_def filter_empty_conv)

definition limiter_inv :: "nat \<Rightarrow> nat \<Rightarrow> ConcurrencyLimiter \<times> limiter_pc list \<Rightarrow> bool" where
  "limiter_inv n k s = (case s of (l, ts) \<Rightarrow>
     per_tenant_limit l = k \<and> global_avail l + cnt has_global ts = n
     \<and> (\<forall>t. active_count_for_tenant l t = cnt (holds t) ts \<and> cnt (holds t) ts \<le> k)
     \<and> (\<forall>t c. CompareExchange t c \<in> set ts \<longrightarrow> c < k))"

text \<open>One atomic step keeps the books, given the counts of the other threads.\<close>

lemma thread_step_books:
  assumes "thread_step l pc = (l', pc')"
    and "per_tenant_limit l = k"
    and "global_avail l + (g + of_bool (has_global pc)) = n"
    and "\<And>t. active_count_for_tenant l t = h t + of_bool (holds t pc)"
    and "\<And>t. h t + of_bool (holds t pc) \<le> k"
    and "\<And>t c. pc = CompareExchange t c \<Longrightarrow> c < k"
  shows "per_tenant_limit l' = k \<and> global_avail l' + (g + of_bool (has_global pc')) = n
    \<and> (\<forall>t. active_count_for_tenant l' t = h t + of_bool (holds t pc')
         \<and> h t + of_bool (holds t pc') \<le> k)
    \<and> (\<forall>t c. pc' = CompareExchange t c \<longrightarrow> c < k)"
proof (cases pc)
  case (AcquireGlobal t)
  then show ?thesis using assms by (auto simp: holds_def split: if_splits)
next
  case (GetCounter t)
  then show ?thesis using assms by (auto simp: holds_def)
next
  case (LoadCounter t)
  then show ?thesis using assms by (auto simp: holds_def Let_def split: if_splits)
next
  case (CompareExchange t c)
  have le: "h u \<le> k" for u using assms(5) [of u] by (rule add_leD1)
  show ?thesis
  proof (cases "active_count_for_tenant l t = c")
    case True
    then have l': "l' = l\<lparr>per_tenant := tbl_insert t (c + 1) (per_tenant l)\<rparr>" "pc' = Holding t"
      using assms(1) CompareExchange by auto
    have "h t = c" using True assms(4) [of t] CompareExchange by (simp add: holds_def)
    moreover have "c < k" using assms(6) CompareExchange by blast
    ultimately show ?thesis using assms(2-4) le CompareExchange by (auto simp: l' holds_def)
  next
    case False
    then show ?thesis using assms(1-4) le CompareExchange by (auto simp: holds_def)
  qed
next
  case (ReleaseGlobal t)
  then show ?thesis using assms by (auto simp: holds_def)
next
  case (Holding t)
  have l': "l' = l\<lparr>per_tenant := tbl_insert t (active_count_for_tenant l t - 1) (per_tenant l)\<rparr>" "pc' = DropGlobal t"
    using assms(1) Holding by auto
  have "h u \<le> k" for u using assms(5) [of u] by (rule add_leD1)
  then show ?thesis using assms(2-4) Holding by (auto simp: l' holds_def)
next
  case (DropGlobal t)
  then show ?thesis using assms by (auto simp: holds_def)
next
  case (Denied e)
  then show ?thesis using assms by (auto simp: holds_def)
next
  case Dropped
  then show ?thesis using assms by (auto simp: holds_def)
qed

lemma limiter_inv_step:
  assumes "limiter_step s s'" and "limiter_inv n k s"
  shows "limiter_inv n k s'"
  using assms
proof (cases rule: limiter_step.cases)
  case (call l ts t)
  then show ?thesis using assms(2) by (auto simp: limiter_inv_def holds_def)
next
  case (move i ts l l' pc)
  define g h where "g = cnt has_global ts - of_bool (has_global (ts ! i))"
    and "h t = cnt (holds t) ts - of_bool (holds t (ts ! i))" for t
  have g: "cnt has_global ts = g + of_bool (has_global (ts ! i))"
    using cnt_pos [of i ts has_global] move(3) by (cases "has_global (ts ! i)") (auto simp: g_def)
  have h: "cnt (holds t) ts = h t + of_bool (holds t (ts ! i))" for t
    using cnt_pos [of i ts "holds t"] move(3) by (cases "holds t (ts ! i)") (auto simp: h_def)
  have inv: "per_tenant_limit l = k" "global_avail l + cnt has_global ts = n"
      "active_count_for_tenant l t = cnt (holds t) ts" "cnt (holds t) ts \<le> k"
      "CompareExchange t c \<in> set ts \<Longrightarrow> c < k" for t c
    using assms(2) by (simp_all add: limiter_inv_def move(1))
  have "ts ! i \<in> set ts" using move(3) by simp
  then have books: "per_tenant_limit l' = k \<and> global_avail l' + (g + of_bool (has_global pc)) = n
    \<and> (\<forall>t. active_count_for_tenant l' t = h t + of_bool (holds t pc) \<and> h t + of_bool (holds t pc) \<le> k)
    \<and> (\<forall>t c. pc = CompareExchange t c \<longrightarrow> c < k)"
    using inv by (intro thread_step_books [OF move(4)]) (auto simp flip: g h)
  moreover have "CompareExchange t c \<in> set (ts[i := pc]) \<Longrightarrow> c < k" for t c
    using set_update_subset_insert [of ts i pc] inv(5) books by blast
  moreover have "cnt has_global (ts[i := pc]) = g + of_bool (has_global pc)"
    using cnt_update [OF move(3), of has_global pc] g by simp
  moreover have "cnt (holds t) (ts[i := pc]) = h t + of_bool (holds t pc)" for t
    using cnt_update [OF move(3), of "holds t" pc] h [of t] by simp
  ultimately show ?thesis unfolding limiter_inv_def move(2) by (simp only: prod.case) blast
qed

lemma limiter_inv_reachable: "limiter_reachable n k s \<Longrightarrow> limiter_inv n k s"
  unfolding limiter_reachable_def
proof (induction rule: rtranclp_induct)
  case base
  show ?case by (simp add: limiter_inv_def ConcurrencyLimiter_new_def active_count_for_tenant_def)
next
  case (step s s')
  then show ?case using limiter_inv_step by blast
qed

lemma try_acquire_ok:
  "try_acquire l t = (Inr p, l') \<Longrightarrow> p = \<lparr>permit_tenant = t\<rparr> \<and> global_avail l = Suc (global_avail l')
     \<and> per_tenant_limit l' = per_tenant_limit l \<and> active_count_for_tenant l t < per_tenant_limit l
     \<and> active_count_for_tenant l' = (active_count_for_tenant l)(t := Suc (active_count_for_tenant l t))"
  by (auto simp: try_acquire_def Let_def fun_eq_iff split: if_splits)

lemma try_acquire_err:
  "try_acquire l t = (Inl e, l') \<Longrightarrow> global_avail l' = global_avail l
     \<and> per_tenant_limit l' = per_tenant_limit l \<and> active_count_for_tenant l' = active_count_for_tenant l
     \<and> (global_avail l = 0 \<or> per_tenant_limit l \<le> active_count_for_tenant l t)"
  by (auto simp: try_acquire_def Let_def fun_eq_iff split: if_splits)

interpretation lim: slot_limiter "\<lambda>_. True" try_acquire global_avail per_tenant_limit active_count_for_tenant
  by unfold_locales (use try_acquire_ok try_acquire_err in blast)+

lemma sum_list_table:
  "tbl_ok m \<Longrightarrow> sum_list (map snd m) = (\<Sum>t \<in> set (map fst m). case tbl_get m t of None \<Rightarrow> 0 | Some c \<Rightarrow> c)"
  for m :: "nat table"
proof (induction m)
  case (Cons e m)
  obtain t c where e: "e = (t, c)" by (cases e)
  have "t \<notin> set (map fst m)" using Cons.prems e by simp
  then have "(\<Sum>u \<in> set (map fst m). case tbl_get (e # m) u of None \<Rightarrow> 0 | Some c \<Rightarrow> c)
      = (\<Sum>u \<in> set (map fst m). case tbl_get m u of None \<Rightarrow> 0 | Some c \<Rightarrow> c)"
    by (intro sum.cong) (auto simp: e)
  then show ?case using Cons e by simp
qed simp

lemma cnt_holding_sum:
  "finite S \<Longrightarrow> (\<And>t. Holding t \<in> set ts \<Longrightarrow> t \<in> S) \<Longrightarrow>
     (\<Sum>t \<in> S. cnt (holds t) ts) = cnt (\<lambda>pc. \<exists>t. pc = Holding t) ts"
proof (induction ts)
  case (Cons pc ts)
  have "(\<Sum>t \<in> S. of_bool (holds t pc)) = (of_bool (\<exists>t. pc = Holding t) :: nat)"
    using Cons.prems by (cases "\<exists>t. pc = Holding t") (auto simp: holds_def of_bool_def)
  then show ?case using Cons.IH Cons.prems unfolding cnt_Cons sum.distrib by (simp del: sum_of_bool_eq)
qed simp

lemma cnt_mono: "(\<And>x. P x \<Longrightarrow> Q x) \<Longrightarrow> cnt P xs \<le> cnt Q xs"
  by (induction xs) (auto simp: of_bool_def)

lemma thread_step_table: "thread_step l pc = (l', pc') \<Longrightarrow> tbl_ok (per_tenant l) \<Longrightarrow> tbl_ok (per_tenant l')"
  by (cases pc) (auto simp: tenant_entry_def Let_def split: if_splits option.splits)

lemma limiter_table_reachable: "limiter_reachable n k s \<Longrightarrow> tbl_ok (per_tenant (fst s))"
  unfolding limiter_reachable_def
proof (induction rule: rtranclp_induct)
  case (step s s')
  from step(2,3) show ?case by (cases rule: limiter_step.cases) (auto dest: thread_step_table)
qed (simp add: ConcurrencyLimiter_new_def)

lemma reachable_init: "limiter_reachable n k (ConcurrencyLimiter_new n k, [])"
  by (simp add: limiter_reachable_def)

lemma reachable_step: "limiter_reachable n k s \<Longrightarrow> limiter_step s s' \<Longrightarrow> limiter_reachable n k s'"
  unfolding limiter_reachable_def by (rule rtranclp.rtrancl_into_rtrancl)

text \<open>Running a concrete schedule: the list says which thread moves next.\<close>

fun run_schedule :: "nat list \<Rightarrow> ConcurrencyLimiter \<times> limiter_pc list \<Rightarrow> ConcurrencyLimiter \<times> limiter_pc list" where
  "run_schedule [] s = s"
| "run_schedule (i # is) (l, ts) =
     (if i < length ts then (case thread_step l (ts ! i) of (l', pc) \<Rightarrow> run_schedule is (l', ts[i := pc]))
      else run_schedule is (l, ts))"

lemma run_schedule_reachable: "limiter_reachable n k s \<Longrightarrow> limiter_reachable n k (run_schedule is s)"
proof (induction "is" s rule: run_schedule.induct)
  case (2 i "is" l ts)
  obtain l' pc where st: "thread_step l (ts ! i) = (l', pc)" by (cases "thread_step l (ts ! i)")
  show ?case
  proof (cases "i < length ts")
    case True
    have "limiter_reachable n k (l', ts[i := pc])"
      by (rule reachable_step [OF "2.prems" limiter_step.move [OF True st]])
    then show ?thesis using "2.IH"(1) [OF True st [symmetric]] True st by simp
  next
    case False
    then show ?thesis using "2.IH"(2) "2.prems" by simp
  qed
qed simp

section \<open>Properties\<close>

text \<open>
  C2. However the atomic steps of concurrent \<open>try_acquire\<close> calls and permit drops interleave: the
  free slots and the threads holding a slot of the global semaphore add up to the global limit,
  each tenant's counter is the number of permits it holds and never exceeds the tenant limit,
  \<open>active_count\<close> is the number of permits outstanding and never exceeds the global limit.
\<close>

theorem limiter_safe:
  assumes "limiter_reachable n k (l, ts)"
  shows "global_avail l + cnt has_global ts = n
    \<and> (\<forall>t. active_count_for_tenant l t = cnt (holds t) ts \<and> cnt (holds t) ts \<le> k)
    \<and> active_count l = cnt (\<lambda>pc. \<exists>t. pc = Holding t) ts \<and> active_count l \<le> n"
proof -
  have inv: "global_avail l + cnt has_global ts = n"
      "active_count_for_tenant l t = cnt (holds t) ts" "cnt (holds t) ts \<le> k" for t
    using limiter_inv_reachable [OF assms] by (simp_all add: limiter_inv_def)
  have "t \<in> set (map fst (per_tenant l))" if "Holding t \<in> set ts" for t
  proof -
    have "0 < cnt (holds t) ts" using that by (auto simp: cnt_def holds_def filter_empty_conv)
    with inv(2) [of t] show ?thesis
      by (auto simp: active_count_for_tenant_def split: option.splits dest: map_of_SomeD intro: rev_image_eqI)
  qed
  then have "active_count l = cnt (\<lambda>pc. \<exists>t. pc = Holding t) ts"
    using sum_list_table [of "per_tenant l"] limiter_table_reachable [OF assms] inv(2)
      cnt_holding_sum [of "set (map fst (per_tenant l))" ts]
    by (simp add: active_count_def active_count_for_tenant_def)
  moreover have "cnt (\<lambda>pc. \<exists>t. pc = Holding t) ts \<le> cnt has_global ts" by (rule cnt_mono) auto
  ultimately show ?thesis using inv by simp
qed

theorem limiter_safe_witness:
  "limiter_reachable 2 1 (run_schedule [0, 1, 0, 0, 1, 1, 0]
       (ConcurrencyLimiter_new 2 1, [AcquireGlobal ''t'', AcquireGlobal ''t'']))
    \<and> run_schedule [0, 1, 0, 0, 1, 1, 0]
       (ConcurrencyLimiter_new 2 1, [AcquireGlobal ''t'', AcquireGlobal ''t''])
      = (\<lparr>global_avail = 0, per_tenant = [(''t'', 1)], per_tenant_limit = 1\<rparr>,
         [Holding ''t'', CompareExchange ''t'' 0])
    \<and> active_count \<lparr>global_avail = 0, per_tenant = [(''t'', 1)], per_tenant_limit = 1\<rparr> \<le> 2"
proof -
  have e: "run_schedule [0, 1, 0, 0, 1, 1, 0]
       (ConcurrencyLimiter_new 2 1, [AcquireGlobal ''t'', AcquireGlobal ''t''])
      = (\<lparr>global_avail = 0, per_tenant = [(''t'', 1)], per_tenant_limit = 1\<rparr>,
         [Holding ''t'', CompareExchange ''t'' 0])"
    by (simp add: ConcurrencyLimiter_new_def tenant_entry_def active_count_for_tenant_def)
  have "limiter_reachable 2 1 (ConcurrencyLimiter_new 2 1, [AcquireGlobal ''t'', AcquireGlobal ''t''])"
    using reachable_step [OF reachable_step [OF reachable_init limiter_step.call] limiter_step.call,
        of 2 1 "''t''" "''t''"] by simp
  from run_schedule_reachable [OF this, of "[0, 1, 0, 0, 1, 1, 0]"] show ?thesis
    using limiter_safe unfolding e by blast
qed

text \<open>
  Run without interference, the atomic steps of the code compute \<open>try_acquire\<close> and
  \<open>permit_drop\<close>: it acquires a slot exactly when one is free globally and the tenant is below
  its limit, a refusal takes no slot and changes no count, and dropping the permit at once gives
  back every count.
\<close>

theorem try_acquire_refines:
  "((case_prod thread_step) ^^ 4) (l, AcquireGlobal t) =
     (snd (try_acquire l t), case fst (try_acquire l t) of Inl e \<Rightarrow> Denied e | Inr p \<Rightarrow> Holding (permit_tenant p))
   \<and> ((case_prod thread_step) ^^ 2) (l, Holding t) = (permit_drop \<lparr>permit_tenant = t\<rparr> l, Dropped)
   \<and> (is_ok (fst (try_acquire l t)) \<longleftrightarrow> 0 < global_avail l \<and> active_count_for_tenant l t < per_tenant_limit l)
   \<and> (let l' = (case try_acquire l t of (Inl _, l1) \<Rightarrow> l1 | (Inr p, l1) \<Rightarrow> permit_drop p l1)
      in global_avail l' = global_avail l \<and> active_count_for_tenant l' = active_count_for_tenant l)"
proof -
  have "((case_prod thread_step) ^^ 4) (l, AcquireGlobal t) =
     (snd (try_acquire l t), case fst (try_acquire l t) of Inl e \<Rightarrow> Denied e | Inr p \<Rightarrow> Holding (permit_tenant p))"
    by (simp add: numeral_eq_Suc try_acquire_def Let_def)
  moreover have "((case_prod thread_step) ^^ 2) (l, Holding t) = (permit_drop \<lparr>permit_tenant = t\<rparr> l, Dropped)"
    by (simp add: numeral_eq_Suc permit_drop_def Let_def)
  moreover have "let l' = (case try_acquire l t of (Inl _, l1) \<Rightarrow> l1 | (Inr p, l1) \<Rightarrow> permit_drop p l1)
      in global_avail l' = global_avail l \<and> active_count_for_tenant l' = active_count_for_tenant l"
  proof (cases "try_acquire l t")
    case (Pair r l')
    show ?thesis
    proof (cases r)
      case (Inl e)
      then show ?thesis using try_acquire_err Pair by simp
    next
      case (Inr p)
      then show ?thesis using try_acquire_ok [of l t p l'] Pair by (auto simp: permit_drop_def Let_def fun_eq_iff)
    qed
  qed
  ultimately show ?thesis using lim.acquire_ok_iff by blast
qed

end
