(* ===== verification/Scheduler.thy ===== *)
theory Scheduler
  imports Priority_Queue Concurrency
begin

text \<open>
  The scheduler (\<open>muli-queue/src/scheduler.rs\<close>). \<open>dispatch_with\<close> is the inner \<open>while let\<close> loop over
  the operations of the queue and of the limiter it is given; its lemmas hold for every queue and
  limiter that keep the contracts \<open>job_queue\<close> and \<open>slot_limiter\<close>, and \<open>Scheduler_dispatch\<close> is the
  loop on the actual ones. \<open>sched_step\<close> is the whole \<open>run\<close> loop at the grain of its calls to the
  queue and the limiter, interleaved with the rest of the server: jobs being enqueued and
  cancelled, and running jobs finishing.
\<close>

fun dispatch_with :: "('q \<Rightarrow> ScoredJob option \<times> 'q) \<Rightarrow> (ScoredJob \<Rightarrow> 'q \<Rightarrow> 'q) \<Rightarrow> ('l \<Rightarrow> string \<Rightarrow> 'p result \<times> 'l)
    \<Rightarrow> nat \<Rightarrow> 'q \<Rightarrow> 'l \<Rightarrow> (ScoredJob list \<times> bool \<times> 'q \<times> 'l) option" where
  "dispatch_with pp rq acq 0 q l = None"
| "dispatch_with pp rq acq (Suc n) q l =
     (case pp q of (None, q') \<Rightarrow> Some ([], False, q', l)
      | (Some job, q') \<Rightarrow>
          (case acq l (sj_tenant_id job) of
             (Inr permit, l') \<Rightarrow>
               map_option (\<lambda>(spawned, blocked, r). (job # spawned, blocked, r)) (dispatch_with pp rq acq n q' l')
           | (Inl _, l') \<Rightarrow> Some ([], True, rq job q', l')))"

definition Scheduler_dispatch :: "nat \<Rightarrow> PriorityQueue \<Rightarrow> ConcurrencyLimiter
    \<Rightarrow> (ScoredJob list \<times> bool \<times> PriorityQueue \<times> ConcurrencyLimiter) option" where
  "Scheduler_dispatch = dispatch_with pop requeue try_acquire"

definition enqueue :: "datetime \<Rightarrow> datetime \<Rightarrow> string \<Rightarrow> PriorityTier \<Rightarrow> string \<Rightarrow> PriorityQueue \<Rightarrow> PriorityQueue" where
  "enqueue now score_now jid tier tenant q = push (ScoredJob_new score_now jid tier now tenant) tier q"

definition scheduler_cancel :: "string \<Rightarrow> PriorityQueue \<Rightarrow> PriorityQueue" where
  "scheduler_cancel jid q = remove jid q"

section \<open>The run loop\<close>

datatype sched_pc = Top | Dispatching | Popped ScoredJob | Backoff | Idle | Stopped

record Scheduler =
  queue :: PriorityQueue
  limiter :: ConcurrencyLimiter
  pc :: sched_pc
  spawned :: "(string \<times> string) list"
  running :: "ConcurrencyPermit list"
  enqueued_ids :: "string list"
  cancelled_ids :: "string list"

text \<open>
  The last four fields record the history: the callbacks spawned, the permits held by running
  ones, and the ids ever enqueued and cancelled. A job id is enqueued once (it is a fresh UUID).
\<close>

inductive sched_step :: "Scheduler \<Rightarrow> Scheduler \<Rightarrow> bool" where
  stop: "pc s \<in> {Top, Backoff, Idle} \<Longrightarrow> sched_step s (s\<lparr>pc := Stopped\<rparr>)"
| start: "pc s = Top \<Longrightarrow> sched_step s (s\<lparr>pc := Dispatching\<rparr>)"
| pop_some: "pc s = Dispatching \<Longrightarrow> pop (queue s) = (Some job, q) \<Longrightarrow>
    sched_step s (s\<lparr>queue := q, pc := Popped job\<rparr>)"
| pop_none: "pc s = Dispatching \<Longrightarrow> pop (queue s) = (None, q) \<Longrightarrow> sched_step s (s\<lparr>queue := q, pc := Idle\<rparr>)"
| acquired: "pc s = Popped job \<Longrightarrow> try_acquire (limiter s) (sj_tenant_id job) = (Inr permit, l) \<Longrightarrow>
    sched_step s (s\<lparr>limiter := l, pc := Dispatching,
      spawned := spawned s @ [(sj_job_id job, sj_tenant_id job)], running := permit # running s\<rparr>)"
| blocked: "pc s = Popped job \<Longrightarrow> try_acquire (limiter s) (sj_tenant_id job) = (Inl e, l) \<Longrightarrow>
    sched_step s (s\<lparr>limiter := l, queue := requeue job (queue s), pc := Backoff\<rparr>)"
| backoff_over: "pc s = Backoff \<Longrightarrow> sched_step s (s\<lparr>pc := Top\<rparr>)"
| notified: "pc s = Idle \<Longrightarrow> notify_permit (queue s) \<Longrightarrow>
    sched_step s (s\<lparr>queue := (queue s)\<lparr>notify_permit := False\<rparr>, pc := Top\<rparr>)"
| poll_timeout: "pc s = Idle \<Longrightarrow> sched_step s (s\<lparr>queue := refresh_scores clock (queue s), pc := Top\<rparr>)"
| env_enqueue: "jid \<notin> set (enqueued_ids s) \<Longrightarrow>
    sched_step s (s\<lparr>queue := enqueue now score_now jid tier tenant (queue s),
      enqueued_ids := jid # enqueued_ids s\<rparr>)"
| env_cancel: "sched_step s (s\<lparr>queue := scheduler_cancel jid (queue s), cancelled_ids := jid # cancelled_ids s\<rparr>)"
| env_finish: "permit \<in> set (running s) \<Longrightarrow>
    sched_step s (s\<lparr>limiter := permit_drop permit (limiter s), running := remove1 permit (running s)\<rparr>)"

definition Scheduler_init :: "nat \<Rightarrow> nat \<Rightarrow> Scheduler" where
  "Scheduler_init n k = \<lparr>queue = PriorityQueue_new, limiter = ConcurrencyLimiter_new n k, pc = Top,
     spawned = [], running = [], enqueued_ids = [], cancelled_ids = []\<rparr>"

definition sched_reachable :: "nat \<Rightarrow> nat \<Rightarrow> Scheduler \<Rightarrow> bool" where
  "sched_reachable n k s = sched_step\<^sup>*\<^sup>* (Scheduler_init n k) s"

fun in_hand :: "sched_pc \<Rightarrow> string list" where
  "in_hand (Popped job) = [sj_job_id job]"
| "in_hand _ = []"

section \<open>The dispatch loop, for any queue and limiter\<close>

locale dispatch_loop = job_queue q_inv q_live q_pop q_requeue + slot_limiter l_inv acquire free_slots tenant_limit active
  for q_inv :: "'q \<Rightarrow> bool" and q_live :: "'q \<Rightarrow> ScoredJob list"
    and q_pop :: "'q \<Rightarrow> ScoredJob option \<times> 'q" and q_requeue :: "ScoredJob \<Rightarrow> 'q \<Rightarrow> 'q"
    and l_inv :: "'l \<Rightarrow> bool" and acquire :: "'l \<Rightarrow> string \<Rightarrow> 'p result \<times> 'l"
    and free_slots :: "'l \<Rightarrow> nat" and tenant_limit :: "'l \<Rightarrow> nat" and active :: "'l \<Rightarrow> string \<Rightarrow> nat"
begin

lemma dispatch_total:
  "q_inv q \<Longrightarrow> length (q_live q) < n \<Longrightarrow> \<exists>r. dispatch_with q_pop q_requeue acquire n q l = Some r"
proof (induction n arbitrary: q l)
  case (Suc n)
  obtain o' q' where p: "q_pop q = (o', q')" by (cases "q_pop q")
  show ?case
  proof (cases o')
    case (Some job)
    then have "q_inv q'" "length (q_live q') < n"
      using p Suc.prems pop_Some [of q job q'] pop_live_length [of q job q'] by auto
    then have "dispatch_with q_pop q_requeue acquire n q' l' \<noteq> None" for l'
      using Suc.IH [of q' l'] by auto
    then show ?thesis using p Some by (auto split: prod.splits sum.splits) metis
  qed (auto simp: p)
qed simp

lemma dispatch_spec:
  "q_inv q \<Longrightarrow> l_inv l \<Longrightarrow> dispatch_with q_pop q_requeue acquire n q l = Some (sp, b, q', l') \<Longrightarrow>
     q_inv q' \<and> l_inv l' \<and> mset (q_live q) = mset sp + mset (q_live q')
     \<and> sorted_wrt (\<lambda>x y. sj_key y \<le> sj_key x) sp
     \<and> (\<forall>x \<in> set sp. \<forall>y \<in> set (q_live q'). sj_key y \<le> sj_key x)
     \<and> free_slots l = free_slots l' + length sp \<and> tenant_limit l' = tenant_limit l
     \<and> (\<forall>t. active l' t = active l t + cnt (\<lambda>j. sj_tenant_id j = t) sp)
     \<and> (\<forall>j \<in> set sp. active l' (sj_tenant_id j) \<le> tenant_limit l)
     \<and> (\<not> b \<longrightarrow> q_live q' = [])
     \<and> (b \<longrightarrow> (\<exists>j \<in> set (q_live q'). (\<forall>x \<in> set (q_live q'). sj_key x \<le> sj_key j)
           \<and> (free_slots l' = 0 \<or> tenant_limit l' \<le> active l' (sj_tenant_id j))))"
proof (induction n arbitrary: q l sp)
  case (Suc n)
  obtain o1 q1 where p: "q_pop q = (o1, q1)" by (cases "q_pop q")
  show ?case
  proof (cases o1)
    case None
    then show ?thesis using Suc.prems p pop_None [of q q1] by auto
  next
    case (Some job)
    note job = pop_Some [OF Suc.prems(1), of job q1] pop_max [OF Suc.prems(1), of job q1]
      requeue_popped [OF Suc.prems(1), of job q1] pop_mem [OF Suc.prems(1), of job q1]
    obtain r l1 where a: "acquire l (sj_tenant_id job) = (r, l1)" by (cases "acquire l (sj_tenant_id job)")
    show ?thesis
    proof (cases r)
      case (Inl e)
      then have res: "sp = []" "b = True" "q' = q_requeue job q1" "l' = l1" using Suc.prems(3) p Some a by simp_all
      have same: "set (q_live (q_requeue job q1)) = set (q_live q)"
        using job(3) p Some by (metis set_mset_mset)
      show ?thesis
        using acquire_err [OF Suc.prems(2), of "sj_tenant_id job" e l1] a Inl job p Some same
        unfolding res by auto
    next
      case (Inr permit)
      then obtain sp1 where rec: "dispatch_with q_pop q_requeue acquire n q1 l1 = Some (sp1, b, q', l')"
          and sp: "sp = job # sp1"
        using Suc.prems(3) p Some a by auto
      have ok: "l_inv l1" "free_slots l = Suc (free_slots l1)" "tenant_limit l1 = tenant_limit l"
          "active l (sj_tenant_id job) < tenant_limit l"
          "active l1 = (active l)(sj_tenant_id job := Suc (active l (sj_tenant_id job)))"
        using acquire_ok [OF Suc.prems(2), of "sj_tenant_id job" permit l1] a Inr by auto
      have q1: "q_inv q1" "mset (q_live q) = add_mset job (mset (q_live q1))"
        using job(1) p Some by auto
      note IH = Suc.IH [OF q1(1) ok(1) rec]
      have sub: "set sp1 \<union> set (q_live q') = set (q_live q1)"
        using IH by (metis set_mset_mset set_mset_union)
      have below: "x \<in> set (q_live q1) \<Longrightarrow> sj_key x \<le> sj_key job" for x
        using job(2) p Some pop_live_subset [OF Suc.prems(1), of job q1] by auto
      have lim: "active l' (sj_tenant_id job) \<le> tenant_limit l"
        if "\<not> (\<exists>j \<in> set sp1. sj_tenant_id j = sj_tenant_id job)"
        using that IH ok(4,5) by (simp add: cnt_def filter_False)
      have "(\<forall>j \<in> set sp. active l' (sj_tenant_id j) \<le> tenant_limit l)"
        using IH ok(3) lim unfolding sp by fastforce
      then show ?thesis using IH q1 ok sub below unfolding sp by auto
    qed
  qed
qed simp

end

interpretation sch: dispatch_loop queue_inv live pop requeue "\<lambda>_. True" try_acquire global_avail
    per_tenant_limit active_count_for_tenant
  by unfold_locales

section \<open>Invariant of the run loop\<close>

lemma pop_frame:
  "pop q = (r, q') \<Longrightarrow> set (ids (heap q')) \<subseteq> set (ids (heap q))
     \<and> set (ids (heap q)) \<subseteq> set (ids (heap q')) \<union> (case r of None \<Rightarrow> {} | Some j \<Rightarrow> {sj_job_id j}) \<union> set (removed q)
     \<and> set (removed q') \<subseteq> set (removed q) \<and> notify_permit q' = notify_permit q
     \<and> (\<forall>j. r = Some j \<longrightarrow> sj_job_id j \<in> set (ids (heap q)))"
proof (induction q rule: pop.induct)
  case (1 q)
  show ?case
  proof (cases "heap_pop (heap q)")
    case None
    then show ?thesis using "1.prems" by (subst (asm) pop.simps) auto
  next
    case (Some p)
    obtain j h where p: "heap_pop (heap q) = Some (j, h)" using Some by (cases p) simp
    have h: "set (ids (heap q)) = insert (sj_job_id j) (set (ids h))"
      using arg_cong [OF heap_pop_mset [OF p], of set_mset] by simp
    show ?thesis
    proof (cases "sj_job_id j \<in> set (removed q)")
      case True
      let ?q = "q\<lparr>heap := h, removed := removeAll (sj_job_id j) (removed q)\<rparr>"
      have "pop ?q = (r, q')" using "1.prems" p True by (subst (asm) pop.simps) simp
      from "1.IH" [OF p refl True this] show ?thesis using h True by auto
    next
      case False
      then have "r = Some j" "q' = q\<lparr>heap := h\<rparr>" using "1.prems" p by (subst (asm) pop.simps; simp)+
      then show ?thesis using h by auto
    qed
  qed
qed

text \<open>
  Where the jobs are: in the heap, in the scheduler's hand or spawned, at most once; only enqueued
  ones; an enqueued job that is nowhere was cancelled, and so was every tombstoned one.
\<close>

definition job_places :: "string list \<Rightarrow> string list \<Rightarrow> string list \<Rightarrow> string set \<Rightarrow> string set \<Rightarrow> string set \<Rightarrow> bool" where
  "job_places hs is sp E C R \<longleftrightarrow>
     distinct (hs @ is @ sp) \<and> set (hs @ is @ sp) \<subseteq> E \<and> E \<subseteq> set (hs @ is @ sp) \<union> C \<and> R \<subseteq> C"

lemma places_pop:
  assumes "job_places hs [] sp E C R" and "distinct hs'" "i \<notin> set hs'" "set hs' \<subseteq> set hs" "i \<in> set hs"
    and "set hs \<subseteq> set hs' \<union> {i} \<union> R" "R' \<subseteq> R"
  shows "job_places hs' [i] sp E C R'"
  using assms unfolding job_places_def by simp blast

lemma places_drop:
  assumes "job_places hs is sp E C R" and "distinct hs'" "set hs' \<subseteq> set hs" "set hs \<subseteq> set hs' \<union> R" "R' \<subseteq> R"
  shows "job_places hs' is sp E C R'"
  using assms unfolding job_places_def by simp blast

definition sched_inv :: "nat \<Rightarrow> nat \<Rightarrow> Scheduler \<Rightarrow> bool" where
  "sched_inv n k s \<longleftrightarrow>
     queue_inv (queue s)
     \<and> job_places (ids (heap (queue s))) (in_hand (pc s)) (map fst (spawned s)) (set (enqueued_ids s))
          (set (cancelled_ids s)) (set (removed (queue s)))
     \<and> (pc s = Idle \<and> live (queue s) \<noteq> [] \<longrightarrow> notify_permit (queue s))
     \<and> per_tenant_limit (limiter s) = k
     \<and> global_avail (limiter s) + length (running s) = n
     \<and> (\<forall>t. active_count_for_tenant (limiter s) t = cnt (\<lambda>p. permit_tenant p = t) (running s)
          \<and> cnt (\<lambda>p. permit_tenant p = t) (running s) \<le> k)"

lemma live_Nil_ids: "live q = [] \<longleftrightarrow> set (ids (heap q)) \<subseteq> set (removed q)"
  by (auto simp: live_def filter_empty_conv)

lemma cnt_remove1: "p \<in> set ps \<Longrightarrow> cnt P ps = cnt P (remove1 p ps) + of_bool (P p)"
  by (induction ps) auto

lemma sched_inv_pop_some:
  assumes "sched_inv n k s" and "pc s = Dispatching" and "pop (queue s) = (Some job, q)"
  shows "sched_inv n k (s\<lparr>queue := q, pc := Popped job\<rparr>)"
proof -
  have inv: "queue_inv (queue s)" using assms(1) by (simp add: sched_inv_def)
  have q: "queue_inv q" "sj_job_id job \<notin> set (ids (heap q))"
    using pop_cases [OF inv] assms(3) by simp_all
  have "job_places (ids (heap (queue s))) [] (map fst (spawned s)) (set (enqueued_ids s))
      (set (cancelled_ids s)) (set (removed (queue s)))"
    using assms(1,2) by (simp add: sched_inv_def)
  then have "job_places (ids (heap q)) [sj_job_id job] (map fst (spawned s)) (set (enqueued_ids s))
      (set (cancelled_ids s)) (set (removed q))"
    using q pop_frame [OF assms(3)] unfolding queue_inv_def by (elim places_pop) simp_all
  with q assms(1) show ?thesis by (simp add: sched_inv_def)
qed

lemma sched_inv_pop_none:
  assumes "sched_inv n k s" and "pc s = Dispatching" and "pop (queue s) = (None, q)"
  shows "sched_inv n k (s\<lparr>queue := q, pc := Idle\<rparr>)"
proof -
  have inv: "queue_inv (queue s)" using assms(1) by (simp add: sched_inv_def)
  have q: "queue_inv q" "live q = []" using pop_cases [OF inv] assms(3) by simp_all
  have "job_places (ids (heap (queue s))) [] (map fst (spawned s)) (set (enqueued_ids s))
      (set (cancelled_ids s)) (set (removed (queue s)))"
    using assms(1,2) by (simp add: sched_inv_def)
  then have "job_places (ids (heap q)) [] (map fst (spawned s)) (set (enqueued_ids s))
      (set (cancelled_ids s)) (set (removed q))"
    using q pop_frame [OF assms(3)] unfolding queue_inv_def by (elim places_drop) simp_all
  with q assms(1) show ?thesis by (simp add: sched_inv_def)
qed

lemma refresh_frame:
  "ids (heap (refresh_scores clock q)) = ids (live q)" "removed (refresh_scores clock q) = []"
  "notify_permit (refresh_scores clock q) = notify_permit q"
  by (auto simp: refresh_scores_def Let_def live_def refresh_score_def split: option.splits)

lemma sched_inv_refresh:
  assumes "sched_inv n k s" and "pc s = Idle"
  shows "sched_inv n k (s\<lparr>queue := refresh_scores clock (queue s), pc := Top\<rparr>)"
proof -
  have q: "queue_inv (refresh_scores clock (queue s))" "distinct (ids (live (queue s)))"
    using assms(1) refresh_inv by (auto simp: sched_inv_def queue_inv_def live_def distinct_map_filter)
  have "job_places (ids (heap (queue s))) [] (map fst (spawned s)) (set (enqueued_ids s))
      (set (cancelled_ids s)) (set (removed (queue s)))"
    using assms by (simp add: sched_inv_def)
  then have "job_places (ids (live (queue s))) [] (map fst (spawned s)) (set (enqueued_ids s))
      (set (cancelled_ids s)) {}"
    by (rule places_drop) (use q(2) in \<open>auto simp: live_def\<close>)
  with q(1) assms(1) show ?thesis by (simp add: sched_inv_def refresh_frame)
qed

lemma sched_inv_limiter:
  assumes "sched_inv n k s"
  shows "try_acquire (limiter s) t = (Inr p, l) \<Longrightarrow>
      per_tenant_limit l = k \<and> global_avail l + Suc (length (running s)) = n
      \<and> (\<forall>u. active_count_for_tenant l u = cnt (\<lambda>p. permit_tenant p = u) (p # running s)
           \<and> cnt (\<lambda>p. permit_tenant p = u) (p # running s) \<le> k)"
    and "try_acquire (limiter s) t = (Inl e, l) \<Longrightarrow>
      per_tenant_limit l = k \<and> global_avail l + length (running s) = n
      \<and> active_count_for_tenant l = active_count_for_tenant (limiter s)"
    and "permit \<in> set (running s) \<Longrightarrow> (let l = permit_drop permit (limiter s); r = remove1 permit (running s) in
      per_tenant_limit l = k \<and> global_avail l + length r = n
      \<and> (\<forall>u. active_count_for_tenant l u = cnt (\<lambda>p. permit_tenant p = u) r
           \<and> cnt (\<lambda>p. permit_tenant p = u) r \<le> k))"
proof -
  note inv = assms [unfolded sched_inv_def]
  show "try_acquire (limiter s) t = (Inr p, l) \<Longrightarrow>
      per_tenant_limit l = k \<and> global_avail l + Suc (length (running s)) = n
      \<and> (\<forall>u. active_count_for_tenant l u = cnt (\<lambda>p. permit_tenant p = u) (p # running s)
           \<and> cnt (\<lambda>p. permit_tenant p = u) (p # running s) \<le> k)"
    using inv try_acquire_ok [of "limiter s" t p l] by auto
  show "try_acquire (limiter s) t = (Inl e, l) \<Longrightarrow>
      per_tenant_limit l = k \<and> global_avail l + length (running s) = n
      \<and> active_count_for_tenant l = active_count_for_tenant (limiter s)"
    using inv try_acquire_err [of "limiter s" t e l] by auto
  assume m: "permit \<in> set (running s)"
  have "cnt (\<lambda>p. permit_tenant p = u) (running s)
      = cnt (\<lambda>p. permit_tenant p = u) (remove1 permit (running s)) + of_bool (permit_tenant permit = u)" for u
    by (rule cnt_remove1 [OF m])
  moreover have "length (running s) = Suc (length (remove1 permit (running s)))"
    using length_pos_if_in_set [OF m] m by (simp add: length_remove1)
  ultimately show "let l = permit_drop permit (limiter s); r = remove1 permit (running s) in
      per_tenant_limit l = k \<and> global_avail l + length r = n
      \<and> (\<forall>u. active_count_for_tenant l u = cnt (\<lambda>p. permit_tenant p = u) r
           \<and> cnt (\<lambda>p. permit_tenant p = u) r \<le> k)"
    using inv by (auto simp: permit_drop_def Let_def intro: add_leD1)
qed

lemma sched_inv_step: "sched_step s s' \<Longrightarrow> sched_inv n k s \<Longrightarrow> sched_inv n k s'"
proof (induction rule: sched_step.induct)
  case (acquired s job permit l)
  then show ?case using sched_inv_limiter(1) [OF acquired.prems acquired(2)] by (auto simp: sched_inv_def job_places_def)
next
  case (blocked s job e l)
  then show ?case
    using sched_inv_limiter(2) [OF blocked.prems blocked(2)]
      requeue_inv [of "queue s" job] by (auto simp: sched_inv_def requeue_def job_places_def)
next
  case (env_enqueue jid s now score_now tier tenant)
  let ?j = "ScoredJob_new score_now jid tier now tenant"
  have j: "sj_job_id ?j = jid" by (simp add: ScoredJob_new_def)
  have "jid \<notin> set (ids (heap (queue s)))" using env_enqueue by (auto simp: sched_inv_def job_places_def)
  then have "queue_inv (enqueue now score_now jid tier tenant (queue s))"
    using env_enqueue push_inv [of "queue s" ?j tier] j by (auto simp: sched_inv_def enqueue_def)
  moreover have "heap (enqueue now score_now jid tier tenant (queue s)) = ?j # heap (queue s)"
      "removed (enqueue now score_now jid tier tenant (queue s)) = removed (queue s)"
      "notify_permit (enqueue now score_now jid tier tenant (queue s))"
    by (simp_all add: enqueue_def push_def)
  ultimately show ?case
    using env_enqueue j by (auto simp: sched_inv_def job_places_def)
next
  case (env_cancel s jid)
  then show ?case
    using remove_inv [of "queue s" jid] by (auto simp: sched_inv_def scheduler_cancel_def remove_def live_Nil_ids job_places_def)
next
  case (env_finish permit s)
  then show ?case
    using sched_inv_limiter(3) [OF env_finish.prems env_finish(1)] by (auto simp: sched_inv_def Let_def)
next
  case (notified s)
  then show ?case by (auto simp: sched_inv_def queue_inv_def)
qed (auto simp: sched_inv_pop_some sched_inv_pop_none sched_inv_refresh, auto simp: sched_inv_def)

lemma sched_inv_reachable: "sched_reachable n k s \<Longrightarrow> sched_inv n k s"
  unfolding sched_reachable_def
proof (induction rule: rtranclp_induct)
  case base
  show ?case
    by (simp add: sched_inv_def Scheduler_init_def PriorityQueue_new_def ConcurrencyLimiter_new_def
        queue_inv_def active_count_for_tenant_def job_places_def)
next
  case (step s s')
  then show ?case using sched_inv_step by blast
qed

section \<open>Properties\<close>

text \<open>
  C22. A dispatch round ends (fuel above the number of queued jobs is enough) and does its job: the
  jobs are spawned in descending priority and each before everything left in the queue, none is
  lost or spawned twice, every spawned job takes one global slot and one of its tenant's slots
  within the limits, and the round stops only when the queue is empty or the best remaining job
  cannot get a slot.
\<close>

theorem dispatch_round:
  assumes "queue_inv q" and "length (live q) < fuel"
  shows "\<exists>sp b q' l'. Scheduler_dispatch fuel q l = Some (sp, b, q', l') \<and> queue_inv q'
    \<and> mset (live q) = mset sp + mset (live q')
    \<and> sorted_wrt (\<lambda>x y. sj_key y \<le> sj_key x) sp
    \<and> (\<forall>x \<in> set sp. \<forall>y \<in> set (live q'). sj_key y \<le> sj_key x)
    \<and> global_avail l = global_avail l' + length sp
    \<and> (\<forall>t. active_count_for_tenant l' t = active_count_for_tenant l t + cnt (\<lambda>j. sj_tenant_id j = t) sp)
    \<and> (\<forall>j \<in> set sp. active_count_for_tenant l' (sj_tenant_id j) \<le> per_tenant_limit l)
    \<and> (if b then \<exists>j \<in> set (live q'). (\<forall>x \<in> set (live q'). sj_key x \<le> sj_key j)
           \<and> (global_avail l' = 0 \<or> per_tenant_limit l' \<le> active_count_for_tenant l' (sj_tenant_id j))
       else live q' = [])"
proof -
  obtain sp b q' l' where e: "dispatch_with pop requeue try_acquire fuel q l = Some (sp, b, q', l')"
    using sch.dispatch_total [OF assms, of l] by (metis prod_cases4)
  show ?thesis
    using sch.dispatch_spec [OF assms(1) TrueI e] e unfolding Scheduler_dispatch_def if_bool_eq_conj
    by (intro exI [of _ sp] exI [of _ b] exI [of _ q'] exI [of _ l']) blast
qed

theorem dispatch_round_witness:
  "queue_inv sample_queue \<and> length (live sample_queue) < 3
    \<and> (\<exists>sp b q' l'. Scheduler_dispatch 3 sample_queue (ConcurrencyLimiter_new 5 1) = Some (sp, b, q', l')
        \<and> mset (live sample_queue) = mset sp + mset (live q') \<and> global_avail (ConcurrencyLimiter_new 5 1) = global_avail l' + length sp)"
proof -
  have l: "length (live sample_queue) < 3" by (simp add: sample_queue_def sample_job_def live_def)
  from dispatch_round [OF sample_queue_inv l, of "ConcurrencyLimiter_new 5 1"] show ?thesis
    using l sample_queue_inv by blast
qed





text \<open>
  One tenant at its limit blocks the others: with the best queued job of a tenant that has no slot
  left, a round spawns nothing, whatever slots the tenants of the other queued jobs have.
\<close>

theorem head_of_line_blocking:
  assumes "queue_inv q" and "pop q = (Some j, q')"
    and "per_tenant_limit l \<le> active_count_for_tenant l (sj_tenant_id j)"
  shows "\<exists>l'. Scheduler_dispatch (Suc n) q l = Some ([], True, requeue j q', l')"
proof (cases "try_acquire l (sj_tenant_id j)")
  case (Pair r l')
  then have "\<not> is_ok r" using lim.acquire_ok_iff [of l "sj_tenant_id j"] assms(3) by simp
  then show ?thesis using Pair assms(2) by (cases r) (simp_all add: Scheduler_dispatch_def)
qed

end
