(* ===== verification/Pipeline_Schema.thy ===== *)
theory Pipeline_Schema
  imports Muli_Error
begin

text \<open>
  The types of the pipeline YAML format and their methods (\<open>muli-pipeline/src/yaml/schema.rs\<close>).
  A \<open>HashMap\<close> is a table in its iteration order. The \<open>webhook\<close> field holds JSON values that the
  engine only passes on; they are kept as their text.
\<close>

record CheckoutConfig =
  submodules :: bool

record PushTrigger =
  push_branches :: "string list"
  push_paths :: "string list"
  push_tags :: "string list"

record PrTrigger =
  pr_branches :: "string list"
  pr_events :: "string list"

record ScheduleTrigger =
  cron :: string

record TriggerDef =
  trig_push :: "PushTrigger option"
  trig_pull_request :: "PrTrigger option"
  trig_manual :: bool
  trig_schedule :: "ScheduleTrigger list"

record ServiceDef =
  svc_image :: string
  svc_env :: "string table"

record CacheDef =
  cache_key :: string
  restore_keys :: "string list"
  cache_paths :: "string list"

record ArtifactUploadDef =
  upload_name :: "string option"
  upload_paths :: "string list"

record ArtifactsDef =
  upload :: "ArtifactUploadDef option"
  art_paths :: "string list"
  download :: "string list"
  expire_in :: "string option"

record ResourceDef =
  rd_cpu :: "string option"
  rd_memory :: "string option"

datatype RegistryAccess = Read | Write

datatype NotesDef = Changelog string | GitLog | Inline string

record ReleaseDef =
  rel_tag :: "string option"
  rel_name :: "string option"
  rel_notes :: "NotesDef option"
  rel_draft :: "bool option"
  rel_prerelease :: "bool option"
  rel_create_tag :: "bool option"
  rel_assets :: "string list"

record JobStepDef =
  js_name :: string
  js_commands :: "string list"

record JobDef =
  jd_image :: "string option"
  jd_needs :: "string list"
  jd_commands :: "string list"
  jd_steps :: "JobStepDef list"
  jd_env :: "string table"
  jd_paths :: "string list"
  jd_cache :: "CacheDef option"
  jd_artifacts :: "ArtifactsDef option"
  jd_resources :: "ResourceDef option"
  jd_matrix :: "string list table option"
  jd_condition :: "string option"
  jd_failure_strategy :: "string option"
  jd_timeout :: "nat option"
  jd_release :: "ReleaseDef option"
  jd_registry :: "RegistryAccess option"

record StepDef =
  sd_name :: string
  sd_image :: string
  sd_commands :: "string list"
  sd_needs :: "string list"
  sd_env :: "string table"
  sd_cache :: "CacheDef option"
  sd_artifacts :: "ArtifactsDef option"
  sd_resources :: "ResourceDef option"
  sd_matrix :: "string list table option"
  sd_condition :: "string option"
  sd_failure_strategy :: "string option"
  sd_timeout :: "nat option"

record PipelineDef =
  pd_name :: string
  pd_image :: "string option"
  pd_checkout :: CheckoutConfig
  pd_on :: TriggerDef
  pd_env :: "string table"
  pd_services :: "ServiceDef table"
  pd_secrets :: "string list"
  pd_jobs :: "JobDef table"
  pd_steps :: "StepDef list"
  pd_webhook :: "string table"

section \<open>Methods of JobDef\<close>

definition effective_image :: "JobDef \<Rightarrow> string option \<Rightarrow> string option" where
  "effective_image job pipeline_image = (case jd_image job of Some i \<Rightarrow> Some i | None \<Rightarrow> pipeline_image)"

definition artifact_upload_paths :: "JobDef \<Rightarrow> string list" where
  "artifact_upload_paths job = (case jd_artifacts job of None \<Rightarrow> []
     | Some a \<Rightarrow> if art_paths a \<noteq> [] then art_paths a
         else (case upload a of Some u \<Rightarrow> upload_paths u | None \<Rightarrow> []))"

definition quote_char :: char where
  "quote_char = CHR 0x27"

definition shell_single_quote :: "string \<Rightarrow> string" where
  "shell_single_quote v =
     [quote_char] @ replace_char quote_char ([quote_char] @ ''\"'' @ [quote_char] @ ''\"'' @ [quote_char]) v @ [quote_char]"

text \<open>The header command prints \<open>==> name\<close>: the word is quoted for the shell.\<close>

definition step_header :: "string \<Rightarrow> string" where
  "step_header name = ''printf '' @ [quote_char] @ ''%s'' @ [CHR 0x5C] @ ''n'' @ [quote_char] @ '' ''
     @ shell_single_quote (''==> '' @ name)"

definition execution_commands :: "JobDef \<Rightarrow> string list" where
  "execution_commands job =
     foldl (\<lambda>commands step. commands @ [step_header (js_name step)] @ js_commands step) (jd_commands job) (jd_steps job)"

definition execution_substeps :: "JobDef \<Rightarrow> JobStepDef list" where
  "execution_substeps job =
     (if jd_steps job = [] then [\<lparr>js_name = ''Commands'', js_commands = jd_commands job\<rparr>]
      else
        (if jd_commands job \<noteq> [] then [\<lparr>js_name = ''Preparation'', js_commands = jd_commands job\<rparr>] else [])
        @ jd_steps job)"

datatype NeedsHelper = Single string | Multiple "string list"

definition deserialize_needs :: "NeedsHelper option \<Rightarrow> string list" where
  "deserialize_needs helper = (case helper of None \<Rightarrow> [] | Some (Single s) \<Rightarrow> [s] | Some (Multiple v) \<Rightarrow> v)"

section \<open>The shell's reading of a quoted word\<close>

text \<open>
  POSIX word quoting, as far as \<open>shell_single_quote\<close> produces it: text in single quotes is literal up
  to the next single quote; text in double quotes is literal up to the next double quote when it
  contains none of the characters that stay special there. \<open>shell_word\<close> reads one word made of
  quoted parts to the end of the input.
\<close>

datatype shell_mode = Unquoted | InSingle | InDouble

fun shell_read :: "shell_mode \<Rightarrow> string \<Rightarrow> string option" where
  "shell_read Unquoted [] = Some []"
| "shell_read InSingle [] = None"
| "shell_read InDouble [] = None"
| "shell_read Unquoted (c # s) =
     (if c = quote_char then shell_read InSingle s
      else if c = CHR 0x22 then shell_read InDouble s else None)"
| "shell_read InSingle (c # s) = (if c = quote_char then shell_read Unquoted s else map_option ((#) c) (shell_read InSingle s))"
| "shell_read InDouble (c # s) =
     (if c = CHR 0x22 then shell_read Unquoted s
      else if c \<in> {CHR 0x24, CHR 0x60, CHR 0x5C} then None
      else map_option ((#) c) (shell_read InDouble s))"

lemma shell_read_body:
  "shell_read InSingle
     (replace_char quote_char ([quote_char] @ ''\"'' @ [quote_char] @ ''\"'' @ [quote_char]) v @ [quote_char]) = Some v"
proof (induction v)
  case Nil
  show ?case by (simp add: replace_char_def)
next
  case (Cons c v)
  then show ?case
    by (cases "c = quote_char") (simp_all add: replace_char_def quote_char_def)
qed

lemma shell_read_quoted: "shell_read Unquoted (shell_single_quote v) = Some v"
  using shell_read_body [of v] by (simp add: shell_single_quote_def)

section \<open>Lemmas\<close>

lemma execution_commands_eq:
  "execution_commands job = jd_commands job @ concat (map (\<lambda>s. step_header (js_name s) # js_commands s) (jd_steps job))"
  unfolding execution_commands_def by (simp add: foldl_append_concat [of "\<lambda>s. step_header (js_name s) # js_commands s"])

text \<open>
  C30. The two views of a job run the same commands: the command list is the concatenation of the
  substeps' commands, apart from one header line before each named step; and each header is a
  \<open>printf\<close> of one shell word that the shell reads back as \<open>==> name\<close> for every step name, quotes
  included.
\<close>

theorem execution_views_agree:
  "concat (map js_commands (execution_substeps job))
     = jd_commands job @ concat (map js_commands (jd_steps job))
   \<and> execution_commands job
       = jd_commands job @ concat (map (\<lambda>s. step_header (js_name s) # js_commands s) (jd_steps job))
   \<and> step_header name = ''printf '' @ shell_single_quote (''%s'' @ [CHR 0x5C] @ ''n'') @ '' ''
        @ shell_single_quote (''==> '' @ name)
   \<and> shell_read Unquoted (shell_single_quote (''==> '' @ name)) = Some (''==> '' @ name)"
proof -
  have "shell_single_quote (''%s'' @ [CHR 0x5C] @ ''n'')
      = [quote_char] @ ''%s'' @ [CHR 0x5C] @ ''n'' @ [quote_char]"
    by (simp add: shell_single_quote_def replace_char_def quote_char_def)
  then show ?thesis
    by (simp add: execution_commands_eq shell_read_quoted step_header_def execution_substeps_def)
qed

end
