(* ===== verification/Dag_Graph.thy ===== *)
theory Dag_Graph
  imports Muli_Prelude
begin

text \<open>
  The step graph of a pipeline (\<open>muli-pipeline/src/dag/graph.rs\<close>): \<open>DagGraph\<close> with its topological
  levels and its depth-first cycle check. A \<open>HashSet\<close> is a list without repetitions, in one of its
  iteration orders. \<open>levels_spec\<close> is the reference definition the in-degree bookkeeping of
  \<open>topological_levels\<close> is proved equal to; the cycle check is proved to decide whether the edge
  relation \<open>dep_rel\<close> has a cycle. The recursion of the cycle check takes fuel; \<open>cycle_fuel\<close> is always
  enough (\<open>has_cycle_fuel_enough\<close>).
\<close>

record DagGraph =
  adj :: "string list table"
  names :: "string list"

definition from_steps :: "(string \<times> string list) list \<Rightarrow> DagGraph" where
  "from_steps steps = \<lparr>adj = foldl (\<lambda>m (name, deps). tbl_insert name deps m) [] steps, names = map fst steps\<rparr>"

definition dependencies_of :: "DagGraph \<Rightarrow> string \<Rightarrow> string list" where
  "dependencies_of g s = (case tbl_get (adj g) s of None \<Rightarrow> [] | Some ds \<Rightarrow> ds)"

section \<open>Topological levels\<close>

text \<open>\<open>*in_degree.entry(name).or_insert(0) += k\<close> and \<open>reverse.entry(dep).or_default().push(name)\<close>.\<close>

definition degree_add :: "string \<Rightarrow> nat \<Rightarrow> nat table \<Rightarrow> nat table" where
  "degree_add n k t = (case tbl_get t n of None \<Rightarrow> tbl_insert n k t | Some c \<Rightarrow> tbl_insert n (c + k) t)"

definition push_entry :: "string \<Rightarrow> string \<Rightarrow> string list table \<Rightarrow> string list table" where
  "push_entry d n t = (case tbl_get t d of None \<Rightarrow> tbl_insert d [n] t | Some ns \<Rightarrow> tbl_insert d (ns @ [n]) t)"

definition degree_dec :: "nat table \<Rightarrow> string \<Rightarrow> nat table" where
  "degree_dec t d = (case tbl_get t d of None \<Rightarrow> t | Some c \<Rightarrow> tbl_insert d (c - 1) t)"

definition count_name :: "DagGraph \<Rightarrow> nat table \<times> string list table \<Rightarrow> string \<Rightarrow> nat table \<times> string list table" where
  "count_name g st name =
     (case st of (deg, dependents) \<Rightarrow>
        let deg1 = degree_add name 0 deg
        in case tbl_get (adj g) name of None \<Rightarrow> (deg1, dependents)
           | Some deps \<Rightarrow> (degree_add name (length deps) deg1, foldl (\<lambda>r d. push_entry d name r) dependents deps))"

definition degree_of :: "nat table \<Rightarrow> string \<Rightarrow> nat" where
  "degree_of deg n = (case tbl_get deg n of None \<Rightarrow> 0 | Some c \<Rightarrow> c)"

definition dependents_of :: "string list table \<Rightarrow> string \<Rightarrow> string list" where
  "dependents_of dependents n = (case tbl_get dependents n of None \<Rightarrow> [] | Some ns \<Rightarrow> ns)"

definition take_level :: "string list table \<Rightarrow> string list \<Rightarrow> nat table \<Rightarrow> nat table" where
  "take_level dependents level deg = foldl (\<lambda>deg node. foldl degree_dec deg (dependents_of dependents node)) deg level"

function levels_loop :: "string list table \<Rightarrow> nat table \<Rightarrow> string list \<Rightarrow> string list list" where
  "levels_loop dependents deg remaining =
     (let level = filter (\<lambda>n. degree_of deg n = 0) remaining
      in if level = [] then []
         else level # levels_loop dependents (take_level dependents level deg) (filter (\<lambda>n. n \<notin> set level) remaining))"
  by pat_completeness auto
termination
  by (relation "measure (\<lambda>(_, _, remaining). length remaining)")
    (auto simp: filter_empty_conv intro!: length_filter_less)

declare levels_loop.simps [simp del]

definition topological_levels :: "DagGraph \<Rightarrow> string list list" where
  "topological_levels g =
     (case foldl (count_name g) ([], []) (names g) of (deg, dependents) \<Rightarrow> levels_loop dependents deg (remdups (names g)))"

section \<open>Cycle check\<close>

function cycle_dfs :: "string list table \<Rightarrow> nat \<Rightarrow> string \<Rightarrow> string list \<Rightarrow> string list \<Rightarrow> (bool \<times> string list \<times> string list) option"
  and cycle_deps :: "string list table \<Rightarrow> nat \<Rightarrow> string list \<Rightarrow> string list \<Rightarrow> string list \<Rightarrow> (bool \<times> string list \<times> string list) option" where
  "cycle_dfs m 0 node visited in_stack = None"
| "cycle_dfs m (Suc n) node visited in_stack =
     (let visited' = List.insert node visited; in_stack' = List.insert node in_stack
      in case tbl_get m node of
           None \<Rightarrow> Some (False, visited', removeAll node in_stack')
         | Some deps \<Rightarrow>
             (case cycle_deps m n deps visited' in_stack' of None \<Rightarrow> None
              | Some (True, v, s) \<Rightarrow> Some (True, v, s)
              | Some (False, v, s) \<Rightarrow> Some (False, v, removeAll node s)))"
| "cycle_deps m n [] visited in_stack = Some (False, visited, in_stack)"
| "cycle_deps m n (dep # deps) visited in_stack =
     (if dep \<notin> set visited then
        (case cycle_dfs m n dep visited in_stack of None \<Rightarrow> None
         | Some (True, v, s) \<Rightarrow> Some (True, v, s)
         | Some (False, v, s) \<Rightarrow> cycle_deps m n deps v s)
      else if dep \<in> set in_stack then Some (True, visited, in_stack)
      else cycle_deps m n deps visited in_stack)"
  by pat_completeness auto
termination
  by (relation "measures [\<lambda>p. case p of Inl (_, n, _) \<Rightarrow> n | Inr (_, n, _) \<Rightarrow> n,
      \<lambda>p. case p of Inl _ \<Rightarrow> 0 | Inr (_, _, deps, _) \<Rightarrow> Suc (length deps)]") auto

text \<open>The outer loop over the names, and the first name that closes a cycle.\<close>

fun cycle_from :: "string list table \<Rightarrow> nat \<Rightarrow> string list \<Rightarrow> string list \<Rightarrow> string list \<Rightarrow> string option option" where
  "cycle_from m fuel [] visited in_stack = Some None"
| "cycle_from m fuel (name # ns) visited in_stack =
     (if name \<notin> set visited then
        (case cycle_dfs m fuel name visited in_stack of None \<Rightarrow> None
         | Some (True, _, _) \<Rightarrow> Some (Some name)
         | Some (False, v, s) \<Rightarrow> cycle_from m fuel ns v s)
      else cycle_from m fuel ns visited in_stack)"

definition cycle_fuel :: "string list table \<Rightarrow> string list \<Rightarrow> nat" where
  "cycle_fuel m ns = length ns + length (concat (map snd m))"

definition has_cycle :: "DagGraph \<Rightarrow> bool option" where
  "has_cycle g = map_option (\<lambda>r. r \<noteq> None) (cycle_from (adj g) (cycle_fuel (adj g) (names g)) (names g) [] [])"

section \<open>Reference definitions\<close>

fun levels_spec :: "(string \<Rightarrow> string list) \<Rightarrow> nat \<Rightarrow> string set \<Rightarrow> string list \<Rightarrow> string list list" where
  "levels_spec deps 0 finished remaining = []"
| "levels_spec deps (Suc n) finished remaining =
     (let level = filter (\<lambda>x. set (deps x) \<subseteq> finished) remaining
      in if level = [] then []
         else level # levels_spec deps n (finished \<union> set level) (filter (\<lambda>x. x \<notin> set level) remaining))"

definition dep_rel :: "string list table \<Rightarrow> (string \<times> string) set" where
  "dep_rel m = {(n, d). \<exists>ds. tbl_get m n = Some ds \<and> d \<in> set ds}"

section \<open>Lemmas: the in-degrees\<close>

lemma degree_of_add: "degree_of (degree_add n k t) x = degree_of t x + (if x = n then k else 0)"
  by (auto simp: degree_of_def degree_add_def split: option.splits)

lemma degree_of_dec: "degree_of (degree_dec t d) x = degree_of t x - (if x = d then 1 else 0)"
  by (auto simp: degree_of_def degree_dec_def split: option.splits)

lemma dependents_of_push: "dependents_of (push_entry d n t) x = dependents_of t x @ (if x = d then [n] else [])"
  by (auto simp: dependents_of_def push_entry_def split: option.splits)

lemma degree_of_dec_all: "degree_of (foldl degree_dec t ds) x = degree_of t x - count_list ds x"
  by (induction ds arbitrary: t) (auto simp: degree_of_dec)

lemma count_list_filter: "count_list xs d = length (filter (\<lambda>y. y = d) xs)"
  by (induction xs) auto

lemma count_dependents_push:
  "count_list (dependents_of (foldl (\<lambda>r d. push_entry d n r) t ds) x) y
     = count_list (dependents_of t x) y + (if y = n then count_list ds x else 0)"
proof (induction ds arbitrary: t)
  case (Cons d ds)
  then show ?case by (cases "x = d"; cases "y = n") (simp_all add: dependents_of_push)
qed simp

lemma count_names:
  assumes "foldl (count_name g) (deg0, r0) ns = (deg, r)"
  shows "degree_of deg n = degree_of deg0 n + count_list ns n * length (dependencies_of g n)
    \<and> count_list (dependents_of r d) n
        = count_list (dependents_of r0 d) n + count_list ns n * count_list (dependencies_of g n) d"
  using assms
proof (induction ns arbitrary: deg0 r0)
  case (Cons x ns)
  obtain deg1 r1 where s: "count_name g (deg0, r0) x = (deg1, r1)" by (cases "count_name g (deg0, r0) x")
  then have "degree_of deg1 n = degree_of deg0 n + (if n = x then length (dependencies_of g n) else 0)"
    and "count_list (dependents_of r1 d) n
      = count_list (dependents_of r0 d) n + (if n = x then count_list (dependencies_of g n) d else 0)"
    by (auto simp: count_name_def Let_def degree_of_add dependencies_of_def count_dependents_push split: option.splits)
  then show ?case using Cons.IH [of deg1 r1] Cons.prems s by auto
qed simp

lemma degree_take_level:
  "degree_of (take_level r level deg) n = degree_of deg n - sum_list (map (\<lambda>x. count_list (dependents_of r x) n) level)"
  unfolding take_level_def by (induction level arbitrary: deg) (auto simp: degree_of_dec_all)

lemma sum_count_level:
  "distinct level \<Longrightarrow> sum_list (map (count_list xs) level) = length (filter (\<lambda>x. x \<in> set level) xs)"
proof (induction level)
  case (Cons l level)
  have "length (filter (\<lambda>x. x = l \<or> x \<in> set level) xs)
      = length (filter (\<lambda>x. x = l) xs) + length (filter (\<lambda>x. x \<in> set level) xs)"
    using Cons.prems by (induction xs) auto
  then show ?case using Cons by (simp add: count_list_filter)
qed simp

text \<open>
  The degree of a name that is left is its number of occurrences times the number of its
  dependencies that are not finished; so it is zero exactly when all of them are.
\<close>

definition degrees_ok :: "DagGraph \<Rightarrow> string list table \<Rightarrow> nat table \<Rightarrow> string set \<Rightarrow> bool" where
  "degrees_ok g r deg finished \<longleftrightarrow> (\<forall>n. degree_of deg n
       = count_list (names g) n * length (filter (\<lambda>d. d \<notin> finished) (dependencies_of g n)))
     \<and> (\<forall>n d. count_list (dependents_of r d) n = count_list (names g) n * count_list (dependencies_of g n) d)"

lemma degrees_ok_zero:
  "degrees_ok g r deg fin \<Longrightarrow> n \<in> set (names g) \<Longrightarrow> degree_of deg n = 0 \<longleftrightarrow> set (dependencies_of g n) \<subseteq> fin"
  by (auto simp: degrees_ok_def filter_empty_conv count_list_0_iff)

lemma length_filter_disjoint:
  assumes "A \<inter> B = {}"
  shows "length (filter (\<lambda>d. d \<notin> B) xs) = length (filter (\<lambda>d. d \<notin> B \<union> A) xs) + length (filter (\<lambda>d. d \<in> A) xs)"
  using assms by (induction xs) auto

lemma degrees_ok_step:
  assumes "degrees_ok g r deg fin" and "distinct level" and "set level \<inter> fin = {}"
  shows "degrees_ok g r (take_level r level deg) (fin \<union> set level)"
proof -
  have "degree_of (take_level r level deg) n
      = count_list (names g) n * length (filter (\<lambda>d. d \<notin> fin \<union> set level) (dependencies_of g n))" for n
  proof -
    let ?c = "count_list (names g) n" and ?ds = "dependencies_of g n"
    have "length (filter (\<lambda>d. d \<notin> fin) ?ds) = length (filter (\<lambda>d. d \<notin> fin \<union> set level) ?ds)
        + length (filter (\<lambda>d. d \<in> set level) ?ds)"
      by (rule length_filter_disjoint [OF assms(3)])
    moreover have "sum_list (map (\<lambda>x. count_list (dependents_of r x) n) level)
        = ?c * length (filter (\<lambda>d. d \<in> set level) ?ds)"
      using assms(1) by (simp add: degrees_ok_def sum_list_const_mult sum_count_level [OF assms(2)])
    moreover have "degree_of deg n = ?c * length (filter (\<lambda>d. d \<notin> fin) ?ds)"
      using assms(1) by (simp add: degrees_ok_def)
    ultimately show ?thesis unfolding degree_take_level by (simp add: algebra_simps)
  qed
  then show ?thesis using assms(1) by (simp add: degrees_ok_def)
qed

lemma levels_loop_spec:
  "degrees_ok g r deg fin \<Longrightarrow> distinct remaining \<Longrightarrow> set remaining \<subseteq> set (names g) \<Longrightarrow> set remaining \<inter> fin = {}
   \<Longrightarrow> length remaining \<le> n \<Longrightarrow> levels_loop r deg remaining = levels_spec (dependencies_of g) n fin remaining"
proof (induction n arbitrary: deg fin remaining)
  case 0
  then show ?case by (simp add: levels_loop.simps)
next
  case (Suc n)
  define level where "level = filter (\<lambda>n. degree_of deg n = 0) remaining"
  have level: "level = filter (\<lambda>x. set (dependencies_of g x) \<subseteq> fin) remaining"
    unfolding level_def using degrees_ok_zero [OF Suc.prems(1)] Suc.prems(3) by (intro filter_cong) blast+
  show ?case
  proof (cases "level = []")
    case True
    then show ?thesis using level by (simp add: levels_loop.simps flip: level_def)
  next
    case False
    let ?rem = "filter (\<lambda>x. x \<notin> set level) remaining"
    have "length ?rem < length remaining"
      using False by (auto simp: level_def filter_empty_conv intro!: length_filter_less)
    moreover have "distinct level" "set level \<inter> fin = {}"
      using Suc.prems(2,4) by (auto simp: level_def)
    ultimately have "levels_loop r (take_level r level deg) ?rem
        = levels_spec (dependencies_of g) n (fin \<union> set level) ?rem"
      using Suc.prems by (intro Suc.IH degrees_ok_step) auto
    then show ?thesis using False level
      by (subst levels_loop.simps) (simp flip: level_def add: Let_def)
  qed
qed

lemma topological_levels_spec:
  "topological_levels g = levels_spec (dependencies_of g) (length (names g)) {} (remdups (names g))"
proof -
  obtain deg r where d: "foldl (count_name g) ([], []) (names g) = (deg, r)"
    by (cases "foldl (count_name g) ([], []) (names g)")
  have "degrees_ok g r deg {}"
    using count_names [OF d] by (simp add: degrees_ok_def degree_of_def dependents_of_def)
  then have "levels_loop r deg (remdups (names g))
      = levels_spec (dependencies_of g) (length (names g)) {} (remdups (names g))"
    by (rule levels_loop_spec) (auto simp: length_remdups_leq)
  then show ?thesis by (simp add: topological_levels_def d)
qed

section \<open>Lemmas: the levels\<close>

lemma levels_spec_order:
  "distinct remaining \<Longrightarrow> lv = levels_spec deps n fin remaining \<Longrightarrow>
     distinct (concat lv) \<and> set (concat lv) \<subseteq> set remaining \<and> (\<forall>l \<in> set lv. l \<noteq> [])
     \<and> (\<forall>i < length lv. \<forall>x \<in> set (lv ! i). set (deps x) \<subseteq> fin \<union> set (concat (take i lv)))"
proof (induction n arbitrary: fin remaining lv)
  case (Suc n)
  define level where "level = filter (\<lambda>x. set (deps x) \<subseteq> fin) remaining"
  let ?rem = "filter (\<lambda>x. x \<notin> set level) remaining"
  define lv' where "lv' = levels_spec deps n (fin \<union> set level) ?rem"
  have lv: "lv = (if level = [] then [] else level # lv')"
    using Suc.prems(2) by (simp add: level_def lv'_def Let_def)
  have IH: "distinct (concat lv') \<and> set (concat lv') \<subseteq> set ?rem \<and> (\<forall>l \<in> set lv'. l \<noteq> [])
     \<and> (\<forall>i < length lv'. \<forall>x \<in> set (lv' ! i). set (deps x) \<subseteq> fin \<union> set level \<union> set (concat (take i lv')))"
    using Suc.prems(1) by (intro Suc.IH) (simp_all add: lv'_def)
  have order: "set (deps x) \<subseteq> fin \<union> set (concat (take i (level # lv')))"
    if i: "i < length (level # lv')" and x: "x \<in> set ((level # lv') ! i)" for i x
  proof (cases i)
    case 0
    then show ?thesis using x by (simp add: level_def)
  next
    case (Suc j)
    then show ?thesis using i x IH by fastforce
  qed
  show ?case
  proof (cases "level = []")
    case False
    have "distinct level" "set level \<subseteq> set remaining" using Suc.prems(1) by (auto simp: level_def)
    then show ?thesis unfolding lv using False IH order by auto
  qed (simp add: lv)
qed simp

text \<open>With closed, acyclic dependencies some remaining name is always ready.\<close>

lemma acyclic_ready:
  assumes "acyclic {(x, d). x \<in> set rem \<and> d \<in> set (deps x)}" and "rem \<noteq> []"
    and "\<And>x. x \<in> set rem \<Longrightarrow> set (deps x) \<subseteq> fin \<union> set rem"
  shows "filter (\<lambda>x. set (deps x) \<subseteq> fin) rem \<noteq> []"
proof -
  define E where "E = {(d, x). x \<in> set rem \<and> d \<in> set (deps x)}"
  have "E \<subseteq> (\<Union>x \<in> set rem. set (deps x)) \<times> set rem" by (auto simp: E_def)
  then have "finite E" by (rule finite_subset) simp
  moreover have "E = {(x, d). x \<in> set rem \<and> d \<in> set (deps x)}\<inverse>" by (auto simp: E_def)
  then have "acyclic E" using assms(1) by simp
  ultimately have "wf E" by (rule finite_acyclic_wf)
  have "\<exists>z \<in> set rem. \<forall>y. (y, z) \<in> E \<longrightarrow> y \<notin> set rem"
  proof (rule wfE_min [OF \<open>wf E\<close> last_in_set [OF assms(2)]])
    fix z assume "z \<in> set rem" "\<And>y. (y, z) \<in> E \<Longrightarrow> y \<notin> set rem"
    then show "\<exists>z \<in> set rem. \<forall>y. (y, z) \<in> E \<longrightarrow> y \<notin> set rem" by (intro bexI [of _ z]) simp_all
  qed
  then obtain z where z: "z \<in> set rem" "\<forall>y. (y, z) \<in> E \<longrightarrow> y \<notin> set rem" by (rule bexE)
  have "d \<in> fin" if "d \<in> set (deps z)" for d
  proof -
    have "(d, z) \<in> E" using z(1) that by (simp add: E_def)
    then have "d \<notin> set rem" using z(2) by simp
    moreover have "d \<in> fin \<union> set rem" using assms(3) [OF z(1)] that by (rule subsetD)
    ultimately show ?thesis by simp
  qed
  then have "z \<in> set (filter (\<lambda>x. set (deps x) \<subseteq> fin) rem)" using z(1) by (simp add: subset_iff)
  then show ?thesis by (metis empty_iff list.set(1))
qed

lemma levels_spec_complete:
  "length rem \<le> n \<Longrightarrow> acyclic {(x, d). x \<in> set rem \<and> d \<in> set (deps x)}
   \<Longrightarrow> (\<And>x. x \<in> set rem \<Longrightarrow> set (deps x) \<subseteq> fin \<union> set rem)
   \<Longrightarrow> set (concat (levels_spec deps n fin rem)) = set rem"
proof (induction n arbitrary: fin rem)
  case (Suc n)
  define level where "level = filter (\<lambda>x. set (deps x) \<subseteq> fin) rem"
  let ?rem = "filter (\<lambda>x. x \<notin> set level) rem"
  show ?case
  proof (cases "rem = []")
    case False
    have ne: "level \<noteq> []" unfolding level_def by (rule acyclic_ready [OF Suc.prems(2) False Suc.prems(3)])
    then have "length ?rem < length rem"
      by (auto simp: level_def filter_empty_conv intro!: length_filter_less)
    moreover have "acyclic {(x, d). x \<in> set ?rem \<and> d \<in> set (deps x)}"
      by (rule acyclic_subset [OF Suc.prems(2)]) auto
    ultimately have "set (concat (levels_spec deps n (fin \<union> set level) ?rem)) = set ?rem"
      using Suc.prems by (intro Suc.IH) auto
    moreover have "set level \<subseteq> set rem" by (auto simp: level_def)
    ultimately show ?thesis using ne unfolding level_def [symmetric] levels_spec.simps Let_def by auto
  qed simp
qed simp

section \<open>Lemmas: the cycle check\<close>

text \<open>
  The state of the search: the stack is visited, and the finished nodes (visited and off the stack)
  are closed under dependencies and on no cycle.
\<close>

definition dfs_inv :: "string list table \<Rightarrow> string set \<Rightarrow> string set \<Rightarrow> bool" where
  "dfs_inv m V S \<longleftrightarrow> S \<subseteq> V \<and> (\<forall>b \<in> V - S. (b, b) \<notin> (dep_rel m)\<^sup>+ \<and> (\<forall>d. (b, d) \<in> dep_rel m \<longrightarrow> d \<in> V - S))"

lemma closed_trancl:
  assumes "(x, y) \<in> R\<^sup>+" and "x \<in> B" and "\<And>b d. b \<in> B \<Longrightarrow> (b, d) \<in> R \<Longrightarrow> d \<in> B"
  shows "y \<in> B"
  using assms(1,2) by (induction rule: trancl_induct) (auto intro: assms(3))

lemma dfs_inv_closed: "dfs_inv m V S \<Longrightarrow> b \<in> V - S \<Longrightarrow> (b, d) \<in> dep_rel m \<Longrightarrow> d \<in> V - S"
  unfolding dfs_inv_def by blast

lemma dfs_inv_cyc: "dfs_inv m V S \<Longrightarrow> b \<in> V - S \<Longrightarrow> (b, b) \<notin> (dep_rel m)\<^sup>+"
  unfolding dfs_inv_def by blast

lemma dfs_inv_finish:
  assumes inv: "dfs_inv m V (insert x S)" and x: "x \<in> V" "x \<notin> S"
    and succ: "\<And>d. (x, d) \<in> dep_rel m \<Longrightarrow> d \<in> V - insert x S"
  shows "dfs_inv m V S"
proof -
  have no: "(x, x) \<notin> (dep_rel m)\<^sup>+"
  proof
    assume "(x, x) \<in> (dep_rel m)\<^sup>+"
    from tranclD [OF this] obtain d where d: "(x, d) \<in> dep_rel m" "(d, x) \<in> (dep_rel m)\<^sup>*" by (elim exE conjE)
    note b = succ [OF d(1)]
    from d(2) have "d = x \<or> (d, x) \<in> (dep_rel m)\<^sup>+" unfolding rtrancl_eq_or_trancl by blast
    then show False
      using b closed_trancl [of d x "dep_rel m" "V - insert x S", OF _ b dfs_inv_closed [OF inv]] by auto
  qed
  have old: "(b, b) \<notin> (dep_rel m)\<^sup>+" if "b \<in> V - S" for b
    using that no dfs_inv_cyc [OF inv, of b] by blast
  have closed: "d \<in> V - S" if "b \<in> V - S" "(b, d) \<in> dep_rel m" for b d
  proof (cases "b = x")
    case True
    then show ?thesis using succ that(2) by blast
  next
    case False
    then show ?thesis using dfs_inv_closed [OF inv, of b d] that by blast
  qed
  have "S \<subseteq> V" using inv unfolding dfs_inv_def by blast
  then show ?thesis using old closed unfolding dfs_inv_def by blast
qed

lemma dfs_inv_push: "dfs_inv m V S \<Longrightarrow> x \<notin> V \<Longrightarrow> dfs_inv m (insert x V) (insert x S)"
  unfolding dfs_inv_def by blast

lemma dfs_sound:
  "cycle_dfs m n node visited in_stack = Some (c, v, s) \<Longrightarrow> dfs_inv m (set visited) (set in_stack)
     \<Longrightarrow> node \<notin> set visited \<Longrightarrow> (\<forall>x \<in> set in_stack. (x, node) \<in> (dep_rel m)\<^sup>+)
   \<Longrightarrow> if c then \<exists>x. (x, x) \<in> (dep_rel m)\<^sup>+
       else dfs_inv m (set v) (set in_stack) \<and> set s = set in_stack \<and> insert node (set visited) \<subseteq> set v"
  "cycle_deps m n deps visited in_stack = Some (c, v, s) \<Longrightarrow> dfs_inv m (set visited) (set in_stack)
     \<Longrightarrow> (\<forall>x \<in> set in_stack. \<forall>d \<in> set deps. (x, d) \<in> (dep_rel m)\<^sup>+)
   \<Longrightarrow> if c then \<exists>x. (x, x) \<in> (dep_rel m)\<^sup>+
       else dfs_inv m (set v) (set in_stack) \<and> set s = set in_stack \<and> set visited \<subseteq> set v
         \<and> set deps \<subseteq> set v - set in_stack"
proof (induction m n node visited in_stack and m n deps visited in_stack
    arbitrary: c v s and c v s rule: cycle_dfs_cycle_deps.induct)
  case (2 m n node visited in_stack)
  let ?v = "List.insert node visited" and ?s = "List.insert node in_stack"
  have new: "node \<notin> set in_stack" using "2.prems"(2,3) unfolding dfs_inv_def by blast
  have inv: "dfs_inv m (set ?v) (set ?s)" using dfs_inv_push [OF "2.prems"(2,3)] by simp
  show ?case
  proof (cases "tbl_get m node")
    case None
    then have none: "(node, d) \<notin> dep_rel m" for d by (simp add: dep_rel_def)
    have "dfs_inv m (set ?v) (set in_stack)"
      by (rule dfs_inv_finish [of m "set ?v" node]) (use inv new none in simp_all)
    then show ?thesis using "2.prems"(1) None new by auto
  next
    case (Some deps)
    then have edge: "(node, d) \<in> dep_rel m \<longleftrightarrow> d \<in> set deps" for d by (auto simp: dep_rel_def)
    have path: "\<forall>x \<in> set ?s. \<forall>d \<in> set deps. (x, d) \<in> (dep_rel m)\<^sup>+"
      using "2.prems"(4) edge by (auto intro: trancl_into_trancl)
    obtain c' v' s' where r: "cycle_deps m n deps ?v ?s = Some (c', v', s')"
      using "2.prems"(1) Some by (auto simp: Let_def split: option.splits)
    note IH = "2.IH" [OF refl refl Some r inv path]
    show ?thesis
    proof (cases c')
      case True
      then show ?thesis using IH "2.prems"(1) Some r by (auto simp: Let_def)
    next
      case False
      then have st: "\<not> c" "v = v'" "s = removeAll node s'" using "2.prems"(1) Some r by (auto simp: Let_def)
      have "dfs_inv m (set v') (set in_stack)"
        by (rule dfs_inv_finish [of m "set v'" node]) (use IH False new edge in auto)
      then show ?thesis using IH False new st by auto
    qed
  qed
next
  case (4 m n dep deps visited in_stack)
  show ?case
  proof (cases "dep \<in> set visited")
    case False
    obtain c' v' s' where r: "cycle_dfs m n dep visited in_stack = Some (c', v', s')"
      using "4.prems"(1) False by (auto split: option.splits)
    have path: "\<forall>x \<in> set in_stack. (x, dep) \<in> (dep_rel m)\<^sup>+" using "4.prems"(3) by simp
    note IH = "4.IH"(1) [OF False r "4.prems"(2) False path]
    show ?thesis
    proof (cases c')
      case True
      then show ?thesis using IH "4.prems"(1) False r by auto
    next
      case c': False
      then have s': "set s' = set in_stack" "dfs_inv m (set v') (set in_stack)" "insert dep (set visited) \<subseteq> set v'"
        using IH by auto
      have r': "cycle_dfs m n dep visited in_stack = Some (False, v', s')" using r c' by simp
      have rec: "cycle_deps m n deps v' s' = Some (c, v, s)" using "4.prems"(1) False r c' by auto
      have "dep \<notin> set in_stack" using False "4.prems"(2) unfolding dfs_inv_def by blast
      moreover have "if c then \<exists>x. (x, x) \<in> (dep_rel m)\<^sup>+
          else dfs_inv m (set v) (set s') \<and> set s = set s' \<and> set v' \<subseteq> set v \<and> set deps \<subseteq> set v - set s'"
        by (rule "4.IH"(2) [OF False r' refl refl refl rec]) (use s' "4.prems"(3) in simp_all)
      ultimately show ?thesis using s' by (cases c) (simp_all, blast)
    qed
  next
    case True
    show ?thesis
    proof (cases "dep \<in> set in_stack")
      case stk: True
      then have "(dep, dep) \<in> (dep_rel m)\<^sup>+" using "4.prems"(3) by auto
      then show ?thesis using "4.prems"(1) True stk by auto
    next
      case stk: False
      then have "cycle_deps m n deps visited in_stack = Some (c, v, s)" using "4.prems"(1) True by simp
      then show ?thesis using "4.IH"(3) [of c v s] True stk "4.prems"(2,3) by auto
    qed
  qed
qed auto

lemma dfs_total:
  "finite U \<Longrightarrow> \<forall>x ds. tbl_get m x = Some ds \<longrightarrow> set ds \<subseteq> U \<Longrightarrow> node \<in> U - set visited \<Longrightarrow> card (U - set visited) \<le> n
   \<Longrightarrow> \<exists>c v s. cycle_dfs m n node visited in_stack = Some (c, v, s) \<and> set visited \<subseteq> set v"
  "finite U \<Longrightarrow> \<forall>x ds. tbl_get m x = Some ds \<longrightarrow> set ds \<subseteq> U \<Longrightarrow> set deps \<subseteq> U \<Longrightarrow> card (U - set visited) \<le> n
   \<Longrightarrow> \<exists>c v s. cycle_deps m n deps visited in_stack = Some (c, v, s) \<and> set visited \<subseteq> set v"
proof (induction m n node visited in_stack and m n deps visited in_stack rule: cycle_dfs_cycle_deps.induct)
  case (1 m node visited in_stack)
  then show ?case by (auto simp: card_eq_0_iff)
next
  case (2 m n node visited in_stack)
  let ?v = "List.insert node visited" and ?s = "List.insert node in_stack"
  show ?case
  proof (cases "tbl_get m node")
    case (Some deps)
    have "U - set ?v = (U - set visited) - {node}" by auto
    then have "card (U - set ?v) \<le> n" using "2.prems"(1,3,4) by (simp add: card_Diff_singleton)
    moreover have "set deps \<subseteq> U" using "2.prems"(2) Some by blast
    ultimately obtain c v s where "cycle_deps m n deps ?v ?s = Some (c, v, s)" "set ?v \<subseteq> set v"
      using "2.IH" [OF refl refl Some "2.prems"(1,2)] by blast
    then show ?thesis using Some by (cases c) (auto simp: Let_def)
  qed (auto simp: Let_def)
next
  case (4 m n dep deps visited in_stack)
  show ?case
  proof (cases "dep \<in> set visited")
    case False
    with "4.prems"(3) have "dep \<in> U - set visited" by simp
    from "4.IH"(1) [OF False "4.prems"(1,2) this "4.prems"(4)]
    obtain c v s where r: "cycle_dfs m n dep visited in_stack = Some (c, v, s)" "set visited \<subseteq> set v" by blast
    show ?thesis
    proof (cases c)
      case c: False
      then have r': "cycle_dfs m n dep visited in_stack = Some (False, v, s)" using r by simp
      have "card (U - set v) \<le> card (U - set visited)" using r(2) "4.prems"(1) by (intro card_mono) auto
      then have "card (U - set v) \<le> n" using "4.prems"(4) by simp
      from "4.IH"(2) [OF False r' refl refl refl "4.prems"(1,2) _ this] show ?thesis
        using "4.prems"(3) r(2) r' False by fastforce
    qed (use r False in auto)
  next
    case True
    then show ?thesis using "4.IH"(3) [OF _ _ "4.prems"(1,2) _ "4.prems"(4)] "4.prems"(3) by auto
  qed
qed auto

lemma cycle_from_total:
  assumes "finite U" "\<forall>x ds. tbl_get m x = Some ds \<longrightarrow> set ds \<subseteq> U" "card U \<le> n" "set ns \<subseteq> U"
  shows "\<exists>r. cycle_from m n ns visited in_stack = Some r"
  using assms(4)
proof (induction ns arbitrary: visited in_stack)
  case (Cons x ns)
  show ?case
  proof (cases "x \<in> set visited")
    case False
    have "card (U - set visited) \<le> n" using assms(1,3) by (metis Diff_subset card_mono le_trans)
    from dfs_total(1) [OF assms(1,2) _ this, of x in_stack] False Cons.prems
    obtain c v s where "cycle_dfs m n x visited in_stack = Some (c, v, s)" by auto
    then show ?thesis using Cons False by (cases c) auto
  qed (use Cons in auto)
qed simp

lemma has_cycle_fuel_enough: "\<exists>r. cycle_from m (cycle_fuel m ns) ns [] [] = Some r"
proof (rule cycle_from_total)
  let ?U = "set ns \<union> set (concat (map snd m))"
  show "finite ?U" "set ns \<subseteq> ?U" by auto
  show "\<forall>x ds. tbl_get m x = Some ds \<longrightarrow> set ds \<subseteq> ?U"
    using map_of_SomeD by force
  have "card ?U \<le> card (set ns) + card (set (concat (map snd m)))" by (rule card_Un_le)
  also have "\<dots> \<le> cycle_fuel m ns" unfolding cycle_fuel_def by (intro add_mono card_length)
  finally show "card ?U \<le> cycle_fuel m ns" .
qed

lemma cycle_from_spec:
  "cycle_from m n ns visited in_stack = Some r \<Longrightarrow> dfs_inv m (set visited) {} \<Longrightarrow> set in_stack = {} \<Longrightarrow>
     (case r of None \<Rightarrow> \<forall>x \<in> set ns. (x, x) \<notin> (dep_rel m)\<^sup>+
      | Some name \<Rightarrow> name \<in> set ns \<and> (\<exists>x. (x, x) \<in> (dep_rel m)\<^sup>+))"
proof (induction ns arbitrary: visited in_stack)
  case (Cons x ns)
  show ?case
  proof (cases "x \<in> set visited")
    case True
    then have "(x, x) \<notin> (dep_rel m)\<^sup>+" using dfs_inv_cyc [OF Cons.prems(2), of x] by simp
    then show ?thesis using Cons.IH [of visited in_stack] Cons.prems True by (auto split: option.splits)
  next
    case False
    then obtain c v s where d: "cycle_dfs m n x visited in_stack = Some (c, v, s)"
      using Cons.prems(1) by (auto split: option.splits)
    have d': "if c then \<exists>x. (x, x) \<in> (dep_rel m)\<^sup>+
       else dfs_inv m (set v) (set in_stack) \<and> set s = set in_stack \<and> insert x (set visited) \<subseteq> set v"
      by (rule dfs_sound(1) [OF d]) (use Cons.prems False in simp_all)
    show ?thesis
    proof (cases c)
      case True
      then show ?thesis using d d' Cons.prems(1) False by auto
    next
      case c: False
      then have v: "dfs_inv m (set v) {}" "set s = {}" "x \<in> set v" using d' Cons.prems(3) by auto
      then have "(x, x) \<notin> (dep_rel m)\<^sup>+" using dfs_inv_cyc [OF v(1), of x] by simp
      then show ?thesis using Cons.IH [of v s] v d c Cons.prems(1) False by (auto split: option.splits)
    qed
  qed
qed simp

lemma dfs_inv_init: "dfs_inv m {} {}"
  by (simp add: dfs_inv_def)

lemma cycle_from_decides:
  assumes "fst ` set m \<subseteq> set ns"
  shows "\<exists>r. cycle_from m (cycle_fuel m ns) ns [] [] = Some r \<and> (r = None \<longleftrightarrow> acyclic (dep_rel m))
    \<and> (\<forall>name. r = Some name \<longrightarrow> name \<in> set ns)"
proof -
  obtain r where r: "cycle_from m (cycle_fuel m ns) ns [] [] = Some r" using has_cycle_fuel_enough by blast
  have spec: "case r of None \<Rightarrow> \<forall>x \<in> set ns. (x, x) \<notin> (dep_rel m)\<^sup>+
      | Some name \<Rightarrow> name \<in> set ns \<and> (\<exists>x. (x, x) \<in> (dep_rel m)\<^sup>+)"
    by (rule cycle_from_spec [OF r]) (simp_all add: dfs_inv_init)
  have "x \<in> set ns" if "(x, x) \<in> (dep_rel m)\<^sup>+" for x
    using tranclD [OF that] assms by (auto simp: dep_rel_def dest!: map_of_SomeD)
  then show ?thesis using r spec by (auto simp: acyclic_def split: option.splits)
qed

lemma from_steps_dom: "fst ` set (adj (from_steps steps)) = set (names (from_steps steps))"
proof -
  have "fst ` set (foldl (\<lambda>m (name, deps). tbl_insert name deps m) t ss) = fst ` set t \<union> set (map fst ss)" for t :: "string list table" and ss
    by (induction ss arbitrary: t) (simp_all add: keys_tbl_insert split_beta)
  then show ?thesis by (simp add: from_steps_def)
qed

lemma dep_rel_iff: "(x, d) \<in> dep_rel (adj g) \<longleftrightarrow> d \<in> set (dependencies_of g x)"
  by (cases "tbl_get (adj g) x") (simp_all add: dep_rel_def dependencies_of_def)

lemma from_steps_dep: "(x, d) \<in> dep_rel (adj (from_steps steps)) \<Longrightarrow> x \<in> set (names (from_steps steps))"
  unfolding from_steps_dom [symmetric] by (force simp: dep_rel_def dest!: map_of_SomeD)

text \<open>Dependencies that only point to earlier levels cannot form a cycle.\<close>

lemma levelled_acyclic:
  assumes "\<forall>i < length lv. \<forall>x \<in> set (lv ! i). deps x \<subseteq> set (concat (take i lv))"
    and "\<And>x d. (x, d) \<in> R \<Longrightarrow> x \<in> set (concat lv) \<and> d \<in> deps x"
  shows "acyclic R"
proof -
  define rank where "rank x = (LEAST i. i < length lv \<and> x \<in> set (lv ! i))" for x
  have rank: "rank x < length lv \<and> x \<in> set (lv ! rank x)" if "x \<in> set (concat lv)" for x
  proof -
    from that obtain l where "l \<in> set lv" "x \<in> set l" by auto
    then obtain i where "i < length lv \<and> x \<in> set (lv ! i)" by (metis in_set_conv_nth)
    then show ?thesis unfolding rank_def by (rule LeastI)
  qed
  have "rank d < rank x" if e: "(x, d) \<in> R" for x d
  proof -
    have "x \<in> set (concat lv)" "d \<in> deps x" using assms(2) [OF e] by auto
    then have "d \<in> set (concat (take (rank x) lv))" using rank [of x] assms(1) by blast
    then obtain j where j: "j < length (take (rank x) lv)" "d \<in> set (take (rank x) lv ! j)"
      by (metis UN_E in_set_conv_nth set_concat)
    then have "j < length lv \<and> d \<in> set (lv ! j)" "j < rank x" by auto
    then show ?thesis unfolding rank_def [of d] by (metis (no_types, lifting) Least_le le_less_trans)
  qed
  then have "R\<inverse> \<subseteq> measure rank" by auto
  then have "wf (R\<inverse>)" by (rule wf_subset [OF wf_measure])
  then show ?thesis using wf_acyclic acyclic_converse by blast
qed

section \<open>Properties\<close>

text \<open>
  C8. \<open>topological_levels\<close> computes, by counting in-degrees, exactly the levels of the reference
  definition: each level is the set of all remaining steps whose dependencies are all in earlier
  levels. So no step is in two levels, no level is empty, and every step comes after all of its
  dependencies.
\<close>

theorem topological_levels_correct:
  "topological_levels g = levels_spec (dependencies_of g) (length (names g)) {} (remdups (names g))
   \<and> distinct (concat (topological_levels g)) \<and> set (concat (topological_levels g)) \<subseteq> set (names g)
   \<and> [] \<notin> set (topological_levels g)
   \<and> (\<forall>i < length (topological_levels g). \<forall>x \<in> set (topological_levels g ! i).
        set (dependencies_of g x) \<subseteq> set (concat (take i (topological_levels g))))"
proof -
  note ord = levels_spec_order [OF distinct_remdups topological_levels_spec [of g], unfolded set_remdups Un_empty_left]
  have "[] \<notin> set (topological_levels g)" using ord by blast
  with ord topological_levels_spec [of g] show ?thesis by (elim conjE) (intro conjI)
qed

theorem topological_levels_correct_witness:
  "topological_levels (from_steps [(''c'', [''a'', ''b'']), (''a'', []), (''b'', [''a''])]) = [[''a''], [''b''], [''c'']]
   \<and> set (dependencies_of (from_steps [(''c'', [''a'', ''b'']), (''a'', []), (''b'', [''a''])]) ''c'')
       \<subseteq> set (concat (take 2 [[''a''], [''b''], [''c'']]))"
proof -
  let ?g = "from_steps [(''c'', [''a'', ''b'']), (''a'', []), (''b'', [''a''])]"
  have l: "topological_levels ?g = [[''a''], [''b''], [''c'']]" by code_simp
  have "2 < length (topological_levels ?g)" "''c'' \<in> set (topological_levels ?g ! 2)" by (simp_all add: l)
  then have "set (dependencies_of ?g ''c'') \<subseteq> set (concat (take 2 (topological_levels ?g)))"
    using topological_levels_correct [of ?g, THEN conjunct2, THEN conjunct2, THEN conjunct2, THEN conjunct2] by blast
  then show ?thesis unfolding l by simp
qed

text \<open>
  C27. The depth-first check always returns and decides whether the dependencies have a cycle; and
  the levels contain every step exactly when the check finds none and every dependency is a step.
\<close>

theorem has_cycle_decides:
  fixes steps defines "g \<equiv> from_steps steps"
  shows "has_cycle g = Some (\<not> acyclic (dep_rel (adj g)))
    \<and> (set (concat (topological_levels g)) = set (names g) \<longleftrightarrow>
         has_cycle g = Some False \<and> (\<Union>x \<in> set (names g). set (dependencies_of g x)) \<subseteq> set (names g))"
proof -
  obtain r where r: "cycle_from (adj g) (cycle_fuel (adj g) (names g)) (names g) [] [] = Some r"
      "r = None \<longleftrightarrow> acyclic (dep_rel (adj g))"
    using cycle_from_decides [of "adj g" "names g"] from_steps_dom [of steps] unfolding g_def by auto
  then have dec: "has_cycle g = Some (\<not> acyclic (dep_rel (adj g)))" by (simp only: has_cycle_def option.map)
  note ord = levels_spec_order [OF distinct_remdups topological_levels_spec [of g]]
  have "acyclic (dep_rel (adj g)) \<and> (\<Union>x \<in> set (names g). set (dependencies_of g x)) \<subseteq> set (names g)"
    if cover: "set (concat (topological_levels g)) = set (names g)"
  proof
    show "acyclic (dep_rel (adj g))"
      by (rule levelled_acyclic [of "topological_levels g" "\<lambda>x. set (dependencies_of g x)"])
        (use ord cover from_steps_dep [of _ _ steps] in \<open>auto simp: dep_rel_iff g_def\<close>)
    have "set (dependencies_of g x) \<subseteq> set (names g)" if x: "x \<in> set (names g)" for x
    proof -
      from x cover obtain l where l: "l \<in> set (topological_levels g)" "x \<in> set l" by auto
      then obtain i where i: "i < length (topological_levels g)" "x \<in> set (topological_levels g ! i)"
        by (metis in_set_conv_nth)
      have "set (dependencies_of g x) \<subseteq> set (concat (take i (topological_levels g)))" using ord i by blast
      also have "\<dots> \<subseteq> set (concat (topological_levels g))" by (auto dest: in_set_takeD)
      finally show ?thesis using cover by simp
    qed
    then show "(\<Union>x \<in> set (names g). set (dependencies_of g x)) \<subseteq> set (names g)" by blast
  qed
  moreover have "set (concat (topological_levels g)) = set (names g)"
    if "acyclic (dep_rel (adj g))" and known: "(\<Union>x \<in> set (names g). set (dependencies_of g x)) \<subseteq> set (names g)"
  proof -
    have "acyclic {(x, d). x \<in> set (remdups (names g)) \<and> d \<in> set (dependencies_of g x)}"
      by (rule acyclic_subset [OF that(1)]) (auto simp: dep_rel_iff)
    then show ?thesis
      unfolding topological_levels_spec
      using levels_spec_complete [of "remdups (names g)" "length (names g)" "dependencies_of g" "{}"] known
      by (auto simp: length_remdups_leq)
  qed
  ultimately show ?thesis using dec by auto
qed

end
