(* ===== verification/Pipeline_Validation.thy ===== *)
theory Pipeline_Validation
  imports Pipeline_Schema Dag_Graph
begin

text \<open>
  What a pipeline definition must satisfy before it runs: the checks of the parser
  (\<open>muli-pipeline/src/yaml/parser.rs\<close>) and of the validator (\<open>muli-pipeline/src/yaml/validation.rs\<close>).
  The YAML reader \<open>serde_yaml::from_str\<close> is the parameter \<open>from_str\<close>. The number of matrix
  combinations is a product of \<open>usize\<close> values; in a release build it wraps at \<open>2 ^ 64\<close>, as written
  out in \<open>matrix_combinations\<close>.
\<close>

section \<open>Parser\<close>

definition MAX_STEPS :: nat where
  "MAX_STEPS = 100"

fun check_job_steps :: "string \<Rightarrow> string list \<Rightarrow> JobStepDef list \<Rightarrow> unit result" where
  "check_job_steps job_name seen [] = Inr ()"
| "check_job_steps job_name seen (step # rest) =
     (if trim (js_name step) = [] then
        Inl (PipelineYamlError (''job '' @ [quote_char] @ job_name @ [quote_char] @ '' contains a step with an empty name''))
      else if js_commands step = [] then
        Inl (PipelineYamlError (''job '' @ [quote_char] @ job_name @ [quote_char] @ '' step '' @ [quote_char]
          @ js_name step @ [quote_char] @ '' must define at least one command''))
      else if js_name step \<in> set seen then
        Inl (PipelineYamlError (''job '' @ [quote_char] @ job_name @ [quote_char]
          @ '' contains duplicate step name '' @ [quote_char] @ js_name step @ [quote_char]))
      else check_job_steps job_name (js_name step # seen) rest)"

definition parse_check_job :: "PipelineDef \<Rightarrow> string \<times> JobDef \<Rightarrow> unit result" where
  "parse_check_job def p =
     (case p of (job_name, job) \<Rightarrow>
        if effective_image job (pd_image def) = None then
          Inl (PipelineYamlError (''job '' @ [quote_char] @ job_name @ [quote_char]
            @ '' must specify an image (or set a pipeline-level image)''))
        else and_then
          (try_for (\<lambda>dep. if dep \<in> set (tbl_keys (pd_jobs def)) then Inr ()
             else Inl (PipelineYamlError (''job '' @ [quote_char] @ job_name @ [quote_char] @ '' needs unknown job ''
               @ [quote_char] @ dep @ [quote_char]))) (jd_needs job))
          (\<lambda>_. if jd_commands job = [] \<and> jd_steps job = [] then
             Inl (PipelineYamlError (''job '' @ [quote_char] @ job_name @ [quote_char] @ '' must define commands or steps''))
           else check_job_steps job_name [] (jd_steps job)))"

definition parse_check_step :: "StepDef \<Rightarrow> unit result" where
  "parse_check_step step =
     (if sd_name step = [] then Inl (PipelineYamlError ''step name is required'')
      else if sd_image step = [] then
        Inl (PipelineYamlError (''step '' @ [quote_char] @ sd_name step @ [quote_char] @ '' must specify an image''))
      else Inr ())"

definition parse_checks :: "PipelineDef \<Rightarrow> unit result" where
  "parse_checks def =
     (if pd_name def = [] then Inl (PipelineYamlError ''pipeline name is required'')
      else if pd_jobs def \<noteq> [] then
        (if MAX_STEPS < length (pd_jobs def) then
           Inl (PipelineYamlError (''pipeline has '' @ show_nat (length (pd_jobs def)) @ '' jobs (max 100)''))
         else try_for (parse_check_job def) (pd_jobs def))
      else if pd_steps def = [] then Inl (PipelineYamlError ''pipeline must have at least one step or job'')
      else if MAX_STEPS < length (pd_steps def) then
        Inl (PipelineYamlError (''pipeline has '' @ show_nat (length (pd_steps def)) @ '' steps (max 100)''))
      else try_for parse_check_step (pd_steps def))"

definition parse_pipeline :: "(string \<Rightarrow> string + PipelineDef) \<Rightarrow> string \<Rightarrow> PipelineDef result" where
  "parse_pipeline from_str yaml_str =
     (case from_str yaml_str of Inl e \<Rightarrow> Inl (PipelineYamlError (''YAML parse error: '' @ e))
      | Inr def \<Rightarrow> and_then (parse_checks def) (\<lambda>_. Inr def))"

section \<open>Validator\<close>

definition MAX_MATRIX_SIZE :: nat where
  "MAX_MATRIX_SIZE = 25"

fun unique_step_names :: "string list \<Rightarrow> StepDef list \<Rightarrow> unit result" where
  "unique_step_names seen [] = Inr ()"
| "unique_step_names seen (step # rest) =
     (if sd_name step \<in> set seen then
        Inl (PipelineYamlError (''duplicate step name: '' @ [quote_char] @ sd_name step @ [quote_char]))
      else unique_step_names (sd_name step # seen) rest)"

definition validate_unique_names :: "PipelineDef \<Rightarrow> unit result" where
  "validate_unique_names def = (if pd_jobs def \<noteq> [] then Inr () else unique_step_names [] (pd_steps def))"

text \<open>
  The validator's own \<open>has_cycle\<close> is, line by line, the search \<open>cycle_dfs\<close>; this is its loop over the
  names, with the name the error reports. The fuel is enough (\<open>has_cycle_fuel_enough\<close>).
\<close>

definition validation_has_cycle :: "string list table \<Rightarrow> string list \<Rightarrow> string option" where
  "validation_has_cycle m ns = (case cycle_from m (cycle_fuel m ns) ns [] [] of Some r \<Rightarrow> r | None \<Rightarrow> None)"

definition jobs_adj :: "PipelineDef \<Rightarrow> string list table" where
  "jobs_adj def = tbl_collect (map (\<lambda>(name, job). (name, jd_needs job)) (pd_jobs def))"

definition steps_adj :: "PipelineDef \<Rightarrow> string list table" where
  "steps_adj def = tbl_collect (map (\<lambda>s. (sd_name s, sd_needs s)) (pd_steps def))"

definition validate_dag :: "PipelineDef \<Rightarrow> unit result" where
  "validate_dag def =
     (if pd_jobs def \<noteq> [] then
        and_then
          (try_for (\<lambda>(job_name, job). try_for (\<lambda>dep. if dep \<in> set (tbl_keys (pd_jobs def)) then Inr ()
             else Inl (PipelineYamlError (''job '' @ [quote_char] @ job_name @ [quote_char] @ '' depends on unknown job ''
               @ [quote_char] @ dep @ [quote_char]))) (jd_needs job)) (pd_jobs def))
          (\<lambda>_. case validation_has_cycle (jobs_adj def) (tbl_keys (pd_jobs def)) of
             Some name \<Rightarrow> Inl (PipelineDagCycle (''cycle detected involving job '' @ [quote_char] @ name @ [quote_char]))
           | None \<Rightarrow> Inr ())
      else
        and_then
          (try_for (\<lambda>step. try_for (\<lambda>dep. if dep \<in> set (map sd_name (pd_steps def)) then Inr ()
             else Inl (PipelineYamlError (''step '' @ [quote_char] @ sd_name step @ [quote_char] @ '' depends on unknown step ''
               @ [quote_char] @ dep @ [quote_char]))) (sd_needs step)) (pd_steps def))
          (\<lambda>_. case validation_has_cycle (steps_adj def) (map sd_name (pd_steps def)) of
             Some name \<Rightarrow> Inl (PipelineDagCycle (''cycle detected involving step '' @ [quote_char] @ name @ [quote_char]))
           | None \<Rightarrow> Inr ()))"

definition matrix_combinations :: "string list table \<Rightarrow> nat" where
  "matrix_combinations m = foldl (\<lambda>acc v. acc * max (length v) 1 mod 2 ^ 64) 1 (tbl_values m)"

definition check_matrix_size :: "string \<Rightarrow> string \<Rightarrow> string list table option \<Rightarrow> unit result" where
  "check_matrix_size kind name matrix = (case matrix of None \<Rightarrow> Inr ()
     | Some m \<Rightarrow>
         if MAX_MATRIX_SIZE < matrix_combinations m then
           Inl (PipelineYamlError (kind @ '' '' @ [quote_char] @ name @ [quote_char] @ '' matrix produces ''
             @ show_nat (matrix_combinations m) @ '' combinations (max 25)''))
         else Inr ())"

definition validate_matrix_sizes :: "PipelineDef \<Rightarrow> unit result" where
  "validate_matrix_sizes def =
     (if pd_jobs def \<noteq> [] then try_for (\<lambda>(name, job). check_matrix_size ''job'' name (jd_matrix job)) (pd_jobs def)
      else try_for (\<lambda>step. check_matrix_size ''step'' (sd_name step) (sd_matrix step)) (pd_steps def))"

definition validate_path_component :: "string \<Rightarrow> string \<Rightarrow> unit result" where
  "validate_path_component s label =
     (if s = [] \<or> contains_sub s ''..'' \<or> contains_sub s ''/'' \<or> contains_sub s [CHR 0x5C] \<or> contains_sub s [CHR 0x00]
      then Inl (PipelineYamlError (''invalid '' @ label @ '': '' @ [quote_char] @ s @ [quote_char] @ '' (path traversal not allowed)''))
      else Inr ())"

definition check_artifact_cache :: "ArtifactsDef option \<Rightarrow> CacheDef option \<Rightarrow> unit result" where
  "check_artifact_cache arts cache =
     and_then
       (case arts of None \<Rightarrow> Inr ()
        | Some a \<Rightarrow> (case upload a of None \<Rightarrow> Inr ()
            | Some u \<Rightarrow> (case upload_name u of None \<Rightarrow> Inr () | Some name \<Rightarrow> validate_path_component name ''artifact name'')))
       (\<lambda>_. case cache of None \<Rightarrow> Inr () | Some c \<Rightarrow> validate_path_component (cache_key c) ''cache key'')"

definition validate_artifact_names :: "PipelineDef \<Rightarrow> unit result" where
  "validate_artifact_names def =
     (if pd_jobs def \<noteq> [] then
        try_for (\<lambda>(job_name, job). and_then (check_artifact_cache (jd_artifacts job) (jd_cache job))
          (\<lambda>_. try_for (\<lambda>step. if trim (js_name step) = [] then
             Inl (PipelineYamlError (''job '' @ [quote_char] @ job_name @ [quote_char] @ '' contains a step with an empty name''))
             else Inr ()) (jd_steps job))) (pd_jobs def)
      else try_for (\<lambda>step. check_artifact_cache (sd_artifacts step) (sd_cache step)) (pd_steps def))"

definition validate_pipeline :: "PipelineDef \<Rightarrow> unit result" where
  "validate_pipeline def =
     and_then (validate_unique_names def) (\<lambda>_. and_then (validate_dag def)
       (\<lambda>_. and_then (validate_matrix_sizes def) (\<lambda>_. validate_artifact_names def)))"

section \<open>What is accepted\<close>

definition job_wf :: "PipelineDef \<Rightarrow> JobDef \<Rightarrow> bool" where
  "job_wf def job \<longleftrightarrow> effective_image job (pd_image def) \<noteq> None
     \<and> set (jd_needs job) \<subseteq> set (tbl_keys (pd_jobs def))
     \<and> (jd_commands job \<noteq> [] \<or> jd_steps job \<noteq> [])
     \<and> distinct (map js_name (jd_steps job))
     \<and> (\<forall>s \<in> set (jd_steps job). trim (js_name s) \<noteq> [] \<and> js_commands s \<noteq> [])"

definition pipeline_wf :: "PipelineDef \<Rightarrow> bool" where
  "pipeline_wf def \<longleftrightarrow> pd_name def \<noteq> []
     \<and> (if pd_jobs def \<noteq> [] then length (pd_jobs def) \<le> 100 \<and> (\<forall>job \<in> set (tbl_values (pd_jobs def)). job_wf def job)
        else pd_steps def \<noteq> [] \<and> length (pd_steps def) \<le> 100
          \<and> (\<forall>s \<in> set (pd_steps def). sd_name s \<noteq> [] \<and> sd_image s \<noteq> []))"

text \<open>A name that is one component of a path and cannot leave its directory.\<close>

definition safe_component :: "string \<Rightarrow> bool" where
  "safe_component s \<longleftrightarrow> s \<noteq> [] \<and> \<not> sublist ''..'' s \<and> set s \<inter> {CHR ''/'', CHR 0x5C, CHR 0x00} = {}"

definition names_safe :: "ArtifactsDef option \<Rightarrow> CacheDef option \<Rightarrow> bool" where
  "names_safe arts cache \<longleftrightarrow>
     (\<forall>a u n. arts = Some a \<and> upload a = Some u \<and> upload_name u = Some n \<longrightarrow> safe_component n)
     \<and> (\<forall>c. cache = Some c \<longrightarrow> safe_component (cache_key c))"

definition matrix_small :: "string list table option \<Rightarrow> bool" where
  "matrix_small matrix \<longleftrightarrow> (\<forall>m. matrix = Some m \<longrightarrow> (\<Prod>v \<leftarrow> tbl_values m. max (length v) 1) mod 2 ^ 64 \<le> 25)"

definition dag_wf :: "PipelineDef \<Rightarrow> bool" where
  "dag_wf def \<longleftrightarrow>
     (if pd_jobs def \<noteq> [] then
        (\<forall>job \<in> set (tbl_values (pd_jobs def)). set (jd_needs job) \<subseteq> set (tbl_keys (pd_jobs def)))
        \<and> acyclic {(n, d). \<exists>job. (n, job) \<in> set (pd_jobs def) \<and> d \<in> set (jd_needs job)}
      else
        distinct (map sd_name (pd_steps def))
        \<and> (\<forall>s \<in> set (pd_steps def). set (sd_needs s) \<subseteq> set (map sd_name (pd_steps def)))
        \<and> acyclic {(n, d). \<exists>s \<in> set (pd_steps def). n = sd_name s \<and> d \<in> set (sd_needs s)})"

section \<open>Lemmas\<close>

lemma check_job_steps_ok:
  "check_job_steps n seen steps = Inr () \<longleftrightarrow> distinct (map js_name steps) \<and> set (map js_name steps) \<inter> set seen = {}
     \<and> (\<forall>s \<in> set steps. trim (js_name s) \<noteq> [] \<and> js_commands s \<noteq> [])"
  by (induction n seen steps rule: check_job_steps.induct) auto

lemma unique_step_names_ok:
  "unique_step_names seen steps = Inr () \<longleftrightarrow> distinct (map sd_name steps) \<and> set (map sd_name steps) \<inter> set seen = {}"
  by (induction seen steps rule: unique_step_names.induct) auto

lemma if_ok_iff: "(if b then Inr () else Inl e) = Inr () \<longleftrightarrow> b" "(if b then Inl e else r) = Inr () \<longleftrightarrow> \<not> b \<and> r = Inr ()"
  by simp_all

lemma and_then_unit: "and_then r f = Inr () \<longleftrightarrow> r = Inr () \<and> f () = Inr ()" for r :: "'e + unit"
  by (cases r) simp_all

lemma try_for_unit: "try_for f xs = Inr () \<longleftrightarrow> (\<forall>x \<in> set xs. f x = Inr ())"
  by (induction xs) (auto split: sum.splits)

lemma ball_values: "(\<forall>v \<in> set (tbl_values t). P v) \<longleftrightarrow> (\<forall>p \<in> set t. P (snd p))"
  by simp

lemmas check_simps = and_then_unit try_for_unit if_ok_iff ball_values

lemma parse_check_job_ok: "parse_check_job def p = Inr () \<longleftrightarrow> job_wf def (snd p)"
  unfolding parse_check_job_def job_wf_def by (cases p) (auto simp: check_simps check_job_steps_ok)

lemma parse_check_step_ok: "parse_check_step s = Inr () \<longleftrightarrow> sd_name s \<noteq> [] \<and> sd_image s \<noteq> []"
  by (simp add: parse_check_step_def)

lemma parse_checks_ok: "parse_checks def = Inr () \<longleftrightarrow> pipeline_wf def"
  unfolding parse_checks_def pipeline_wf_def MAX_STEPS_def
  by (simp add: check_simps parse_check_job_ok parse_check_step_ok not_less del: set_map)

lemma validate_path_component_ok: "validate_path_component s l = Inr () \<longleftrightarrow> safe_component s"
proof -
  have "contains_sub s ''..'' \<longleftrightarrow> sublist ''..'' s" by (simp only: contains_sub_iff sublist_def)
  then show ?thesis unfolding validate_path_component_def safe_component_def contains_sub_single if_ok_iff by blast
qed

lemma check_artifact_cache_ok: "check_artifact_cache arts cache = Inr () \<longleftrightarrow> names_safe arts cache"
  by (auto simp: check_artifact_cache_def names_safe_def and_then_unit validate_path_component_ok split: option.splits)

lemma foldl_mult_mod:
  "foldl (\<lambda>acc v. acc * f v mod k) (a mod k) xs = (a * prod_list (map f xs)) mod k" for a k :: nat
proof (induction xs arbitrary: a)
  case (Cons x xs)
  have "a mod k * f x mod k = (a * f x) mod k" by (simp add: mod_mult_left_eq)
  then show ?case using Cons.IH [of "a * f x"] by (simp add: mult.assoc)
qed simp

lemma matrix_combinations_eq: "matrix_combinations m = (\<Prod>v \<leftarrow> tbl_values m. max (length v) 1) mod 2 ^ 64"
  unfolding matrix_combinations_def
  using foldl_mult_mod [of "\<lambda>v. max (length v) 1" "2 ^ 64" 1 "tbl_values m"] by simp

lemma check_matrix_size_ok: "check_matrix_size k n m = Inr () \<longleftrightarrow> matrix_small m"
  by (auto simp: check_matrix_size_def matrix_small_def matrix_combinations_eq MAX_MATRIX_SIZE_def split: option.splits)

lemma validation_has_cycle_ok:
  assumes "fst ` set m \<subseteq> set ns"
  shows "validation_has_cycle m ns = None \<longleftrightarrow> acyclic (dep_rel m)"
  using cycle_from_decides [OF assms] by (auto simp: validation_has_cycle_def)

lemma keys_tbl_collect: "fst ` set (tbl_collect ps) = fst ` set ps"
proof -
  have "fst ` set (fold (\<lambda>(k, v) t. tbl_insert k v t) ps t) = fst ` set t \<union> fst ` set ps" for t :: "'a table"
    by (induction ps arbitrary: t) (auto simp: keys_tbl_insert split_beta)
  then show ?thesis by (simp add: tbl_collect_def)
qed

lemma tbl_collect_get: "tbl_ok ps \<Longrightarrow> tbl_get (tbl_collect ps) n = Some v \<longleftrightarrow> (n, v) \<in> set ps"
  by (simp add: map_of_tbl_collect map_of_eq_Some_iff rev_map [symmetric])

lemma jobs_adj_rel:
  assumes "tbl_ok (pd_jobs def)"
  shows "dep_rel (jobs_adj def) = {(n, d). \<exists>job. (n, job) \<in> set (pd_jobs def) \<and> d \<in> set (jd_needs job)}"
proof -
  have "map fst (map (\<lambda>(name, job). (name, jd_needs job)) (pd_jobs def)) = tbl_keys (pd_jobs def)" by auto
  then have ok: "tbl_ok (map (\<lambda>(name, job). (name, jd_needs job)) (pd_jobs def))" using assms by (simp only:)
  have "tbl_get (jobs_adj def) n = Some ds \<longleftrightarrow> (\<exists>job. (n, job) \<in> set (pd_jobs def) \<and> ds = jd_needs job)" for n ds
    unfolding jobs_adj_def tbl_collect_get [OF ok] by auto
  then show ?thesis by (auto simp: dep_rel_def)
qed

lemma steps_adj_rel:
  assumes "distinct (map sd_name (pd_steps def))"
  shows "dep_rel (steps_adj def) = {(n, d). \<exists>s \<in> set (pd_steps def). n = sd_name s \<and> d \<in> set (sd_needs s)}"
proof -
  have ok: "tbl_ok (map (\<lambda>s. (sd_name s, sd_needs s)) (pd_steps def))" using assms by (simp add: comp_def)
  have "tbl_get (steps_adj def) n = Some ds \<longleftrightarrow> (\<exists>s \<in> set (pd_steps def). n = sd_name s \<and> ds = sd_needs s)" for n ds
    unfolding steps_adj_def tbl_collect_get [OF ok] by auto
  then show ?thesis by (auto simp: dep_rel_def)
qed

lemma jobs_adj_keys: "fst ` set (jobs_adj def) \<subseteq> set (tbl_keys (pd_jobs def))"
  unfolding jobs_adj_def keys_tbl_collect by force

lemma steps_adj_keys: "fst ` set (steps_adj def) \<subseteq> set (map sd_name (pd_steps def))"
  unfolding steps_adj_def keys_tbl_collect by force

lemma validate_dag_ok:
  assumes "tbl_ok (pd_jobs def)"
  shows "validate_unique_names def = Inr () \<and> validate_dag def = Inr () \<longleftrightarrow> dag_wf def"
proof (cases "pd_jobs def = []")
  case True
  have "validate_dag def = Inr () \<longleftrightarrow>
      (\<forall>s \<in> set (pd_steps def). set (sd_needs s) \<subseteq> set (map sd_name (pd_steps def))) \<and> acyclic (dep_rel (steps_adj def))"
    using True validation_has_cycle_ok [OF steps_adj_keys, of def]
    by (auto simp: validate_dag_def check_simps split: option.splits)
  then show ?thesis
    using True steps_adj_rel [of def]
    by (auto simp: dag_wf_def validate_unique_names_def unique_step_names_ok)
next
  case False
  have "validate_dag def = Inr () \<longleftrightarrow>
      (\<forall>p \<in> set (pd_jobs def). set (jd_needs (snd p)) \<subseteq> set (tbl_keys (pd_jobs def))) \<and> acyclic (dep_rel (jobs_adj def))"
    using False validation_has_cycle_ok [OF jobs_adj_keys, of def]
    by (auto simp: validate_dag_def check_simps split_beta split: option.splits)
  then show ?thesis
    using False jobs_adj_rel [OF assms] by (simp add: dag_wf_def validate_unique_names_def)
qed

lemma validate_matrix_sizes_ok:
  "validate_matrix_sizes def = Inr () \<longleftrightarrow>
     (if pd_jobs def \<noteq> [] then \<forall>p \<in> set (pd_jobs def). matrix_small (jd_matrix (snd p))
      else \<forall>s \<in> set (pd_steps def). matrix_small (sd_matrix s))"
  by (simp add: validate_matrix_sizes_def check_simps check_matrix_size_ok split_beta)

lemma validate_artifact_names_ok:
  "validate_artifact_names def = Inr () \<longleftrightarrow>
     (if pd_jobs def \<noteq> [] then \<forall>p \<in> set (pd_jobs def). names_safe (jd_artifacts (snd p)) (jd_cache (snd p))
          \<and> (\<forall>s \<in> set (jd_steps (snd p)). trim (js_name s) \<noteq> [])
      else \<forall>s \<in> set (pd_steps def). names_safe (sd_artifacts s) (sd_cache s))"
  by (simp add: validate_artifact_names_def check_simps check_artifact_cache_ok split_beta)

section \<open>Sample pipeline\<close>

definition sample_jobdef :: "string list \<Rightarrow> JobDef" where
  "sample_jobdef needs = \<lparr>jd_image = None, jd_needs = needs, jd_commands = [''make''], jd_steps = [], jd_env = [],
     jd_paths = [], jd_cache = None, jd_artifacts = None, jd_resources = None, jd_matrix = None, jd_condition = None,
     jd_failure_strategy = None, jd_timeout = None, jd_release = None, jd_registry = None\<rparr>"

definition sample_pipeline :: PipelineDef where
  "sample_pipeline = \<lparr>pd_name = ''ci'', pd_image = Some ''alpine'', pd_checkout = \<lparr>submodules = False\<rparr>,
     pd_on = \<lparr>trig_push = None, trig_pull_request = None, trig_manual = True, trig_schedule = []\<rparr>, pd_env = [],
     pd_services = [], pd_secrets = [], pd_jobs = [(''b'', sample_jobdef [''a'']), (''a'', sample_jobdef [])],
     pd_steps = [], pd_webhook = []\<rparr>"

section \<open>Properties\<close>

text \<open>
  C31. What the parser accepts: exactly the definitions the YAML reader returns that have a name,
  between 1 and 100 jobs (or steps), an image for each, known \<open>needs\<close>, something to run in each
  job, and named, non-empty, distinct steps in it. The definition is returned unchanged.
\<close>

theorem parse_pipeline_accepts:
  "parse_pipeline from_str y = Inr def \<longleftrightarrow> from_str y = Inr def \<and> pipeline_wf def"
proof (cases "from_str y")
  case (Inr d)
  have "parse_pipeline from_str y = Inr def \<longleftrightarrow> parse_checks d = Inr () \<and> d = def"
    by (cases "parse_checks d") (simp_all add: parse_pipeline_def Inr)
  then show ?thesis using Inr parse_checks_ok by auto
qed (simp add: parse_pipeline_def)

text \<open>
  C32. What the validator accepts: exactly the pipelines whose dependencies name existing jobs (or
  distinctly named steps) and have no cycle, whose matrices have at most 25 combinations as
  counted in 64-bit arithmetic, and whose artifact names and cache keys are single path
  components without \<open>..\<close>.
\<close>

theorem validate_pipeline_accepts:
  assumes "tbl_ok (pd_jobs def)"
  shows "validate_pipeline def = Inr () \<longleftrightarrow> dag_wf def
    \<and> (if pd_jobs def \<noteq> [] then \<forall>(name, job) \<in> set (pd_jobs def). matrix_small (jd_matrix job)
          \<and> names_safe (jd_artifacts job) (jd_cache job) \<and> (\<forall>s \<in> set (jd_steps job). trim (js_name s) \<noteq> [])
       else \<forall>s \<in> set (pd_steps def). matrix_small (sd_matrix s) \<and> names_safe (sd_artifacts s) (sd_cache s))"
proof -
  have "validate_pipeline def = Inr () \<longleftrightarrow>
      dag_wf def \<and> validate_matrix_sizes def = Inr () \<and> validate_artifact_names def = Inr ()"
    unfolding validate_pipeline_def check_simps using validate_dag_ok [OF assms] by blast
  then show ?thesis
    unfolding validate_matrix_sizes_ok validate_artifact_names_ok by (simp add: split_beta) blast
qed

theorem validate_pipeline_accepts_witness:
  "tbl_ok (pd_jobs sample_pipeline) \<and> validate_pipeline sample_pipeline = Inr () \<and> dag_wf sample_pipeline"
proof -
  have ok: "tbl_ok (pd_jobs sample_pipeline)" by (simp add: sample_pipeline_def)
  have "validate_pipeline sample_pipeline = Inr ()" by code_simp
  then show ?thesis using ok validate_pipeline_accepts [OF ok] by blast
qed

end
