(* ===== verification/Pipeline_Matrix.thy ===== *)
theory Pipeline_Matrix
  imports Pipeline_Validation
begin

text \<open>
  Matrix expansion (\<open>muli-pipeline/src/dag/matrix.rs\<close>). The loop over the dimensions is \<open>combine\<close>; it
  is proved equal to the cartesian product \<open>product_lists\<close>. \<open>str::to_uppercase\<close> (Unicode case
  mapping) is the parameter \<open>upper\<close>. A JSON object with string values is a table.
\<close>

definition MAX_MATRIX_COMBINATIONS :: nat where
  "MAX_MATRIX_COMBINATIONS = 25"

definition combine :: "string list list \<Rightarrow> string list list" where
  "combine values =
     foldl (\<lambda>combinations vals. concat (map (\<lambda>combo. map (\<lambda>v. combo @ [v]) vals) combinations)) [[]] values"

definition matrix_suffix :: "string list \<Rightarrow> string list \<Rightarrow> string" where
  "matrix_suffix keys combo = join '', '' (map (\<lambda>(k, v). k @ ''='' @ v) (zip keys combo))"

definition too_many_combinations :: "string \<Rightarrow> string \<Rightarrow> nat \<Rightarrow> MuliError" where
  "too_many_combinations kind name n = PipelineYamlError (kind @ '' '' @ [quote_char] @ name @ [quote_char]
     @ '' matrix produces '' @ show_nat n @ '' combinations (max 25)'')"

definition expand_matrix :: "(string \<Rightarrow> string) \<Rightarrow> StepDef \<Rightarrow> StepDef list result" where
  "expand_matrix upper step =
     (case sd_matrix step of
        None \<Rightarrow> Inr [step]
      | Some matrix \<Rightarrow>
          if matrix = [] then Inr [step]
          else
            let keys = tbl_keys matrix;
                combinations = combine (tbl_values matrix)
            in if MAX_MATRIX_COMBINATIONS < length combinations
               then Inl (too_many_combinations ''step'' (sd_name step) (length combinations))
               else Inr (map (\<lambda>combo. step\<lparr>
                   sd_name := sd_name step @ '' ('' @ matrix_suffix keys combo @ '')'',
                   sd_env := foldl (\<lambda>env (key, val). tbl_insert (upper key) val env) (sd_env step) (zip keys combo),
                   sd_matrix := None\<rparr>) combinations))"

definition expand_job_matrix :: "string \<Rightarrow> JobDef \<Rightarrow> (string \<times> string table option) list result" where
  "expand_job_matrix job_name job =
     (case jd_matrix job of
        None \<Rightarrow> Inr [(job_name, None)]
      | Some matrix \<Rightarrow>
          if matrix = [] then Inr [(job_name, None)]
          else
            let keys = tbl_keys matrix;
                combinations = combine (tbl_values matrix)
            in if MAX_MATRIX_COMBINATIONS < length combinations
               then Inl (too_many_combinations ''job'' job_name (length combinations))
               else Inr (map (\<lambda>combo. (job_name @ '' ('' @ matrix_suffix keys combo @ '')'',
                   Some (foldl (\<lambda>mv (key, val). tbl_insert key val mv) [] (zip keys combo)))) combinations))"

section \<open>Lemmas\<close>

lemma extend_one:
  "concat (map (\<lambda>c. map ((@) c) ps) (map (\<lambda>v. c @ [v]) vals)) = map ((@) c) (concat (map (\<lambda>x. map (Cons x) ps) vals))"
  by (induction vals) simp_all

lemma extend_all:
  "concat (map (\<lambda>c. map ((@) c) ps) (concat (map (\<lambda>c. map (\<lambda>v. c @ [v]) vals) cs)))
     = concat (map (\<lambda>c. map ((@) c) (concat (map (\<lambda>x. map (Cons x) ps) vals))) cs)"
proof (induction cs)
  case (Cons c cs)
  then show ?case using extend_one [of ps c vals] by (simp del: map_map)
qed simp

lemma combine_from:
  "foldl (\<lambda>cs vals. concat (map (\<lambda>c. map (\<lambda>v. c @ [v]) vals) cs)) cs vss
     = concat (map (\<lambda>c. map ((@) c) (product_lists vss)) cs)"
proof (induction vss arbitrary: cs)
  case Nil
  show ?case by (induction cs) simp_all
next
  case (Cons vals vss)
  show ?case
    unfolding foldl_Cons Cons.IH extend_all product_lists.simps ..
qed

lemma combine_product: "combine vss = product_lists vss"
  unfolding combine_def combine_from by (simp add: map_idI)

lemma length_product_lists: "length (product_lists vss) = prod_list (map length vss)"
  by (induction vss) (simp_all add: length_concat comp_def sum_list_triv)

lemma object_zip:
  assumes "distinct keys" and "length keys = length vals"
  shows "map_of (foldl (\<lambda>mv (key, val). tbl_insert key val mv) [] (zip keys vals)) = map_of (zip keys vals)"
proof -
  have "foldl (\<lambda>mv (key, val). tbl_insert key val mv) [] (zip keys vals) = tbl_collect (zip keys vals)"
    unfolding tbl_collect_def foldl_conv_fold by (intro fold_cong) auto
  moreover have "map_of (rev (zip keys vals)) = map_of (zip keys vals)"
    using assms by (intro map_of_inject_set [THEN iffD2]) (simp_all add: rev_map [symmetric])
  ultimately show ?thesis by (simp add: map_of_tbl_collect)
qed

text \<open>The choices a matrix describes: a value of its dimension for every key.\<close>

definition matrix_choices :: "string list table \<Rightarrow> (string \<rightharpoonup> string) set" where
  "matrix_choices m = {f. dom f = set (tbl_keys m) \<and> (\<forall>(k, vs) \<in> set m. \<exists>v \<in> set vs. f k = Some v)}"

lemma product_choices:
  "tbl_ok m \<Longrightarrow> (\<lambda>combo. map_of (zip (tbl_keys m) combo)) ` set (product_lists (tbl_values m)) = matrix_choices m"
proof (induction m)
  case Nil
  show ?case by (auto simp: matrix_choices_def)
next
  case (Cons p m)
  obtain k vs where p: "p = (k, vs)" by (cases p)
  have IH: "(\<lambda>combo. map_of (zip (tbl_keys m) combo)) ` set (product_lists (tbl_values m)) = matrix_choices m"
    and k: "k \<notin> set (tbl_keys m)" using Cons p by auto
  have "(\<lambda>combo. map_of (zip (tbl_keys (p # m)) combo)) ` set (product_lists (tbl_values (p # m)))
      = (\<Union>v \<in> set vs. (\<lambda>g. g(k \<mapsto> v)) ` matrix_choices m)"
    unfolding IH [symmetric] by (simp add: p image_UN image_image)
  moreover have "(\<exists>v \<in> set vs. \<exists>g \<in> matrix_choices m. f = g(k \<mapsto> v)) \<longleftrightarrow> f \<in> matrix_choices (p # m)" for f
  proof
    assume "\<exists>v \<in> set vs. \<exists>g \<in> matrix_choices m. f = g(k \<mapsto> v)"
    then show "f \<in> matrix_choices (p # m)" using k by (force simp: matrix_choices_def p)
  next
    assume f: "f \<in> matrix_choices (p # m)"
    then obtain v where v: "v \<in> set vs" "f k = Some v" by (auto simp: matrix_choices_def p)
    have "f(k := None) \<in> matrix_choices m" using f k by (force simp: matrix_choices_def p)
    moreover have "f = (f(k := None))(k \<mapsto> v)" using v(2) by (simp add: fun_upd_idem)
    ultimately show "\<exists>v \<in> set vs. \<exists>g \<in> matrix_choices m. f = g(k \<mapsto> v)" using v(1) by blast
  qed
  moreover have "(\<Union>v \<in> set vs. (\<lambda>g. g(k \<mapsto> v)) ` matrix_choices m) = {f. \<exists>v \<in> set vs. \<exists>g \<in> matrix_choices m. f = g(k \<mapsto> v)}"
    by blast
  ultimately show ?case by simp
qed

section \<open>Properties\<close>

text \<open>
  C20. A matrix expands to exactly its combinations: the product of the sizes of its dimensions
  in number, each run's values choosing one value of every dimension, every such choice
  present; more than 25 are refused. For a matrix without empty dimensions whose product fits
  64 bits, this is exactly what the validator lets through.
\<close>

theorem expand_job_matrix_exact:
  assumes "jd_matrix job = Some m" and "m \<noteq> []" and "tbl_ok m"
  defines "n \<equiv> prod_list (map length (tbl_values m))"
  shows "(is_ok (expand_job_matrix name job) \<longleftrightarrow> n \<le> 25)
    \<and> (\<forall>runs. expand_job_matrix name job = Inr runs \<longrightarrow> length runs = n
         \<and> (\<lambda>(_, mv). case mv of None \<Rightarrow> Map.empty | Some obj \<Rightarrow> map_of obj) ` set runs = matrix_choices m)
    \<and> ([] \<notin> set (tbl_values m) \<and> n < 2 ^ 64 \<longrightarrow>
         (is_ok (expand_job_matrix name job) \<longleftrightarrow> check_matrix_size ''job'' name (jd_matrix job) = Inr ()))"
proof -
  let ?keys = "tbl_keys m" and ?cs = "product_lists (tbl_values m)"
  let ?obj = "\<lambda>combo. foldl (\<lambda>mv (key, val). tbl_insert key val mv) [] (zip ?keys combo)"
  have len: "length ?cs = n" by (simp add: n_def length_product_lists)
  have e: "expand_job_matrix name job = (if 25 < n then Inl (too_many_combinations ''job'' name n)
      else Inr (map (\<lambda>combo. (name @ '' ('' @ matrix_suffix ?keys combo @ '')'', Some (?obj combo))) ?cs))"
    by (simp add: expand_job_matrix_def assms(1,2) combine_product Let_def len MAX_MATRIX_COMBINATIONS_def)
  have "map_of (?obj combo) = map_of (zip ?keys combo)" if "combo \<in> set ?cs" for combo
    using in_set_product_lists_length [OF that] assms(3) by (intro object_zip) simp_all
  then have "(\<lambda>combo. map_of (?obj combo)) ` set ?cs = matrix_choices m"
    unfolding product_choices [OF assms(3), symmetric] by (intro image_cong) simp_all
  then have runs: "(\<lambda>(_, mv). case mv of None \<Rightarrow> Map.empty | Some obj \<Rightarrow> map_of obj) `
      set (map (\<lambda>combo. (name @ '' ('' @ matrix_suffix ?keys combo @ '')'', Some (?obj combo))) ?cs) = matrix_choices m"
    by (simp add: image_image)
  have "[] \<notin> set (tbl_values m) \<Longrightarrow> map (\<lambda>v. max (length v) 1) (tbl_values m) = map length (tbl_values m)"
    by (intro map_cong [OF refl] max_absorb1) (metis One_nat_def Suc_leI length_greater_0_conv)
  then have "[] \<notin> set (tbl_values m) \<and> n < 2 ^ 64 \<Longrightarrow>
      check_matrix_size ''job'' name (jd_matrix job) = Inr () \<longleftrightarrow> n \<le> 25"
    by (simp add: check_matrix_size_ok matrix_small_def assms(1) n_def del: map_map map_eq_conv)
  moreover have "is_ok (expand_job_matrix name job) \<longleftrightarrow> n \<le> 25" by (simp add: e)
  moreover have "length r = n \<and> (\<lambda>(_, mv). case mv of None \<Rightarrow> Map.empty | Some obj \<Rightarrow> map_of obj) ` set r = matrix_choices m"
    if "expand_job_matrix name job = Inr r" for r
  proof -
    from that have "r = map (\<lambda>combo. (name @ '' ('' @ matrix_suffix ?keys combo @ '')'', Some (?obj combo))) ?cs"
      unfolding e by (simp split: if_splits)
    then show ?thesis using runs len by (simp only: length_map)
  qed
  ultimately show ?thesis by blast
qed

theorem expand_job_matrix_exact_witness:
  "is_ok (expand_job_matrix ''t'' ((sample_jobdef [])\<lparr>jd_matrix := Some [(''os'', [''a'', ''b'']), (''v'', [''1''])]\<rparr>))
   \<and> expand_job_matrix ''t'' ((sample_jobdef [])\<lparr>jd_matrix := Some [(''os'', [''a'', ''b'']), (''v'', [''1''])]\<rparr>)
     = Inr [(''t (os=a, v=1)'', Some [(''os'', ''a''), (''v'', ''1'')]), (''t (os=b, v=1)'', Some [(''os'', ''b''), (''v'', ''1'')])]"
proof -
  let ?m = "[(''os'', [''a'', ''b'']), (''v'', [''1''])]"
  have "jd_matrix ((sample_jobdef [])\<lparr>jd_matrix := Some ?m\<rparr>) = Some ?m" "?m \<noteq> []" "tbl_ok ?m" by simp_all
  note ok = expand_job_matrix_exact [OF this, of "''t''"]
  have "prod_list (map length (tbl_values ?m)) \<le> 25" by simp
  with ok have "is_ok (expand_job_matrix ''t'' ((sample_jobdef [])\<lparr>jd_matrix := Some ?m\<rparr>))" by blast
  moreover have "expand_job_matrix ''t'' ((sample_jobdef [])\<lparr>jd_matrix := Some ?m\<rparr>)
     = Inr [(''t (os=a, v=1)'', Some [(''os'', ''a''), (''v'', ''1'')]), (''t (os=b, v=1)'', Some [(''os'', ''b''), (''v'', ''1'')])]"
    by (simp add: expand_job_matrix_def combine_def matrix_suffix_def MAX_MATRIX_COMBINATIONS_def)
  ultimately show ?thesis by blast
qed

text \<open>
  Where the two counts differ. A matrix with an empty dimension passes the validator, which
  counts the dimension as one value, and expands to no run at all: the job disappears from the
  pipeline. And 64 dimensions of two values pass the validator because their product wraps
  to 0, while the expansion would build \<open>2 ^ 64\<close> combinations before it refuses them.
\<close>

theorem matrix_validation_gap:
  "(\<forall>job. jd_matrix job = Some [(''os'', []), (''v'', [''1''])] \<longrightarrow>
      check_matrix_size ''job'' name (jd_matrix job) = Inr () \<and> expand_job_matrix name job = Inr [])
   \<and> (\<forall>m. length m = 64 \<and> (\<forall>vs \<in> set (tbl_values m). length vs = 2) \<longrightarrow>
      check_matrix_size ''job'' name (Some m) = Inr () \<and> length (combine (tbl_values m)) = 2 ^ 64)"
proof -
  have pow: "prod_list (map f xs) = 2 ^ length xs" if "\<forall>x \<in> set xs. f x = 2" for f and xs :: "string list list"
    using that by (induction xs) simp_all
  have "check_matrix_size ''job'' name (Some m) = Inr () \<and> length (combine (tbl_values m)) = 2 ^ 64"
    if "length m = 64" "\<forall>vs \<in> set (tbl_values m). length vs = 2" for m
  proof -
    have "prod_list (map length (tbl_values m)) = 2 ^ length (tbl_values m)" by (rule pow [OF that(2)])
    moreover have "prod_list (map (\<lambda>v. max (length v) 1) (tbl_values m)) = 2 ^ length (tbl_values m)"
      by (rule pow) (use that(2) in auto)
    ultimately show ?thesis
      by (simp only: check_matrix_size_ok matrix_small_def combine_product length_product_lists that(1) length_map) simp
  qed
  moreover have "check_matrix_size ''job'' name (jd_matrix job) = Inr () \<and> expand_job_matrix name job = Inr []"
    if "jd_matrix job = Some [(''os'', []), (''v'', [''1''])]" for job
    using that by (simp add: check_matrix_size_ok matrix_small_def expand_job_matrix_def combine_def MAX_MATRIX_COMBINATIONS_def)
  ultimately show ?thesis by blast
qed

theorem matrix_validation_gap_witness:
  "expand_job_matrix ''t'' ((sample_jobdef [])\<lparr>jd_matrix := Some [(''os'', []), (''v'', [''1''])]\<rparr>) = Inr []
   \<and> check_matrix_size ''job'' ''t'' (Some (map (\<lambda>i. (show_nat i, [''0'', ''1''])) [0..<64])) = Inr ()"
  using matrix_validation_gap [of "''t''"] by simp

end
