(* ===== verification/Pipeline_Trigger.thy ===== *)
theory Pipeline_Trigger
  imports Pipeline_Schema
begin

text \<open>
  When a pipeline and its jobs run, and what is substituted into their commands: event matching
  (\<open>muli-pipeline/src/trigger/matcher.rs\<close>), the \<open>if:\<close> conditions (\<open>yaml/expression.rs\<close>) and the
  \<open>${{ ... }}\<close> interpolation (\<open>yaml/interpolation.rs\<close>).
\<close>

section \<open>Event matching\<close>

datatype PipelineEvent =
    Push string "string list"
  | Tag string "string list"
  | PullRequest string string
  | Manual
  | Schedule string

definition matches_glob :: "string \<Rightarrow> string \<Rightarrow> bool" where
  "matches_glob pattern value =
     (if pattern = ''*'' then True
      else case strip_suffix pattern ''**'' of Some pre \<Rightarrow> starts_with value pre
        | None \<Rightarrow> (case strip_suffix pattern ''*'' of Some pre \<Rightarrow> starts_with value pre
            | None \<Rightarrow> pattern = value))"

definition matches_any_path :: "string list \<Rightarrow> string list \<Rightarrow> bool" where
  "matches_any_path patterns changed_paths =
     list_ex (\<lambda>pattern. list_ex (\<lambda>path. matches_glob pattern path) changed_paths) patterns"

fun matches_trigger :: "TriggerDef \<Rightarrow> PipelineEvent \<Rightarrow> bool" where
  "matches_trigger trigger (Push branch changed_paths) =
     (case trig_push trigger of None \<Rightarrow> False
      | Some p \<Rightarrow>
          if push_tags p \<noteq> [] \<and> push_branches p = [] then False
          else (push_branches p = [] \<or> list_ex (\<lambda>b. matches_glob b branch) (push_branches p))
            \<and> (push_paths p = [] \<or> matches_any_path (push_paths p) changed_paths))"
| "matches_trigger trigger (Tag tag changed_paths) =
     (case trig_push trigger of None \<Rightarrow> False
      | Some p \<Rightarrow>
          if push_tags p = [] then False
          else list_ex (\<lambda>t. matches_glob t tag) (push_tags p)
            \<and> (push_paths p = [] \<or> matches_any_path (push_paths p) changed_paths))"
| "matches_trigger trigger (PullRequest target_branch ev) =
     (case trig_pull_request trigger of None \<Rightarrow> False
      | Some pr \<Rightarrow> (pr_branches pr = [] \<or> list_ex (\<lambda>b. matches_glob b target_branch) (pr_branches pr))
          \<and> (pr_events pr = [] \<or> list_ex (\<lambda>e. e = ev) (pr_events pr)))"
| "matches_trigger trigger Manual = trig_manual trigger"
| "matches_trigger trigger (Schedule c) = list_ex (\<lambda>s. cron s = c) (trig_schedule trigger)"

section \<open>Conditions\<close>

record ExpressionContext =
  ctx_branch :: string
  ctx_event :: string
  ctx_tag :: "string option"

definition MAX_CONDITION_LENGTH :: nat where
  "MAX_CONDITION_LENGTH = 512"

definition MAX_CONDITION_PARTS :: nat where
  "MAX_CONDITION_PARTS = 10"

definition unquote :: "string \<Rightarrow> string" where
  "unquote s = trim_matches (CHR 0x22) (trim_matches quote_char s)"

definition evaluate_single :: "string \<Rightarrow> ExpressionContext \<Rightarrow> bool" where
  "evaluate_single expr0 ctx =
     (let expr = trim expr0
      in case split_once expr ''=='' of
           Some (lhs0, rhs0) \<Rightarrow>
             (let lhs = trim lhs0; rhs = unquote (trim rhs0)
              in if lhs = ''branch'' then ctx_branch ctx = rhs
                 else if lhs = ''event'' then ctx_event ctx = rhs
                 else if lhs = ''tag'' then ctx_tag ctx = Some rhs
                 else False)
         | None \<Rightarrow>
             (case split_once expr ''!='' of
                Some (lhs0, rhs0) \<Rightarrow>
                  (let lhs = trim lhs0; rhs = unquote (trim rhs0)
                   in if lhs = ''branch'' then ctx_branch ctx \<noteq> rhs
                      else if lhs = ''event'' then ctx_event ctx \<noteq> rhs
                      else if lhs = ''tag'' then ctx_tag ctx \<noteq> Some rhs
                      else False)
              | None \<Rightarrow> True))"

definition evaluate_condition :: "string \<Rightarrow> ExpressionContext \<Rightarrow> bool" where
  "evaluate_condition expr ctx =
     (if MAX_CONDITION_LENGTH < length expr then False
      else let parts = split_sub expr ''&&''
           in if MAX_CONDITION_PARTS < length parts then False
              else list_all (\<lambda>part. evaluate_single (trim part) ctx) parts)"

section \<open>Interpolation\<close>

definition lookup_reference :: "string table \<Rightarrow> string table \<Rightarrow> string \<Rightarrow> string option" where
  "lookup_reference secrets env expr =
     (case strip_prefix expr ''secrets.'' of Some name \<Rightarrow> tbl_get secrets (trim name)
      | None \<Rightarrow> (case strip_prefix expr ''env.'' of Some name \<Rightarrow> tbl_get env (trim name) | None \<Rightarrow> None))"

function interpolate :: "string \<Rightarrow> string table \<Rightarrow> string table \<Rightarrow> string" where
  "interpolate remaining secrets env =
     (case find_sub remaining ''${{'' of None \<Rightarrow> remaining
      | Some start \<Rightarrow>
          let after_start = drop (start + 3) remaining
          in case find_sub after_start ''}}'' of
               Some end_ \<Rightarrow>
                 take start remaining
                 @ (case lookup_reference secrets env (trim (take end_ after_start)) of
                      Some val \<Rightarrow> val
                    | None \<Rightarrow> take (3 + end_ + 2) (drop start remaining))
                 @ interpolate (drop (end_ + 2) after_start) secrets env
             | None \<Rightarrow> take start remaining @ drop start remaining)"
  by pat_completeness auto
termination
  by (relation "measure (\<lambda>(r, _, _). length r)") (auto dest!: find_sub_Some)

declare interpolate.simps [simp del]

text \<open>
  The pieces of a template, which depend on its text only: literal text, and references with
  the raw text and the expression in the braces.
\<close>

datatype piece = Lit string | Ref string string

function pieces :: "string \<Rightarrow> piece list" where
  "pieces s =
     (case find_sub s ''${{'' of None \<Rightarrow> [Lit s]
      | Some i \<Rightarrow>
          (case find_sub (drop (i + 3) s) ''}}'' of None \<Rightarrow> [Lit s]
           | Some j \<Rightarrow> Lit (take i s) # Ref (take (3 + j + 2) (drop i s)) (trim (take j (drop (i + 3) s)))
               # pieces (drop (j + 2) (drop (i + 3) s))))"
  by pat_completeness auto
termination
  by (relation "measure length") (auto dest!: find_sub_Some)

declare pieces.simps [simp del]

fun piece_text :: "piece \<Rightarrow> string" where
  "piece_text (Lit s) = s"
| "piece_text (Ref raw e) = raw"

fun piece_value :: "string table \<Rightarrow> string table \<Rightarrow> piece \<Rightarrow> string" where
  "piece_value secrets env (Lit s) = s"
| "piece_value secrets env (Ref raw e) = (case lookup_reference secrets env e of Some v \<Rightarrow> v | None \<Rightarrow> raw)"

section \<open>Lemmas\<close>

lemma strip_suffix_cases: "strip_suffix s p = (if suffix p s then Some (take (length s - length p) s) else None)"
  by (simp add: strip_suffix_def ends_with_suffix)

lemma matches_glob_eq:
  "matches_glob p v \<longleftrightarrow>
     (if suffix ''**'' p then prefix (take (length p - 2) p) v
      else if suffix ''*'' p then prefix (take (length p - 1) p) v else p = v)"
  by (auto simp: matches_glob_def strip_suffix_cases starts_with_prefix numeral_2_eq_2)

lemma interpolate_pieces: "interpolate s secrets env = concat (map (piece_value secrets env) (pieces s))"
proof (induction s secrets env rule: interpolate.induct)
  case (1 s secrets env)
  show ?case
  proof (cases "find_sub s ''${{''")
    case None
    then show ?thesis by (simp add: interpolate.simps [of s] pieces.simps [of s])
  next
    case (Some i)
    show ?thesis
    proof (cases "find_sub (drop (i + 3) s) ''}}''")
      case None
      then show ?thesis using Some by (simp add: interpolate.simps [of s] pieces.simps [of s])
    next
      case j: (Some j)
      from "1.IH" [OF Some refl j] show ?thesis
        using Some j by (simp add: interpolate.simps [of s] pieces.simps [of s] Let_def split: option.splits)
    qed
  qed
qed

lemma pieces_text: "concat (map piece_text (pieces s)) = s"
proof (induction s rule: pieces.induct)
  case (1 s)
  show ?case
  proof (cases "find_sub s ''${{''")
    case None
    then show ?thesis by (simp add: pieces.simps [of s])
  next
    case (Some i)
    show ?thesis
    proof (cases "find_sub (drop (i + 3) s) ''}}''")
      case None
      then show ?thesis using Some by (simp add: pieces.simps [of s])
    next
      case j: (Some j)
      have "s = take i s @ take (3 + j + 2) (drop i s) @ drop (j + 2) (drop (i + 3) s)"
        by (metis add.assoc add.commute append_take_drop_id drop_drop)
      with "1.IH" [OF Some j] show ?thesis
        using Some j by (simp add: pieces.simps [of s])
    qed
  qed
qed

lemma split_sub_first:
  assumes "find_sub (a @ p @ b) p = Some (length a)" and "p \<noteq> []"
  shows "split_sub (a @ p @ b) p = a # split_sub b p"
  using assms by (subst split_sub.simps) simp

text \<open>In \<open>a && b\<close> the first separator is the one after \<open>a\<close>.\<close>

lemma find_and:
  assumes "\<not> contains_sub a ''&&''" and "a = [] \<or> last a \<noteq> CHR ''&''"
  shows "find_sub (a @ ''&&'' @ b) ''&&'' = Some (length a)"
  using assms
proof (induction a)
  case (Cons c a)
  have "\<not> starts_with (c # a @ ''&&'' @ b) ''&&''"
  proof
    assume "starts_with (c # a @ ''&&'' @ b) ''&&''"
    then have c: "c = CHR ''&''" and r: "starts_with (a @ ''&&'' @ b) ''&''" by (auto simp: starts_with_def)
    show False
    proof (cases a)
      case Nil
      then show ?thesis using c Cons.prems(2) by simp
    next
      case a: (Cons d a')
      then have "c # a = [] @ ''&&'' @ a'" using c r by (simp add: starts_with_def)
      then show ?thesis using Cons.prems(1) unfolding contains_sub_iff by blast
    qed
  qed
  moreover have "find_sub (a @ ''&&'' @ b) ''&&'' = Some (length a)"
  proof (rule Cons.IH)
    show "\<not> contains_sub a ''&&''"
      using Cons.prems(1) unfolding contains_sub_iff by (metis append_Cons)
    show "a = [] \<or> last a \<noteq> CHR ''&''" using Cons.prems(2) by auto
  qed
  ultimately show ?case by simp
qed (simp add: starts_with_def)

lemma split_sub_none: "\<not> contains_sub a p \<Longrightarrow> split_sub a p = [a]"
  by (subst split_sub.simps) (simp add: contains_sub_def)

lemma starts_with_Cons: "starts_with (c # s) (d # p) \<longleftrightarrow> c = d \<and> starts_with s p" "starts_with s []" "\<not> starts_with [] (d # p)"
  by (simp_all add: starts_with_def)

lemma dropWhile_stop: "s = [] \<or> \<not> P (hd s) \<Longrightarrow> dropWhile P s = s"
  by (cases s) auto

lemma trim_matches_id: "s = [] \<or> (hd s \<noteq> c \<and> last s \<noteq> c) \<Longrightarrow> trim_matches c s = s"
  by (auto simp: trim_matches_def dropWhile_stop hd_rev)

lemma unquote_quoted:
  assumes "v = [] \<or> (hd v \<notin> {quote_char, CHR 0x22} \<and> last v \<notin> {quote_char, CHR 0x22})"
  shows "unquote (quote_char # v @ [quote_char]) = v"
proof -
  have "trim_matches quote_char (quote_char # v @ [quote_char]) = trim_matches quote_char v"
    using assms by (cases "v = []") (auto simp: trim_matches_def dropWhile_stop hd_rev)
  then show ?thesis using assms by (auto simp: unquote_def trim_matches_id)
qed

lemma not_contains_append:
  "\<not> contains_sub (p @ v) q \<Longrightarrow> \<not> contains_sub v q"
  unfolding contains_sub_iff by (metis append.assoc)

section \<open>Properties\<close>


text \<open>
  Conditions. \<open>a && b\<close> holds exactly when both sides do (within the limits of 512 bytes and 10
  parts); \<open>branch == 'v'\<close> compares the branch with \<open>v\<close>; and on a run without a tag,
  \<open>tag == ''\<close> is false and \<open>tag != ''\<close> is true.
\<close>

theorem evaluate_condition_meaning:
  "(length (a @ ''&&'' @ b) \<le> 512 \<and> length (split_sub (a @ ''&&'' @ b) ''&&'') \<le> 10
      \<and> \<not> contains_sub a ''&&'' \<and> (a = [] \<or> last a \<noteq> CHR ''&'') \<longrightarrow>
      (evaluate_condition (a @ ''&&'' @ b) ctx \<longleftrightarrow> evaluate_condition a ctx \<and> evaluate_condition b ctx))
   \<and> (v = [] \<or> hd v \<notin> {quote_char, CHR 0x22} \<and> last v \<notin> {quote_char, CHR 0x22} \<longrightarrow>
      (evaluate_single (''branch == '' @ [quote_char] @ v @ [quote_char]) ctx \<longleftrightarrow> ctx_branch ctx = v))
   \<and> (ctx_tag ctx = None \<longrightarrow>
      \<not> evaluate_condition (''tag == '' @ [quote_char, quote_char]) ctx
      \<and> evaluate_condition (''tag != '' @ [quote_char, quote_char]) ctx)"
proof -
  have conj: "evaluate_condition (a @ ''&&'' @ b) ctx \<longleftrightarrow> evaluate_condition a ctx \<and> evaluate_condition b ctx"
    if h: "length (a @ ''&&'' @ b) \<le> 512" "length (split_sub (a @ ''&&'' @ b) ''&&'') \<le> 10"
      "\<not> contains_sub a ''&&''" "a = [] \<or> last a \<noteq> CHR ''&''"
  proof -
    have s: "split_sub (a @ ''&&'' @ b) ''&&'' = a # split_sub b ''&&''"
      using split_sub_first [OF find_and [OF h(3,4), of b]] by simp
    show ?thesis
      using h unfolding evaluate_condition_def s split_sub_none [OF h(3)]
      by (simp add: MAX_CONDITION_LENGTH_def MAX_CONDITION_PARTS_def Let_def)
  qed
  have single: "evaluate_single (''branch == '' @ [quote_char] @ v @ [quote_char]) ctx \<longleftrightarrow> ctx_branch ctx = v"
    if "v = [] \<or> hd v \<notin> {quote_char, CHR 0x22} \<and> last v \<notin> {quote_char, CHR 0x22}"
  proof -
    have t: "trim (''branch == '' @ [quote_char] @ v @ [quote_char]) = ''branch == '' @ [quote_char] @ v @ [quote_char]"
      using trim_ends [of "CHR ''b''" quote_char "''ranch == '' @ [quote_char] @ v"] by (simp add: quote_char_def trim_safe_def)
    have sp: "split_once (''branch == '' @ [quote_char] @ v @ [quote_char]) ''==''
        = Some (''branch '', CHR '' '' # quote_char # v @ [quote_char])"
      by (simp add: split_once_def starts_with_Cons)
    have "trim ''branch '' = ''branch''"
      using trim_end_space [of "''branch''"] trim_end_stop [of "CHR ''h''" "''branc''"] by (simp add: trim_def trim_start_stop trim_safe_def)
    moreover have "trim (CHR '' '' # quote_char # v @ [quote_char]) = quote_char # v @ [quote_char]"
      using trim_ends [of quote_char quote_char v] by (simp add: trim_def quote_char_def trim_safe_def)
    ultimately show ?thesis
      unfolding evaluate_single_def Let_def t sp using unquote_quoted [OF that] by simp
  qed
  have tag: "\<not> evaluate_condition (''tag == '' @ [quote_char, quote_char]) ctx
      \<and> evaluate_condition (''tag != '' @ [quote_char, quote_char]) ctx" if "ctx_tag ctx = None"
  proof -
    let ?eq = "''tag == '' @ [quote_char, quote_char]" and ?ne = "''tag != '' @ [quote_char, quote_char]"
    have t: "trim ?eq = ?eq" "trim ?ne = ?ne"
      using trim_ends [of "CHR ''t''" quote_char "''ag == '' @ [quote_char]"]
        trim_ends [of "CHR ''t''" quote_char "''ag != '' @ [quote_char]"] by (simp_all add: quote_char_def trim_safe_def)
    have l: "trim ''tag '' = ''tag''"
      using trim_end_space [of "''tag''"] trim_end_stop [of "CHR ''g''" "''ta''"] by (simp add: trim_def trim_start_stop trim_safe_def)
    have c: "\<not> contains_sub ?eq ''&&''" "\<not> contains_sub ?ne ''&&''"
      by (simp_all add: contains_sub_def starts_with_Cons quote_char_def)
    have "split_once ?eq ''=='' = Some (''tag '', CHR '' '' # [quote_char, quote_char])"
        "split_once ?ne ''=='' = None" "split_once ?ne ''!='' = Some (''tag '', CHR '' '' # [quote_char, quote_char])"
      by (simp_all add: split_once_def starts_with_Cons quote_char_def)
    then show ?thesis
      unfolding evaluate_condition_def split_sub_none [OF c(1)] split_sub_none [OF c(2)]
      using that t l by (simp add: evaluate_single_def Let_def MAX_CONDITION_LENGTH_def MAX_CONDITION_PARTS_def)
  qed
  show ?thesis using conj single tag by blast
qed

definition sample_ctx :: ExpressionContext where
  "sample_ctx = \<lparr>ctx_branch = ''main'', ctx_event = ''push'', ctx_tag = None\<rparr>"

theorem evaluate_condition_meaning_witness:
  "evaluate_single (''branch == '' @ [quote_char] @ ''main'' @ [quote_char]) sample_ctx
   \<and> evaluate_condition (''tag != '' @ [quote_char, quote_char]) sample_ctx"
  using evaluate_condition_meaning [of "[]" "[]" sample_ctx "''main''"] by (simp add: sample_ctx_def quote_char_def)

text \<open>
  C34. Interpolation substitutes the references of the template and nothing else: the template
  splits into literal text and references independently of the values, the pieces make up the
  template again, each reference is replaced by its secret or variable or left as it is, and a
  substituted value is never scanned for further references.
\<close>

theorem interpolate_exact:
  "interpolate s secrets env = concat (map (piece_value secrets env) (pieces s))
   \<and> concat (map piece_text (pieces s)) = s"
  by (simp add: interpolate_pieces pieces_text)

end
