(* ===== verification/Job_Store.thy ===== *)
theory Job_Store
  imports Job_Model Job_State
begin

text \<open>
  The job store: the trait \<open>JobStore\<close> (\<open>muli-core/src/traits/job.rs\<close>) as a record of operations on a
  store state, its in-memory implementation (\<open>muli-store/src/memory/job_store.rs\<close> and
  \<open>job_query.rs\<close>), and the contract its clients rely on as the locale \<open>job_store\<close>: errors leave the
  store alone, \<open>update_state\<close> is a compare-and-swap along the transitions of the state machine. An
  operation that reads the clock takes the reading as the argument \<open>now\<close>.
\<close>

record 's JobStore =
  st_create_job :: "Job \<Rightarrow> 's \<Rightarrow> string result \<times> 's"
  st_get_job :: "string \<Rightarrow> 's \<Rightarrow> Job option result"
  st_update_state :: "datetime \<Rightarrow> string \<Rightarrow> JobState \<Rightarrow> JobState \<Rightarrow> 's \<Rightarrow> unit result \<times> 's"
  st_update_job :: "Job \<Rightarrow> 's \<Rightarrow> unit result \<times> 's"
  st_list_by_state :: "JobState \<Rightarrow> 's \<Rightarrow> Job list result"
  st_count_active_by_tenant :: "string \<Rightarrow> 's \<Rightarrow> nat result"
  st_delete_job :: "string \<Rightarrow> 's \<Rightarrow> unit result \<times> 's"
  st_find_by_idempotency_key :: "string \<Rightarrow> string \<Rightarrow> 's \<Rightarrow> Job option result"

section \<open>MemoryJobStore\<close>

type_synonym MemoryJobStore = "Job table"

definition create_job :: "Job \<Rightarrow> MemoryJobStore \<Rightarrow> string result \<times> MemoryJobStore" where
  "create_job job jobs =
     (if tbl_contains jobs (job_id job)
      then (Inl (Storage (''Job with id '' @ job_id job @ '' already exists'')), jobs)
      else (Inr (job_id job), tbl_insert (job_id job) job jobs))"

definition get_job :: "string \<Rightarrow> MemoryJobStore \<Rightarrow> Job option result" where
  "get_job jid jobs = Inr (tbl_get jobs jid)"

definition get_job_by_name :: "string \<Rightarrow> MemoryJobStore \<Rightarrow> Job option result" where
  "get_job_by_name name jobs = Inr (List.find (\<lambda>j. job_name j = name) (tbl_values jobs))"

definition update_state :: "datetime \<Rightarrow> string \<Rightarrow> JobState \<Rightarrow> JobState \<Rightarrow> MemoryJobStore \<Rightarrow> unit result \<times> MemoryJobStore" where
  "update_state now jid from to jobs =
     (case tbl_get jobs jid of
        None \<Rightarrow> (Inl (JobNotFound jid), jobs)
      | Some job \<Rightarrow>
          if job_state job \<noteq> from
          then (Inl (InvalidStateTransition (JobState_to_string (job_state job)) (JobState_to_string to)), jobs)
          else (case transition_to from to of
              Inl e \<Rightarrow> (Inl e, jobs)
            | Inr _ \<Rightarrow> (Inr (), tbl_insert jid (job\<lparr>job_state := to, job_updated_at := now\<rparr>) jobs)))"

definition update_job :: "Job \<Rightarrow> MemoryJobStore \<Rightarrow> unit result \<times> MemoryJobStore" where
  "update_job job jobs =
     (if \<not> tbl_contains jobs (job_id job) then (Inl (JobNotFound (job_id job)), jobs)
      else (Inr (), tbl_insert (job_id job) job jobs))"

definition list_pending :: "MemoryJobStore \<Rightarrow> Job list result" where
  "list_pending jobs = Inr (sort_key (\<lambda>j. - priority_score j) (filter (\<lambda>j. job_state j = Pending) (tbl_values jobs)))"

definition list_by_tenant :: "string \<Rightarrow> MemoryJobStore \<Rightarrow> Job list result" where
  "list_by_tenant tenant jobs = Inr (filter (\<lambda>j. spec_tenant_id (job_spec j) = tenant) (tbl_values jobs))"

definition list_by_state :: "JobState \<Rightarrow> MemoryJobStore \<Rightarrow> Job list result" where
  "list_by_state state jobs = Inr (filter (\<lambda>j. job_state j = state) (tbl_values jobs))"

definition matches_filter :: "Job \<Rightarrow> JobState option \<Rightarrow> string option \<Rightarrow> bool" where
  "matches_filter job state_filter tenant =
     (if (case state_filter of Some s \<Rightarrow> job_state job \<noteq> s | None \<Rightarrow> False) then False
      else if (case tenant of Some t \<Rightarrow> spec_tenant_id (job_spec job) \<noteq> t | None \<Rightarrow> False) then False
      else True)"

definition list_jobs :: "JobState option \<Rightarrow> string option \<Rightarrow> nat \<Rightarrow> nat \<Rightarrow> MemoryJobStore \<Rightarrow> Job list result" where
  "list_jobs state_filter tenant limit offset jobs =
     Inr (take limit (drop offset
       (sort_key (\<lambda>j. - job_created_at j) (filter (\<lambda>j. matches_filter j state_filter tenant) (tbl_values jobs)))))"

definition count_jobs :: "JobState option \<Rightarrow> string option \<Rightarrow> MemoryJobStore \<Rightarrow> nat result" where
  "count_jobs state_filter tenant jobs =
     Inr (length (filter (\<lambda>j. matches_filter j state_filter tenant) (tbl_values jobs)))"

definition count_active_by_tenant :: "string \<Rightarrow> MemoryJobStore \<Rightarrow> nat result" where
  "count_active_by_tenant tenant jobs =
     Inr (length (filter (\<lambda>j. spec_tenant_id (job_spec j) = tenant \<and> \<not> is_terminal (job_state j)) (tbl_values jobs)))"

text \<open>\<open>chrono::Duration::from_std\<close> fails above \<open>i64::MAX\<close> milliseconds.\<close>

definition CHRONO_MAX_NANOS :: nat where
  "CHRONO_MAX_NANOS = 9223372036854775807 * 1000000"

definition cleanup_old :: "datetime \<Rightarrow> nat \<Rightarrow> MemoryJobStore \<Rightarrow> nat result \<times> MemoryJobStore" where
  "cleanup_old now older_than jobs =
     (if CHRONO_MAX_NANOS < older_than
      then (Inl (Internal ''Invalid duration for cleanup: Source duration value is out of range for the target type''), jobs)
      else
        let threshold = now - int older_than;
            to_remove = map fst (filter (\<lambda>(_, j). is_terminal (job_state j) \<and> job_updated_at j < threshold) jobs)
        in (Inr (length to_remove), foldl (\<lambda>t i. tbl_remove i t) jobs to_remove))"

definition delete_job :: "string \<Rightarrow> MemoryJobStore \<Rightarrow> unit result \<times> MemoryJobStore" where
  "delete_job jid jobs = (Inr (), tbl_remove jid jobs)"

definition find_by_idempotency_key :: "string \<Rightarrow> string \<Rightarrow> MemoryJobStore \<Rightarrow> Job option result" where
  "find_by_idempotency_key tenant key jobs =
     Inr (List.find (\<lambda>j. spec_tenant_id (job_spec j) = tenant \<and> idempotency_key (job_spec j) = Some key) (tbl_values jobs))"

definition memory_job_store :: "MemoryJobStore JobStore" where
  "memory_job_store = \<lparr>st_create_job = create_job, st_get_job = get_job, st_update_state = update_state,
     st_update_job = update_job, st_list_by_state = list_by_state,
     st_count_active_by_tenant = count_active_by_tenant, st_delete_job = delete_job,
     st_find_by_idempotency_key = find_by_idempotency_key\<rparr>"

definition store_inv :: "MemoryJobStore \<Rightarrow> bool" where
  "store_inv jobs \<longleftrightarrow> tbl_ok jobs \<and> (\<forall>(i, j) \<in> set jobs. job_id j = i)"

section \<open>The contract\<close>

locale job_store =
  fixes S :: "'s JobStore" and s_inv :: "'s \<Rightarrow> bool" and lookup :: "'s \<Rightarrow> string \<Rightarrow> Job option"
  assumes lookup_id: "s_inv s \<Longrightarrow> lookup s i = Some j \<Longrightarrow> job_id j = i"
    and get_ok: "s_inv s \<Longrightarrow> st_get_job S i s = Inr r \<Longrightarrow> r = lookup s i"
    and create_ok: "s_inv s \<Longrightarrow> st_create_job S j s = (Inr i, s') \<Longrightarrow>
      i = job_id j \<and> lookup s i = None \<and> s_inv s' \<and> lookup s' = (lookup s)(i \<mapsto> j)"
    and create_err: "s_inv s \<Longrightarrow> st_create_job S j s = (Inl e, s') \<Longrightarrow> s_inv s' \<and> lookup s' = lookup s"
    and update_state_ok: "s_inv s \<Longrightarrow> st_update_state S now i from to s = (Inr u, s') \<Longrightarrow>
      s_inv s' \<and> can_transition_to from to \<and> (\<exists>j. lookup s i = Some j \<and> job_state j = from
        \<and> lookup s' = (lookup s)(i \<mapsto> j\<lparr>job_state := to, job_updated_at := now\<rparr>))"
    and update_state_err: "s_inv s \<Longrightarrow> st_update_state S now i from to s = (Inl e, s') \<Longrightarrow> s_inv s' \<and> lookup s' = lookup s"
    and update_job_ok: "s_inv s \<Longrightarrow> st_update_job S j s = (Inr u, s') \<Longrightarrow>
      s_inv s' \<and> lookup s (job_id j) \<noteq> None \<and> lookup s' = (lookup s)(job_id j \<mapsto> j)"
    and update_job_err: "s_inv s \<Longrightarrow> st_update_job S j s = (Inl e, s') \<Longrightarrow> s_inv s' \<and> lookup s' = lookup s"
    and list_by_state_ok: "s_inv s \<Longrightarrow> st_list_by_state S st s = Inr js \<Longrightarrow>
      distinct (map job_id js) \<and> (\<forall>j. j \<in> set js \<longleftrightarrow> lookup s (job_id j) = Some j \<and> job_state j = st)"
    and delete_ok: "s_inv s \<Longrightarrow> st_delete_job S i s = (Inr u, s') \<Longrightarrow> s_inv s' \<and> lookup s' = (lookup s)(i := None)"
    and delete_err: "s_inv s \<Longrightarrow> st_delete_job S i s = (Inl e, s') \<Longrightarrow> s_inv s' \<and> lookup s' = lookup s"
    and find_key_ok: "s_inv s \<Longrightarrow> st_find_by_idempotency_key S t k s = Inr (Some j) \<Longrightarrow>
      lookup s (job_id j) = Some j \<and> spec_tenant_id (job_spec j) = t \<and> idempotency_key (job_spec j) = Some k"
begin

text \<open>A transition into \<open>Pending\<close> is never accepted, whatever the state of the job.\<close>

lemma no_reset:
  assumes "s_inv s"
  shows "\<exists>e s'. st_update_state S now i from Pending s = (Inl e, s') \<and> s_inv s' \<and> lookup s' = lookup s"
proof (cases "st_update_state S now i from Pending s")
  case (Pair r s')
  show ?thesis
  proof (cases r)
    case (Inl e)
    with Pair update_state_err [OF assms, of now i "from" Pending e s'] show ?thesis by blast
  next
    case (Inr u)
    with Pair update_state_ok [OF assms, of now i "from" Pending u s'] have "can_transition_to from Pending" by blast
    then show ?thesis by (cases "from") simp_all
  qed
qed

text \<open>A terminal job keeps its state through every compare-and-swap.\<close>

lemma update_state_terminal:
  assumes "s_inv s" and "st_update_state S now i from to s = (r, s')"
    and "lookup s k = Some j" and "is_terminal (job_state j)"
  shows "lookup s' k = Some j"
proof (cases r)
  case (Inl e)
  then show ?thesis using update_state_err [of s now i "from" to e s'] assms by simp
next
  case (Inr u)
  then show ?thesis using update_state_ok [of s now i "from" to u s'] assms by (cases "k = i") auto
qed

end

text \<open>A store whose reads succeed, and whose compare-and-swap succeeds when it applies.\<close>

locale reliable_job_store = job_store +
  assumes get_total: "s_inv s \<Longrightarrow> st_get_job S i s = Inr (lookup s i)"
    and update_state_total: "s_inv s \<Longrightarrow> lookup s i = Some j \<Longrightarrow> job_state j = from \<Longrightarrow> can_transition_to from to
      \<Longrightarrow> \<exists>s'. st_update_state S now i from to s = (Inr (), s')"
    and update_job_total: "s_inv s \<Longrightarrow> lookup s (job_id j) \<noteq> None \<Longrightarrow> \<exists>s'. st_update_job S j s = (Inr (), s')"
    and list_by_state_total: "s_inv s \<Longrightarrow> \<exists>js. st_list_by_state S st s = Inr js"

section \<open>The in-memory store keeps the contract\<close>

lemma store_inv_insert: "store_inv jobs \<Longrightarrow> store_inv (tbl_insert (job_id j) j jobs)"
proof -
  assume inv: "store_inv jobs"
  have "set (tbl_insert (job_id j) j jobs) \<subseteq> insert (job_id j, j) (set jobs)"
    by (induction jobs) auto
  with inv show ?thesis by (auto simp: store_inv_def)
qed

lemma store_inv_remove: "store_inv jobs \<Longrightarrow> store_inv (tbl_remove i jobs)"
  by (auto simp: store_inv_def AList.delete_eq dest: tbl_ok_remove)

lemma store_inv_get: "store_inv jobs \<Longrightarrow> tbl_get jobs i = Some j \<Longrightarrow> job_id j = i"
  by (auto simp: store_inv_def dest: map_of_SomeD)

lemma store_inv_mem: "store_inv jobs \<Longrightarrow> j \<in> set (tbl_values jobs) \<longleftrightarrow> tbl_get jobs (job_id j) = Some j"
  by (force simp: store_inv_def dest: map_of_SomeD)

lemma store_inv_distinct: "store_inv jobs \<Longrightarrow> distinct (map job_id (tbl_values jobs))"
proof -
  assume inv: "store_inv jobs"
  then have "map (job_id \<circ> snd) jobs = map fst jobs" by (auto simp: store_inv_def)
  then have "map job_id (tbl_values jobs) = map fst jobs" by (simp only: map_map)
  with inv show ?thesis by (simp only: store_inv_def)
qed

lemma update_state_cases:
  "update_state now i from to jobs = (Inr u, jobs') \<longleftrightarrow>
     (\<exists>j. tbl_get jobs i = Some j \<and> job_state j = from \<and> can_transition_to from to
        \<and> jobs' = tbl_insert i (j\<lparr>job_state := to, job_updated_at := now\<rparr>) jobs)"
  "update_state now i from to jobs = (Inl e, jobs') \<Longrightarrow> jobs' = jobs"
  by (auto simp: update_state_def transition_to_def split: option.splits if_splits)

interpretation mem: reliable_job_store memory_job_store store_inv map_of
proof unfold_locales
  fix s :: MemoryJobStore and i j assume "store_inv s" "tbl_get s i = Some j"
  then show "job_id j = i" by (rule store_inv_get)
next
  fix s i j s' assume "store_inv s" "st_create_job memory_job_store j s = (Inr i, s')"
  then show "i = job_id j \<and> tbl_get s i = None \<and> store_inv s' \<and> tbl_get s' = (tbl_get s)(i \<mapsto> j)"
    by (auto simp: memory_job_store_def create_job_def store_inv_insert map_of_tbl_insert split: if_splits)
next
  fix s now i "from" to u s'
  assume a: "store_inv s" "st_update_state memory_job_store now i from to s = (Inr u, s')"
  then obtain j where j: "tbl_get s i = Some j" "job_state j = from" "can_transition_to from to"
      "s' = tbl_insert i (j\<lparr>job_state := to, job_updated_at := now\<rparr>) s"
    by (auto simp: memory_job_store_def update_state_cases)
  have "job_id j = i" using store_inv_get a(1) j(1) by blast
  then show "store_inv s' \<and> can_transition_to from to \<and> (\<exists>j. tbl_get s i = Some j \<and> job_state j = from
        \<and> tbl_get s' = (tbl_get s)(i \<mapsto> j\<lparr>job_state := to, job_updated_at := now\<rparr>))"
    using a(1) j store_inv_insert [of s "j\<lparr>job_state := to, job_updated_at := now\<rparr>"]
    by (auto simp: map_of_tbl_insert)
next
  fix s :: MemoryJobStore and i j "from" to now
  assume "store_inv s" "tbl_get s i = Some j" "job_state j = from" "can_transition_to from to"
  then show "\<exists>s'. st_update_state memory_job_store now i from to s = (Inr (), s')"
    by (simp add: memory_job_store_def update_state_cases)
next
  fix s :: MemoryJobStore and st js assume a: "store_inv s" "st_list_by_state memory_job_store st s = Inr js"
  then show "distinct (map job_id js) \<and> (\<forall>j. j \<in> set js \<longleftrightarrow> tbl_get s (job_id j) = Some j \<and> job_state j = st)"
    using store_inv_distinct [OF a(1)] store_inv_mem [OF a(1)]
    by (auto simp: memory_job_store_def list_by_state_def distinct_map_filter)
next
  fix s :: MemoryJobStore and t k j
  assume "store_inv s" "st_find_by_idempotency_key memory_job_store t k s = Inr (Some j)"
  then show "tbl_get s (job_id j) = Some j \<and> spec_tenant_id (job_spec j) = t \<and> idempotency_key (job_spec j) = Some k"
    using store_inv_mem [of s j] by (auto simp: memory_job_store_def find_by_idempotency_key_def dest!: find_Some_iff_set)
qed (auto simp: memory_job_store_def get_job_def create_job_def update_job_def delete_job_def list_by_state_def
    store_inv_insert store_inv_remove map_of_tbl_insert map_of_tbl_remove split: if_splits
    dest: update_state_cases(2))

section \<open>Queries\<close>

definition job_page :: "JobState option \<Rightarrow> string option \<Rightarrow> nat \<Rightarrow> MemoryJobStore \<Rightarrow> nat \<Rightarrow> Job list" where
  "job_page f tenant limit jobs p = (case list_jobs f tenant limit (p * limit) jobs of Inl _ \<Rightarrow> [] | Inr js \<Rightarrow> js)"

definition job_expired :: "datetime \<Rightarrow> nat \<Rightarrow> Job \<Rightarrow> bool" where
  "job_expired now older_than j \<longleftrightarrow> is_terminal (job_state j) \<and> job_updated_at j < now - int older_than"

lemma cleanup_old_filter:
  assumes "store_inv jobs" and "older_than \<le> CHRONO_MAX_NANOS"
  shows "cleanup_old now older_than jobs =
    (Inr (length (filter (job_expired now older_than) (tbl_values jobs))),
     filter (\<lambda>(_, j). \<not> job_expired now older_than j) jobs)"
proof -
  let ?E = "\<lambda>(_::string, j). job_expired now older_than j"
  have ok: "tbl_ok jobs" using assms(1) by (simp add: store_inv_def)
  have "filter (\<lambda>(k, _). k \<notin> set (map fst (filter ?E jobs))) jobs = filter (\<lambda>(_, j). \<not> job_expired now older_than j) jobs"
  proof (rule filter_cong [OF refl])
    fix p assume "p \<in> set jobs"
    then show "(case p of (k, _) \<Rightarrow> k \<notin> set (map fst (filter ?E jobs))) = (case p of (_, j) \<Rightarrow> \<not> job_expired now older_than j)"
      using ok by (force dest: eq_key_imp_eq_value)
  qed
  moreover have "length (filter ?E jobs) = length (filter (job_expired now older_than) (tbl_values jobs))"
    by (simp add: filter_map comp_def case_prod_unfold)
  ultimately show ?thesis using assms(2)
    by (simp add: cleanup_old_def Let_def foldl_remove job_expired_def case_prod_unfold)
qed

definition sample_spec :: "string \<Rightarrow> JobSpec" where
  "sample_spec tenant = \<lparr>deployment_id = ''d'', project_id = ''p'', workspace_id = ''w'', spec_tenant_id = tenant,
     runner_image = ''alpine'', spec_env_vars = [], spec_resources = ResourceSpec_default, priority_tier = Standard,
     framework = [], idempotency_key = Some ''k'', registry_credentials = None, spec_commands = [], spec_substeps = [],
     spec_checkout = None, artifact_downloads = [], artifact_upload_paths = [], artifact_upload_key = None,
     pipeline_step_run_id = None\<rparr>"

definition stored_job :: "string \<Rightarrow> JobState \<Rightarrow> Job" where
  "stored_job i st = (Job_new i 5 5 (sample_spec ''t''))\<lparr>job_state := st\<rparr>"

section \<open>Properties\<close>

text \<open>
  The listing is paginated exactly: \<open>count_jobs\<close> is the number of jobs that match the filters, and
  the consecutive pages of \<open>list_jobs\<close>, put together, are every matching job of the store once, the
  newest first. No job is repeated or lost at a page border.
\<close>

theorem list_jobs_pages:
  assumes "store_inv jobs" and "count_jobs f tenant jobs = Inr n" and "n \<le> pages * limit"
  shows "let js = concat (map (job_page f tenant limit jobs) [0..<pages]) in
    length js = n \<and> distinct (map job_id js) \<and> sorted (map (\<lambda>j. - job_created_at j) js)
    \<and> (\<forall>j. j \<in> set js \<longleftrightarrow> tbl_get jobs (job_id j) = Some j \<and> f \<in> {None, Some (job_state j)}
                        \<and> tenant \<in> {None, Some (spec_tenant_id (job_spec j))})"
proof -
  let ?ys = "sort_key (\<lambda>j. - job_created_at j) (filter (\<lambda>j. matches_filter j f tenant) (tbl_values jobs))"
  have n: "length ?ys = n" using assms(2) by (simp add: count_jobs_def)
  have "concat (map (job_page f tenant limit jobs) [0..<pages]) = ?ys"
    using concat_pages [of ?ys pages limit] n assms(3) by (simp add: job_page_def [abs_def] list_jobs_def)
  moreover have "distinct (map job_id ?ys)"
    unfolding distinct_map_sort_key by (rule distinct_map_filter) (rule store_inv_distinct [OF assms(1)])
  moreover have "matches_filter j f tenant \<longleftrightarrow> f \<in> {None, Some (job_state j)} \<and> tenant \<in> {None, Some (spec_tenant_id (job_spec j))}" for j
    by (auto simp: matches_filter_def split: option.splits)
  ultimately show ?thesis using n store_inv_mem [OF assms(1)] by (auto simp: Let_def)
qed

theorem list_jobs_pages_witness:
  "length (concat (map (job_page (Some Pending) None 2 [(''a'', stored_job ''a'' Pending)]) [0..<1])) = 1"
  using list_jobs_pages [of "[(''a'', stored_job ''a'' Pending)]" "Some Pending" None 1 1 2]
  by (simp add: store_inv_def stored_job_def Job_new_def count_jobs_def matches_filter_def Let_def)

text \<open>
  Cleanup removes exactly the finished jobs that were last updated before the retention threshold,
  reports their number, keeps every other job as it is and keeps the store well formed; a retention
  that does not fit the clock's duration type is refused and removes nothing.
\<close>

theorem cleanup_old_exact:
  assumes "store_inv jobs"
  shows "(CHRONO_MAX_NANOS < d \<longrightarrow> snd (cleanup_old now d jobs) = jobs \<and> \<not> is_ok (fst (cleanup_old now d jobs)))
    \<and> (d \<le> CHRONO_MAX_NANOS \<longrightarrow> (\<exists>jobs'. cleanup_old now d jobs = (Inr (length (filter (job_expired now d) (tbl_values jobs))), jobs')
        \<and> store_inv jobs'
        \<and> (\<forall>i. tbl_get jobs' i = (case tbl_get jobs i of None \<Rightarrow> None | Some j \<Rightarrow> if job_expired now d j then None else Some j))))"
proof -
  have ok: "tbl_ok jobs" using assms by (simp add: store_inv_def)
  have "store_inv (filter (\<lambda>(_, j). \<not> job_expired now d j) jobs)"
    using assms by (auto simp: store_inv_def distinct_map_filter)
  then show ?thesis using cleanup_old_filter [OF assms, of d now] ok
    by (auto simp: cleanup_old_def map_of_filter_values split: option.splits)
qed

theorem cleanup_old_exact_witness:
  "\<exists>jobs'. cleanup_old 100 5 [(''a'', stored_job ''a'' Failed)] = (Inr 1, jobs') \<and> tbl_get jobs' ''a'' = None"
  using cleanup_old_exact [of "[(''a'', stored_job ''a'' Failed)]" 5 100]
  by (auto simp: store_inv_def stored_job_def Job_new_def job_expired_def CHRONO_MAX_NANOS_def)

end
