(* ===== verification/Pipeline_Model.thy ===== *)
theory Pipeline_Model
  imports Job_Model
begin

text \<open>
  The run-time records of the pipeline engine (\<open>muli-core/src/pipeline/model.rs\<close>) and the states of
  runs and steps (\<open>muli-core/src/pipeline/state.rs\<close>). JSON values that the engine only stores
  (\<open>serde_json::Value\<close>) are kept as their text. Fresh UUIDs and clock readings are arguments.
\<close>

datatype PipelineRunState = RunPending | RunRunning | RunSucceeded | RunFailed | RunCancelled | RunDegraded

fun run_is_terminal :: "PipelineRunState \<Rightarrow> bool" where
  "run_is_terminal RunPending = False"
| "run_is_terminal RunRunning = False"
| "run_is_terminal _ = True"

fun PipelineRunState_as_str :: "PipelineRunState \<Rightarrow> string" where
  "PipelineRunState_as_str RunPending = ''Pending''"
| "PipelineRunState_as_str RunRunning = ''Running''"
| "PipelineRunState_as_str RunSucceeded = ''Succeeded''"
| "PipelineRunState_as_str RunFailed = ''Failed''"
| "PipelineRunState_as_str RunCancelled = ''Cancelled''"
| "PipelineRunState_as_str RunDegraded = ''Degraded''"

datatype StepRunState = StepPending | StepReady | StepRunning | StepSucceeded | StepFailed | StepSkipped | StepCancelled

fun step_is_terminal :: "StepRunState \<Rightarrow> bool" where
  "step_is_terminal StepPending = False"
| "step_is_terminal StepReady = False"
| "step_is_terminal StepRunning = False"
| "step_is_terminal _ = True"

fun StepRunState_as_str :: "StepRunState \<Rightarrow> string" where
  "StepRunState_as_str StepPending = ''Pending''"
| "StepRunState_as_str StepReady = ''Ready''"
| "StepRunState_as_str StepRunning = ''Running''"
| "StepRunState_as_str StepSucceeded = ''Succeeded''"
| "StepRunState_as_str StepFailed = ''Failed''"
| "StepRunState_as_str StepSkipped = ''Skipped''"
| "StepRunState_as_str StepCancelled = ''Cancelled''"

datatype FailureStrategy = Stop | Continue | Ignore

definition FailureStrategy_default :: FailureStrategy where
  "FailureStrategy_default = Stop"

datatype PipelineTrigger =
    TPush (t_ref_name: string) (t_changed_paths: "string list")
  | TPullRequest (t_pr_number: nat) (t_event: string) (t_pr_changed_paths: "string list")
  | TManual (t_triggered_by: string)
  | TSchedule (t_cron: string)
  | TRetry (t_original_run_id: string)

record PipelineRun =
  run_id :: string
  run_pipeline_id :: string
  run_tenant_id :: string
  run_repo_id :: string
  run_number :: nat
  commit_sha :: string
  commit_message :: string
  commit_author :: string
  run_triggered_by :: string
  run_ref_name :: string
  run_trigger :: PipelineTrigger
  run_state :: PipelineRunState
  yaml_content :: string
  run_env_vars :: "string table"
  webhook_data :: "string table"
  run_started_at :: "datetime option"
  run_finished_at :: "datetime option"
  run_created_at :: datetime
  run_updated_at :: datetime

definition PipelineRun_new :: "string \<Rightarrow> datetime \<Rightarrow> string \<Rightarrow> string \<Rightarrow> string \<Rightarrow> nat \<Rightarrow> string \<Rightarrow> string \<Rightarrow> PipelineTrigger \<Rightarrow> string \<Rightarrow> PipelineRun" where
  "PipelineRun_new uuid now pipeline_id tenant_id repo_id number sha ref_name trigger yaml =
     \<lparr>run_id = uuid, run_pipeline_id = pipeline_id, run_tenant_id = tenant_id, run_repo_id = repo_id, run_number = number,
      commit_sha = sha, commit_message = [], commit_author = [], run_triggered_by = [], run_ref_name = ref_name,
      run_trigger = trigger, run_state = RunPending, yaml_content = yaml, run_env_vars = [], webhook_data = [],
      run_started_at = None, run_finished_at = None, run_created_at = now, run_updated_at = now\<rparr>"

record JobSubstepRun =
  sub_name :: string
  sub_state :: StepRunState
  sub_started_at :: "datetime option"
  sub_finished_at :: "datetime option"
  sub_exit_code :: "int option"
  log_start_sequence :: "nat option"
  log_end_sequence :: "nat option"

definition JobSubstepRun_new :: "string \<Rightarrow> JobSubstepRun" where
  "JobSubstepRun_new name =
     \<lparr>sub_name = name, sub_state = StepPending, sub_started_at = None, sub_finished_at = None, sub_exit_code = None,
      log_start_sequence = None, log_end_sequence = None\<rparr>"

record StepRun =
  sr_id :: string
  sr_run_id :: string
  sr_tenant_id :: string
  sr_step_name :: string
  sr_job_id :: "string option"
  sr_state :: StepRunState
  sr_matrix_values :: "string option"
  sr_depends_on :: "string list"
  sr_error_message :: "string option"
  sr_substeps :: "JobSubstepRun list"
  sr_failure_strategy :: FailureStrategy
  sr_started_at :: "datetime option"
  sr_finished_at :: "datetime option"
  sr_created_at :: datetime
  sr_updated_at :: datetime

definition StepRun_new :: "string \<Rightarrow> datetime \<Rightarrow> string \<Rightarrow> string \<Rightarrow> string \<Rightarrow> FailureStrategy \<Rightarrow> string option \<Rightarrow> StepRun" where
  "StepRun_new uuid now rid tenant_id name strategy matrix_values =
     \<lparr>sr_id = uuid, sr_run_id = rid, sr_tenant_id = tenant_id, sr_step_name = name, sr_job_id = None,
      sr_state = StepPending, sr_matrix_values = matrix_values, sr_depends_on = [], sr_error_message = None,
      sr_substeps = [], sr_failure_strategy = strategy, sr_started_at = None, sr_finished_at = None,
      sr_created_at = now, sr_updated_at = now\<rparr>"

lemma state_names_inj:
  "PipelineRunState_as_str a = PipelineRunState_as_str b \<longleftrightarrow> a = b"
  "StepRunState_as_str s = StepRunState_as_str t \<longleftrightarrow> s = t"
  by (cases a; cases b; simp) (cases s; cases t; simp)

end
