(* ===== verification/Step_Store.thy ===== *)
theory Step_Store
  imports Pipeline_Model
begin

text \<open>
  The step run store: the trait \<open>StepRunStore\<close> as a record of operations, and its SQLite implementation
  (\<open>muli-store/src/sqlite/step_run_store.rs\<close>). A row of the table \<open>step_runs\<close> keeps the columns the
  statements use and the JSON text of the step. The serializer (crate \<open>serde_json\<close>) is the parameter pair
  \<open>to_json\<close>, \<open>from_json\<close> on an arbitrary type of texts. \<open>dbs t\<close> is the database of tenant \<open>t\<close>, or the error
  of opening it (\<open>tenant_conn\<close>); \<open>unique_msg\<close> is the text of SQLite's error for a violated \<open>UNIQUE\<close>
  constraint. In \<open>from_json\<close> a text that is no step is an error.
\<close>

record 'p StepRunStore =
  sp_create_step :: "StepRun \<Rightarrow> 'p \<Rightarrow> string result \<times> 'p"
  sp_get_step :: "string \<Rightarrow> string \<Rightarrow> 'p \<Rightarrow> StepRun option result"
  sp_update_step :: "StepRun \<Rightarrow> 'p \<Rightarrow> unit result \<times> 'p"
  sp_update_step_state :: "string \<Rightarrow> string \<Rightarrow> StepRunState \<Rightarrow> 'p \<Rightarrow> unit result \<times> 'p"

record 'j step_row =
  row_id :: string
  row_run_id :: string
  row_step_name :: string
  row_job_id :: "string option"
  row_state :: string
  row_full_json :: 'j

type_synonym 'j step_db = "'j step_row list"

type_synonym 'j step_dbs = "string \<Rightarrow> 'j step_db result"

definition create_step :: "string \<Rightarrow> (StepRun \<Rightarrow> 'j) \<Rightarrow> StepRun \<Rightarrow> 'j step_dbs \<Rightarrow> string result \<times> 'j step_dbs" where
  "create_step unique_msg to_json s dbs =
     (case dbs (sr_tenant_id s) of
        Inl e \<Rightarrow> (Inl e, dbs)
      | Inr db \<Rightarrow>
          if (\<exists>r \<in> set db. row_id r = sr_id s \<or> (row_run_id r, row_step_name r) = (sr_run_id s, sr_step_name s))
          then (Inl (Storage unique_msg), dbs)
          else (Inr (sr_id s), dbs(sr_tenant_id s := Inr (db @
            [\<lparr>row_id = sr_id s, row_run_id = sr_run_id s, row_step_name = sr_step_name s, row_job_id = sr_job_id s,
              row_state = StepRunState_as_str (sr_state s), row_full_json = to_json s\<rparr>]))))"

definition get_step :: "('j \<Rightarrow> StepRun result) \<Rightarrow> string \<Rightarrow> string \<Rightarrow> 'j step_dbs \<Rightarrow> StepRun option result" where
  "get_step from_json tenant sid dbs =
     and_then (dbs tenant) (\<lambda>db.
       case List.find (\<lambda>r. row_id r = sid) db of
         None \<Rightarrow> Inr None
       | Some r \<Rightarrow> and_then (from_json (row_full_json r)) (\<lambda>s. Inr (Some s)))"

definition list_by_run :: "('j \<Rightarrow> StepRun result) \<Rightarrow> string \<Rightarrow> string \<Rightarrow> 'j step_dbs \<Rightarrow> StepRun list result" where
  "list_by_run from_json tenant rid dbs =
     and_then (dbs tenant) (\<lambda>db.
       foldr (\<lambda>r acc. and_then (from_json (row_full_json r)) (\<lambda>s. and_then acc (\<lambda>ss. Inr (s # ss))))
         (filter (\<lambda>r. row_run_id r = rid) db) (Inr []))"

definition update_step :: "(StepRun \<Rightarrow> 'j) \<Rightarrow> StepRun \<Rightarrow> 'j step_dbs \<Rightarrow> unit result \<times> 'j step_dbs" where
  "update_step to_json s dbs =
     (case dbs (sr_tenant_id s) of
        Inl e \<Rightarrow> (Inl e, dbs)
      | Inr db \<Rightarrow> (Inr (), dbs(sr_tenant_id s := Inr (map (\<lambda>r. if row_id r = sr_id s
            then r\<lparr>row_state := StepRunState_as_str (sr_state s), row_job_id := sr_job_id s, row_full_json := to_json s\<rparr>
            else r) db))))"

definition update_step_state :: "(StepRun \<Rightarrow> 'j) \<Rightarrow> ('j \<Rightarrow> StepRun result) \<Rightarrow> string \<Rightarrow> string \<Rightarrow> StepRunState \<Rightarrow> 'j step_dbs \<Rightarrow> unit result \<times> 'j step_dbs" where
  "update_step_state to_json from_json tenant sid state dbs =
     (case dbs tenant of
        Inl e \<Rightarrow> (Inl e, dbs)
      | Inr db \<Rightarrow>
          (case List.find (\<lambda>r. row_id r = sid) db of
             None \<Rightarrow> (Inr (), dbs)
           | Some r \<Rightarrow>
               (case from_json (row_full_json r) of
                  Inl e \<Rightarrow> (Inl e, dbs)
                | Inr s \<Rightarrow>
                    let step = s\<lparr>sr_state := state\<rparr> in
                    (Inr (), dbs(tenant := Inr (map (\<lambda>r. if row_id r = sr_id step
                       then r\<lparr>row_state := StepRunState_as_str state, row_full_json := to_json step\<rparr> else r) db))))))"

definition delete_by_run :: "string \<Rightarrow> string \<Rightarrow> 'j step_dbs \<Rightarrow> nat result \<times> 'j step_dbs" where
  "delete_by_run tenant rid dbs =
     (case dbs tenant of
        Inl e \<Rightarrow> (Inl e, dbs)
      | Inr db \<Rightarrow> (Inr (length (filter (\<lambda>r. row_run_id r = rid) db)),
          dbs(tenant := Inr (filter (\<lambda>r. row_run_id r \<noteq> rid) db))))"

definition sqlite_step_store :: "string \<Rightarrow> (StepRun \<Rightarrow> 'j) \<Rightarrow> ('j \<Rightarrow> StepRun result) \<Rightarrow> 'j step_dbs StepRunStore" where
  "sqlite_step_store unique_msg to_json from_json =
     \<lparr>sp_create_step = create_step unique_msg to_json, sp_get_step = get_step from_json, sp_update_step = update_step to_json,
      sp_update_step_state = update_step_state to_json from_json\<rparr>"

section \<open>The contract\<close>

text \<open>
  \<open>steps p t i\<close> is the step with id \<open>i\<close> of tenant \<open>t\<close>. The laws of an operation hold when it returns
  without an error; an operation that fails changes nothing.
\<close>

locale step_store =
  fixes P :: "'p StepRunStore" and p_inv :: "'p \<Rightarrow> bool" and steps :: "'p \<Rightarrow> string \<Rightarrow> string \<Rightarrow> StepRun option"
  assumes step_key: "p_inv p \<Longrightarrow> steps p t i = Some s \<Longrightarrow> sr_id s = i \<and> sr_tenant_id s = t"
    and get_step_ok: "p_inv p \<Longrightarrow> sp_get_step P t i p = Inr r \<Longrightarrow> r = steps p t i"
    and update_step_ok: "p_inv p \<Longrightarrow> sp_update_step P s p = (Inr u, p') \<Longrightarrow> p_inv p' \<and>
      steps p' = (if steps p (sr_tenant_id s) (sr_id s) = None then steps p
                  else (steps p)(sr_tenant_id s := (steps p (sr_tenant_id s))(sr_id s \<mapsto> s)))"
    and update_step_err: "p_inv p \<Longrightarrow> sp_update_step P s p = (Inl e, p') \<Longrightarrow> p_inv p' \<and> steps p' = steps p"
    and update_step_state_ok: "p_inv p \<Longrightarrow> sp_update_step_state P t i st p = (Inr u, p') \<Longrightarrow> p_inv p' \<and>
      steps p' = (case steps p t i of None \<Rightarrow> steps p
                  | Some s \<Rightarrow> (steps p)(t := (steps p t)(i \<mapsto> s\<lparr>sr_state := st\<rparr>)))"
    and update_step_state_err: "p_inv p \<Longrightarrow> sp_update_step_state P t i st p = (Inl e, p') \<Longrightarrow> p_inv p' \<and> steps p' = steps p"

section \<open>The SQLite store keeps the contract\<close>

definition step_row_ok :: "('j \<Rightarrow> StepRun result) \<Rightarrow> string \<Rightarrow> 'j step_row \<Rightarrow> bool" where
  "step_row_ok from_json tenant r \<longleftrightarrow> (\<exists>s. from_json (row_full_json r) = Inr s \<and> sr_id s = row_id r
     \<and> sr_tenant_id s = tenant \<and> row_state r = StepRunState_as_str (sr_state s))"

definition step_dbs_ok :: "('j \<Rightarrow> StepRun result) \<Rightarrow> 'j step_dbs \<Rightarrow> bool" where
  "step_dbs_ok from_json dbs \<longleftrightarrow> (\<forall>t db. dbs t = Inr db \<longrightarrow>
     distinct (map row_id db) \<and> (\<forall>r \<in> set db. step_row_ok from_json t r))"

definition db_step :: "('j \<Rightarrow> StepRun result) \<Rightarrow> 'j step_db \<Rightarrow> string \<Rightarrow> StepRun option" where
  "db_step from_json db i =
     (case List.find (\<lambda>r. row_id r = i) db of None \<Rightarrow> None | Some r \<Rightarrow> result_ok (from_json (row_full_json r)))"

definition dbs_step :: "('j \<Rightarrow> StepRun result) \<Rightarrow> 'j step_dbs \<Rightarrow> string \<Rightarrow> string \<Rightarrow> StepRun option" where
  "dbs_step from_json dbs t i = (case dbs t of Inl _ \<Rightarrow> None | Inr db \<Rightarrow> db_step from_json db i)"

abbreviation map_row :: "string \<Rightarrow> ('j step_row \<Rightarrow> 'j step_row) \<Rightarrow> 'j step_db \<Rightarrow> 'j step_db" where
  "map_row k f db \<equiv> map (\<lambda>r. if row_id r = k then f r else r) db"

lemma find_map_row:
  "(\<And>r. row_id (f r) = row_id r) \<Longrightarrow>
   List.find (\<lambda>r. row_id r = i) (map_row k f db)
   = (if i = k then map_option f (List.find (\<lambda>r. row_id r = i) db) else List.find (\<lambda>r. row_id r = i) db)"
  by (induction db) auto

lemma map_row_ids: "(\<And>r. row_id (f r) = row_id r) \<Longrightarrow> map row_id (map_row k f db) = map row_id db"
  by (induction db) auto

lemma step_dbs_ok_update:
  assumes "step_dbs_ok from_json dbs" and "dbs t = Inr db"
    and "\<And>r. row_id (f r) = row_id r" and "\<And>r. row_id r = k \<Longrightarrow> step_row_ok from_json t r \<Longrightarrow> step_row_ok from_json t (f r)"
  shows "step_dbs_ok from_json (dbs(t := Inr (map_row k f db)))"
  using assms map_row_ids [of f k db, OF assms(3)] by (auto simp: step_dbs_ok_def simp del: map_map)

lemma found_row:
  assumes "step_dbs_ok from_json dbs" and "dbs t = Inr db" and "List.find (\<lambda>r. row_id r = i) db = Some r"
  obtains s where "from_json (row_full_json r) = Inr s" "sr_id s = i" "sr_tenant_id s = t"
proof -
  have "r \<in> set db" "row_id r = i" using find_Some_iff_set [OF assms(3)] by auto
  with assms(1,2) have "step_row_ok from_json t r" by (simp add: step_dbs_ok_def)
  with \<open>row_id r = i\<close> show thesis using that by (auto simp: step_row_ok_def)
qed

text \<open>Both updates rewrite the row of one step; what they write is read back.\<close>

lemma dbs_step_update:
  assumes "step_dbs_ok from_json dbs" and "dbs t = Inr db" and "\<And>r. row_id (f r) = row_id r"
    and "\<And>r. from_json (row_full_json (f r)) = Inr s"
  shows "dbs_step from_json (dbs(t := Inr (map_row k f db)))
       = (if dbs_step from_json dbs t k = None then dbs_step from_json dbs
          else (dbs_step from_json dbs)(t := (dbs_step from_json dbs t)(k \<mapsto> s)))"
proof -
  have "db_step from_json (map_row k f db) = (if db_step from_json db k = None then db_step from_json db
        else (db_step from_json db)(k \<mapsto> s))"
  proof (cases "List.find (\<lambda>r. row_id r = k) db")
    case None
    then show ?thesis by (auto simp: fun_eq_iff db_step_def find_map_row [OF assms(3)] split: option.splits)
  next
    case (Some r)
    with found_row [OF assms(1,2)] have "db_step from_json db k \<noteq> None" by (fastforce simp: db_step_def result_ok_def)
    with Some assms(4) show ?thesis
      by (auto simp: fun_eq_iff db_step_def find_map_row [OF assms(3)] result_ok_def split: option.splits)
  qed
  then show ?thesis using assms(2) by (auto simp: dbs_step_def fun_eq_iff)
qed

locale step_codec =
  fixes to_json :: "StepRun \<Rightarrow> 'j" and from_json :: "'j \<Rightarrow> StepRun result"
  assumes step_roundtrip: "from_json (to_json s) = Inr s"

sublocale step_codec \<subseteq> sql: step_store "sqlite_step_store unique_msg to_json from_json" "step_dbs_ok from_json" "dbs_step from_json"
proof unfold_locales
  fix p :: "'j step_dbs" and t i s
  assume "step_dbs_ok from_json p" "dbs_step from_json p t i = Some s"
  then show "sr_id s = i \<and> sr_tenant_id s = t"
    by (auto simp: dbs_step_def db_step_def result_ok_def split: sum.splits option.splits elim: found_row)
next
  fix p :: "'j step_dbs" and t i r
  assume "step_dbs_ok from_json p" "sp_get_step (sqlite_step_store unique_msg to_json from_json) t i p = Inr r"
  then show "r = dbs_step from_json p t i"
    by (auto simp: sqlite_step_store_def get_step_def dbs_step_def db_step_def and_then_ok_iff result_ok_def
      split: option.splits)
next
  fix p p' :: "'j step_dbs" and s u
  let ?f = "\<lambda>r. r\<lparr>row_state := StepRunState_as_str (sr_state s), row_job_id := sr_job_id s, row_full_json := to_json s\<rparr>"
  assume inv: "step_dbs_ok from_json p" and "sp_update_step (sqlite_step_store unique_msg to_json from_json) s p = (Inr u, p')"
  then obtain db where db: "p (sr_tenant_id s) = Inr db" "p' = p(sr_tenant_id s := Inr (map_row (sr_id s) ?f db))"
    by (auto simp: sqlite_step_store_def update_step_def split: sum.splits)
  have "step_dbs_ok from_json p'" unfolding db(2)
    by (rule step_dbs_ok_update [OF inv db(1)]) (auto simp: step_row_ok_def step_roundtrip)
  with dbs_step_update [OF inv db(1), of ?f s "sr_id s"] show "step_dbs_ok from_json p' \<and>
      dbs_step from_json p' = (if dbs_step from_json p (sr_tenant_id s) (sr_id s) = None then dbs_step from_json p
        else (dbs_step from_json p)(sr_tenant_id s := (dbs_step from_json p (sr_tenant_id s))(sr_id s \<mapsto> s)))"
    by (simp add: db(2) step_roundtrip)
next
  fix p p' :: "'j step_dbs" and t i st u
  assume inv: "step_dbs_ok from_json p"
    and upd: "sp_update_step_state (sqlite_step_store unique_msg to_json from_json) t i st p = (Inr u, p')"
  then obtain db where db: "p t = Inr db" by (auto simp: sqlite_step_store_def update_step_state_def split: sum.splits)
  show "step_dbs_ok from_json p' \<and> dbs_step from_json p' = (case dbs_step from_json p t i of None \<Rightarrow> dbs_step from_json p
      | Some s \<Rightarrow> (dbs_step from_json p)(t := (dbs_step from_json p t)(i \<mapsto> s\<lparr>sr_state := st\<rparr>)))"
  proof (cases "List.find (\<lambda>r. row_id r = i) db")
    case None
    with upd db inv show ?thesis by (simp add: sqlite_step_store_def update_step_state_def dbs_step_def db_step_def)
  next
    case (Some r)
    then obtain s where s: "from_json (row_full_json r) = Inr s" "sr_id s = i" "sr_tenant_id s = t"
      using found_row [OF inv db] by blast
    let ?f = "\<lambda>r. r\<lparr>row_state := StepRunState_as_str st, row_full_json := to_json (s\<lparr>sr_state := st\<rparr>)\<rparr>"
    have p': "p' = p(t := Inr (map_row i ?f db))"
      using upd db Some s by (simp add: sqlite_step_store_def update_step_state_def)
    have "step_dbs_ok from_json p'" unfolding p'
      by (rule step_dbs_ok_update [OF inv db]) (auto simp: step_row_ok_def step_roundtrip s)
    moreover have "dbs_step from_json p t i = Some s"
      using db Some s by (simp add: dbs_step_def db_step_def result_ok_def)
    ultimately show ?thesis using dbs_step_update [OF inv db, of ?f "s\<lparr>sr_state := st\<rparr>" i]
      by (simp add: p' step_roundtrip)
  qed
qed (auto simp: sqlite_step_store_def update_step_def update_step_state_def Let_def split: sum.splits option.splits)

text \<open>The store with the steps themselves as texts.\<close>

interpretation plain: step_codec "\<lambda>s. s" "Inr"
  by unfold_locales simp

end
