(* ===== verification/Rust_Text.thy ===== *)
theory Rust_Text
  imports Muli_Prelude
begin

text \<open>
  The parts of Rust's standard library for text and numbers that several components use: UTF-8
  validation and lossy decoding (\<open>String::from_utf8\<close>, \<open>String::from_utf8_lossy\<close>), \<open>str::lines\<close>, and
  parsing and printing of integers (\<open>FromStr\<close> and \<open>Display\<close> of the integer types), with the round
  trip between the two.
\<close>

section \<open>UTF-8\<close>

abbreviation byte :: "char \<Rightarrow> nat" where
  "byte c \<equiv> of_char c"

definition byte_at :: "string \<Rightarrow> nat \<Rightarrow> nat" where
  "byte_at s i = (if i < length s then byte (s ! i) else 0)"

definition utf8_cont :: "nat \<Rightarrow> bool" where
  "utf8_cont b = (0x80 \<le> b \<and> b \<le> 0xBF)"

definition utf8_second3 :: "nat \<Rightarrow> nat \<Rightarrow> bool" where
  "utf8_second3 b0 b1 =
     (if b0 = 0xE0 then 0xA0 \<le> b1 \<and> b1 \<le> 0xBF else if b0 = 0xED then 0x80 \<le> b1 \<and> b1 \<le> 0x9F else utf8_cont b1)"

definition utf8_second4 :: "nat \<Rightarrow> nat \<Rightarrow> bool" where
  "utf8_second4 b0 b1 =
     (if b0 = 0xF0 then 0x90 \<le> b1 \<and> b1 \<le> 0xBF else if b0 = 0xF4 then 0x80 \<le> b1 \<and> b1 \<le> 0x8F else utf8_cont b1)"

text \<open>
  The first character of a non-empty byte string: whether it is well formed, and how many bytes it
  takes (for an ill-formed one, the bytes that one replacement character stands for).
\<close>

definition utf8_head :: "string \<Rightarrow> bool \<times> nat" where
  "utf8_head s =
     (let b0 = byte_at s 0; b1 = byte_at s 1; b2 = byte_at s 2; b3 = byte_at s 3 in
      if b0 < 0x80 then (True, 1)
      else if 0xC2 \<le> b0 \<and> b0 \<le> 0xDF then (if utf8_cont b1 then (True, 2) else (False, 1))
      else if 0xE0 \<le> b0 \<and> b0 \<le> 0xEF
        then (if \<not> utf8_second3 b0 b1 then (False, 1) else if \<not> utf8_cont b2 then (False, 2) else (True, 3))
      else if 0xF0 \<le> b0 \<and> b0 \<le> 0xF4
        then (if \<not> utf8_second4 b0 b1 then (False, 1) else if \<not> utf8_cont b2 then (False, 2)
              else if \<not> utf8_cont b3 then (False, 3) else (True, 4))
      else (False, 1))"

lemma utf8_head_pos [simp]: "0 < snd (utf8_head s)"
  by (simp add: utf8_head_def Let_def)

lemma utf8_head_decreases: "s \<noteq> [] \<Longrightarrow> (ok, n) = utf8_head s \<Longrightarrow> length s - n < length s"
  using utf8_head_pos [of s] by (metis diff_less length_greater_0_conv snd_conv)

function from_utf8_lossy :: "string \<Rightarrow> string" where
  "from_utf8_lossy s = (if s = [] then [] else
     (let (ok, n) = utf8_head s in
      (if ok then take n s else [CHR 0xEF, CHR 0xBF, CHR 0xBD]) @ from_utf8_lossy (drop n s)))"
  by pat_completeness auto
termination
  by (relation "measure length") (auto simp: utf8_head_decreases)

function valid_utf8 :: "string \<Rightarrow> bool" where
  "valid_utf8 s = (if s = [] then True else (let (ok, n) = utf8_head s in if ok then valid_utf8 (drop n s) else False))"
  by pat_completeness auto
termination
  by (relation "measure length") (auto simp: utf8_head_decreases)

declare from_utf8_lossy.simps [simp del] valid_utf8.simps [simp del]

lemma from_utf8_lossy_valid: "valid_utf8 s \<Longrightarrow> from_utf8_lossy s = s"
proof (induction s rule: from_utf8_lossy.induct)
  case (1 s)
  then show ?case
    by (cases "utf8_head s") (auto simp: valid_utf8.simps [of s] from_utf8_lossy.simps [of s])
qed

section \<open>Lines\<close>

text \<open>\<open>str::lines\<close>: the pieces between line feeds, without one trailing carriage return each; a
  final line feed does not start another line.\<close>

fun split_char :: "char \<Rightarrow> string \<Rightarrow> string list" where
  "split_char c [] = [[]]"
| "split_char c (x # s) = (if x = c then [] # split_char c s else
     (case split_char c s of [] \<Rightarrow> [[x]] | l # ls \<Rightarrow> (x # l) # ls))"

definition strip_cr :: "string \<Rightarrow> string" where
  "strip_cr l = (if l \<noteq> [] \<and> last l = CHR 0x0D then butlast l else l)"

definition str_lines :: "string \<Rightarrow> string list" where
  "str_lines s = (let ps = split_char CHR 0x0A s in map strip_cr (if last ps = [] then butlast ps else ps))"

definition trim_end_matches :: "char \<Rightarrow> string \<Rightarrow> string" where
  "trim_end_matches c s = rev (dropWhile (\<lambda>x. x = c) (rev s))"

lemma split_char_not_Nil [simp]: "split_char c s \<noteq> []"
  by (induction s) (auto split: list.splits)

lemma split_char_no_sep: "c \<notin> set s \<Longrightarrow> split_char c s = [s]"
  by (induction s) auto

lemma split_char_append: "c \<notin> set s \<Longrightarrow> split_char c (s @ c # t) = s # split_char c t"
  by (induction s) auto

lemma str_lines_single: "CHR 0x0A \<notin> set s \<Longrightarrow> s \<noteq> [] \<Longrightarrow> last s \<noteq> CHR 0x0D \<Longrightarrow> str_lines (s @ [CHR 0x0A]) = [s]"
  by (simp add: str_lines_def split_char_append strip_cr_def)

lemma str_lines_concat:
  "\<forall>l \<in> set ls. CHR 0x0A \<notin> set l \<and> (l = [] \<or> last l \<noteq> CHR 0x0D) \<Longrightarrow> str_lines (concat (map (\<lambda>l. l @ [CHR 0x0A]) ls)) = ls"
proof -
  assume ok: "\<forall>l \<in> set ls. CHR 0x0A \<notin> set l \<and> (l = [] \<or> last l \<noteq> CHR 0x0D)"
  then have "split_char CHR 0x0A (concat (map (\<lambda>l. l @ [CHR 0x0A]) ls)) = ls @ [[]]"
    by (induction ls) (simp_all add: split_char_append)
  moreover have "map strip_cr ls = ls" using ok by (induction ls) (auto simp: strip_cr_def)
  ultimately show ?thesis by (simp add: str_lines_def)
qed

lemma trim_end_matches_id: "s = [] \<or> last s \<noteq> c \<Longrightarrow> trim_end_matches c s = s"
  by (cases s rule: rev_cases) (simp_all add: trim_end_matches_def)

section \<open>Integers\<close>

text \<open>\<open>FromStr\<close> of the integer types: an optional sign (a minus for signed types only), at least one
  digit, and a value in range; anything else is an error (\<open>None\<close>).\<close>

fun digits_val :: "nat \<Rightarrow> string \<Rightarrow> nat option" where
  "digits_val acc [] = Some acc"
| "digits_val acc (c # s) = (if is_ascii_digit c then digits_val (10 * acc + (byte c - 48)) s else None)"

definition parse_digits :: "string \<Rightarrow> nat option" where
  "parse_digits s = (if s = [] then None else digits_val 0 s)"

definition parse_unsigned :: "nat \<Rightarrow> string \<Rightarrow> nat option" where
  "parse_unsigned hi s =
     (case parse_digits (if s \<noteq> [] \<and> hd s = CHR ''+'' then tl s else s) of
        None \<Rightarrow> None | Some n \<Rightarrow> if n \<le> hi then Some n else None)"

definition parse_signed :: "int \<Rightarrow> int \<Rightarrow> string \<Rightarrow> int option" where
  "parse_signed lo hi s =
     (let neg = (s \<noteq> [] \<and> hd s = CHR ''-'');
          ds = (if s \<noteq> [] \<and> hd s \<in> {CHR ''-'', CHR ''+''} then tl s else s)
      in case parse_digits ds of None \<Rightarrow> None
         | Some n \<Rightarrow> (let v = (if neg then - int n else int n) in if lo \<le> v \<and> v \<le> hi then Some v else None))"

abbreviation I32_MIN :: int where "I32_MIN \<equiv> - 2147483648"
abbreviation I32_MAX :: int where "I32_MAX \<equiv> 2147483647"
abbreviation I64_MIN :: int where "I64_MIN \<equiv> - 9223372036854775808"
abbreviation I64_MAX :: int where "I64_MAX \<equiv> 9223372036854775807"

definition show_int :: "int \<Rightarrow> string" where
  "show_int i = (if i < 0 then CHR ''-'' # show_nat (nat (- i)) else show_nat (nat i))"

lemma digits_val_append: "digits_val acc (s @ t) = (case digits_val acc s of None \<Rightarrow> None | Some a \<Rightarrow> digits_val a t)"
  by (induction s arbitrary: acc) auto

lemma byte_digit: "n < 10 \<Longrightarrow> byte (char_of (48 + n)) = 48 + n"
  by simp

lemma show_nat_not_Nil [simp]: "show_nat n \<noteq> []"
  by (subst show_nat.simps) simp

lemma digits_val_show_nat: "digits_val 0 (show_nat n) = Some n"
proof (induction n rule: show_nat.induct)
  case (1 n)
  show ?case
  proof (cases "n < 10")
    case True
    then show ?thesis by (simp add: show_nat.simps [of n] is_ascii_digit_def)
  next
    case False
    have "n mod 10 < 10" by simp
    then have "digits_val a [char_of (48 + n mod 10)] = Some (10 * a + n mod 10)" for a
      by (simp add: is_ascii_digit_def)
    with False 1 show ?thesis by (simp add: show_nat.simps [of n] digits_val_append)
  qed
qed

lemma show_nat_digits: "c \<in> set (show_nat n) \<Longrightarrow> is_ascii_digit c"
proof -
  have "digits_val a s = Some m \<Longrightarrow> c \<in> set s \<Longrightarrow> is_ascii_digit c" for a s m
    by (induction s arbitrary: a) (auto split: if_splits)
  then show "c \<in> set (show_nat n) \<Longrightarrow> is_ascii_digit c" using digits_val_show_nat by blast
qed

lemma hd_show_nat: "hd (show_nat n) \<noteq> CHR ''+''" "hd (show_nat n) \<noteq> CHR ''-''"
  using show_nat_digits [of "hd (show_nat n)" n] by (auto simp: is_ascii_digit_def)

lemma parse_unsigned_show_nat: "n \<le> hi \<Longrightarrow> parse_unsigned hi (show_nat n) = Some n"
  by (simp add: parse_unsigned_def parse_digits_def digits_val_show_nat hd_show_nat)

lemma parse_signed_show_int: "lo \<le> i \<Longrightarrow> i \<le> hi \<Longrightarrow> parse_signed lo hi (show_int i) = Some i"
  by (auto simp: parse_signed_def show_int_def parse_digits_def digits_val_show_nat hd_show_nat Let_def)

lemma parse_unsigned_le: "parse_unsigned hi s = Some n \<Longrightarrow> n \<le> hi"
  by (simp add: parse_unsigned_def split: option.splits if_splits)

lemma parse_unsigned_digits:
  "parse_unsigned hi s = Some n \<Longrightarrow> s \<noteq> [] \<and> (\<forall>c \<in> set s. is_ascii_digit c \<or> c = CHR ''+'')"
proof -
  have d: "digits_val a s = Some m \<Longrightarrow> c \<in> set s \<Longrightarrow> is_ascii_digit c" for a s m c
    by (induction s arbitrary: a) (auto split: if_splits)
  show "parse_unsigned hi s = Some n \<Longrightarrow> ?thesis"
    by (cases s) (auto simp: parse_unsigned_def parse_digits_def split: option.splits if_splits dest: d)
qed

end
