(* ===== verification/Log_Collector.thy ===== *)
theory Log_Collector
  imports Job_Model Rust_Text
begin

text \<open>
  The log path of a job: the shell script that brackets substeps with markers
  (\<open>muli-engine/src/docker/container.rs\<close>, \<open>build_job_script\<close>), the parser that turns container output
  into log lines (\<open>muli-engine/src/docker/logs.rs\<close>), the ring buffer with its flush offset
  (\<open>LogCollector\<close>), and the lines that a host-side checkout pushes into the same collector
  (\<open>muli-engine/src/docker/checkout.rs\<close>, \<open>spawn_pipe\<close>).

  The base64 codec (crate \<open>base64\<close>) is the parameter pair \<open>b64_encode\<close>, \<open>b64_decode\<close>. \<open>clock n\<close> is the
  clock reading for the line that gets sequence number \<open>n\<close>. The lines sent to the live subscribers are
  the list \<open>lc_sent\<close>.
\<close>

datatype LogStream = Stdout | Stderr

record LogLine =
  ll_sequence :: nat
  ll_timestamp :: datetime
  ll_stream :: LogStream
  ll_message :: string
  ll_substep_name :: "string option"
  ll_event_type :: string
  ll_exit_code :: "int option"

record LogCollector =
  lc_buffer :: "LogLine list"
  lc_sent :: "LogLine list"
  lc_sequence :: nat
  lc_flush_offset :: nat
  lc_max_lines :: nat

definition DEFAULT_RING_BUFFER_SIZE :: nat where
  "DEFAULT_RING_BUFFER_SIZE = 10000"

definition with_capacity :: "nat \<Rightarrow> LogCollector" where
  "with_capacity max_lines =
     \<lparr>lc_buffer = [], lc_sent = [], lc_sequence = 0, lc_flush_offset = 0, lc_max_lines = max_lines\<rparr>"

definition LogCollector_new :: LogCollector where
  "LogCollector_new = with_capacity DEFAULT_RING_BUFFER_SIZE"

section \<open>Substep markers\<close>

definition SUBSTEP_START_MARKER :: string where
  "SUBSTEP_START_MARKER = ''__MULI_SUBSTEP_START__''"

definition SUBSTEP_FINISH_MARKER :: string where
  "SUBSTEP_FINISH_MARKER = ''__MULI_SUBSTEP_FINISH__''"

abbreviation nl_str :: string where "nl_str \<equiv> [CHR 0x0A]"
abbreviation sq_str :: string where "sq_str \<equiv> [CHR 0x27]"
abbreviation dq_str :: string where "dq_str \<equiv> [CHR 0x22]"
abbreviation backslash_n :: string where "backslash_n \<equiv> [CHR 0x5C] @ ''n''"

definition build_job_script :: "(string \<Rightarrow> string) \<Rightarrow> JobSpec \<Rightarrow> string" where
  "build_job_script b64_encode spec =
     (if spec_substeps spec = []
      then foldl (\<lambda>script command. script @ command @ nl_str) (''set -e'' @ nl_str) (spec_commands spec)
      else foldl (\<lambda>script substep.
             let encoded_name = b64_encode (substep_name substep);
                 script = script @ ''printf '' @ sq_str @ ''%s'' @ backslash_n @ sq_str @ '' '' @ sq_str @ SUBSTEP_START_MARKER @ ''|'' @ encoded_name @ sq_str @ nl_str;
                 script = script @ ''('' @ nl_str @ ''set -e'' @ nl_str;
                 script = foldl (\<lambda>script command. script @ command @ nl_str) script (substep_commands substep);
                 script = script @ '')'' @ nl_str;
                 script = script @ ''status=$?'' @ nl_str;
                 script = script @ ''printf '' @ sq_str @ ''%s|%s'' @ backslash_n @ sq_str @ '' '' @ sq_str @ SUBSTEP_FINISH_MARKER @ ''|'' @ encoded_name @ sq_str @ '' '' @ dq_str @ ''$status'' @ dq_str @ nl_str
             in script @ ''if [ '' @ dq_str @ ''$status'' @ dq_str @ '' -ne 0 ]; then'' @ nl_str @ ''  exit '' @ dq_str @ ''$status'' @ dq_str @ nl_str @ ''fi'' @ nl_str)
           [] (spec_substeps spec))"

datatype ParsedControl = Visible | SubstepStarted string | SubstepFinished string int

definition decode_substep_name :: "(string \<Rightarrow> string option) \<Rightarrow> string \<Rightarrow> string option" where
  "decode_substep_name b64_decode v =
     (case b64_decode v of None \<Rightarrow> None | Some decoded \<Rightarrow> if valid_utf8 decoded then Some decoded else None)"

definition parse_control_marker :: "(string \<Rightarrow> string option) \<Rightarrow> string \<Rightarrow> ParsedControl" where
  "parse_control_marker b64_decode line =
     (let normalized = (case split_once line '' '' of Some (_, rest) \<Rightarrow> rest | None \<Rightarrow> line) in
      case strip_prefix normalized (SUBSTEP_START_MARKER @ ''|'') of
        Some payload \<Rightarrow> (case decode_substep_name b64_decode payload of Some name \<Rightarrow> SubstepStarted name | None \<Rightarrow> Visible)
      | None \<Rightarrow>
          (case strip_prefix normalized (SUBSTEP_FINISH_MARKER @ ''|'') of
             Some payload \<Rightarrow>
               (case split_once payload ''|'' of
                  Some (encoded_name, exit_code) \<Rightarrow>
                    (case (decode_substep_name b64_decode encoded_name, parse_signed I32_MIN I32_MAX exit_code) of
                       (Some name, Some code) \<Rightarrow> SubstepFinished name code
                     | _ \<Rightarrow> Visible)
                | None \<Rightarrow> Visible)
           | None \<Rightarrow> Visible))"

section \<open>Parsing container output\<close>

text \<open>\<open>AtomicU64::fetch_add\<close> wraps.\<close>

definition next_seq :: "nat \<Rightarrow> nat" where
  "next_seq n = Suc n mod (U64_MAX + 1)"

fun parse_lines :: "(string \<Rightarrow> string option) \<Rightarrow> (nat \<Rightarrow> datetime) \<Rightarrow> LogStream \<Rightarrow> string list \<Rightarrow> string option \<Rightarrow> nat \<Rightarrow> LogLine list \<times> string option \<times> nat" where
  "parse_lines dec clock stream [] current n = ([], current, n)"
| "parse_lines dec clock stream (raw_line # raws) current n =
     (let line_text = trim_end_matches CHR 0x0D raw_line in
      if line_text = [] then parse_lines dec clock stream raws current n
      else
        let (current', line) =
          (case parse_control_marker dec line_text of
             SubstepStarted name \<Rightarrow> (Some name,
               \<lparr>ll_sequence = n, ll_timestamp = clock n, ll_stream = stream, ll_message = [], ll_substep_name = Some name,
                ll_event_type = ''substep_started'', ll_exit_code = None\<rparr>)
           | SubstepFinished name exit_code \<Rightarrow> (None,
               \<lparr>ll_sequence = n, ll_timestamp = clock n, ll_stream = stream, ll_message = [], ll_substep_name = Some name,
                ll_event_type = ''substep_finished'', ll_exit_code = Some exit_code\<rparr>)
           | Visible \<Rightarrow> (current,
               \<lparr>ll_sequence = n, ll_timestamp = clock n, ll_stream = stream, ll_message = line_text, ll_substep_name = current,
                ll_event_type = ''line'', ll_exit_code = None\<rparr>));
            (ls, c, m) = parse_lines dec clock stream raws current' (next_seq n)
        in (line # ls, c, m))"

definition parse_output_lines :: "(string \<Rightarrow> string option) \<Rightarrow> (nat \<Rightarrow> datetime) \<Rightarrow> LogStream \<Rightarrow> string \<Rightarrow> string option \<Rightarrow> nat \<Rightarrow> LogLine list \<times> string option \<times> nat" where
  "parse_output_lines dec clock stream text current n = parse_lines dec clock stream (str_lines text) current n"

section \<open>The collector\<close>

definition push_line :: "LogLine \<Rightarrow> LogCollector \<Rightarrow> LogCollector" where
  "push_line line c =
     (let buf = (if lc_max_lines c \<le> length (lc_buffer c) then drop 1 (lc_buffer c) else lc_buffer c)
      in c\<lparr>lc_buffer := buf @ [line], lc_sent := lc_sent c @ [line]\<rparr>)"

definition get_historical :: "nat \<Rightarrow> LogCollector \<Rightarrow> LogLine list" where
  "get_historical tail c = drop (length (lc_buffer c) - tail) (lc_buffer c)"

definition peek_unflushed :: "LogCollector \<Rightarrow> LogLine list \<times> LogCollector" where
  "peek_unflushed c =
     (let new_lines = filter (\<lambda>l. lc_flush_offset c \<le> ll_sequence l) (lc_buffer c)
      in (new_lines, if new_lines = [] then c else c\<lparr>lc_flush_offset := ll_sequence (last new_lines) + 1\<rparr>))"

definition drain :: "LogCollector \<Rightarrow> LogLine list \<times> LogCollector" where
  "drain c = (filter (\<lambda>l. lc_flush_offset c \<le> ll_sequence l) (lc_buffer c), c\<lparr>lc_buffer := []\<rparr>)"

text \<open>The messages of a Docker log stream (\<open>bollard::container::LogOutput\<close>); an item of the stream is a
  message or an error.\<close>

datatype LogOutput = LogStdOut string | LogStdErr string | LogStdIn string | LogConsole string

fun output_stream :: "LogOutput \<Rightarrow> (LogStream \<times> string) option" where
  "output_stream (LogStdOut message) = Some (Stdout, message)"
| "output_stream (LogStdErr message) = Some (Stderr, message)"
| "output_stream (LogConsole message) = Some (Stdout, message)"
| "output_stream (LogStdIn message) = None"

text \<open>The follow stream (\<open>start_log_stream\<close>): every line is numbered by the collector and pushed.\<close>

fun start_log_stream :: "(string \<Rightarrow> string option) \<Rightarrow> (nat \<Rightarrow> datetime) \<Rightarrow> (string + LogOutput) list \<Rightarrow> string option \<Rightarrow> LogCollector \<Rightarrow> LogCollector" where
  "start_log_stream dec clock [] current c = c"
| "start_log_stream dec clock (Inl e # outs) current c = c"
| "start_log_stream dec clock (Inr out # outs) current c =
     (case output_stream out of
        None \<Rightarrow> start_log_stream dec clock outs current c
      | Some (stream, message) \<Rightarrow>
          let (lines, current', n) = parse_output_lines dec clock stream (from_utf8_lossy message) current (lc_sequence c)
          in start_log_stream dec clock outs current' (foldl (\<lambda>c l. push_line l c) (c\<lparr>lc_sequence := n\<rparr>) lines))"

text \<open>The one-shot fetch of all container logs (\<open>fetch_remaining_logs\<close>).\<close>

fun fetch_lines :: "(string \<Rightarrow> string option) \<Rightarrow> (nat \<Rightarrow> datetime) \<Rightarrow> (string + LogOutput) list \<Rightarrow> string option \<Rightarrow> nat \<Rightarrow> string + LogLine list" where
  "fetch_lines dec clock [] current n = Inr []"
| "fetch_lines dec clock (Inl e # outs) current n = Inl (''Error reading container logs (one-shot fallback): '' @ e)"
| "fetch_lines dec clock (Inr out # outs) current n =
     (case output_stream out of
        None \<Rightarrow> fetch_lines dec clock outs current n
      | Some (stream, message) \<Rightarrow>
          let (lines, current', m) = parse_output_lines dec clock stream (from_utf8_lossy message) current n
          in and_then (fetch_lines dec clock outs current' m) (\<lambda>rest. Inr (lines @ rest)))"

definition render_overlap_key :: "LogLine \<Rightarrow> LogStream \<times> string" where
  "render_overlap_key line = (ll_stream line,
     ll_event_type line @ ''|'' @ (case ll_substep_name line of None \<Rightarrow> [] | Some s \<Rightarrow> s) @ ''|'' @
     (case ll_exit_code line of None \<Rightarrow> [] | Some v \<Rightarrow> show_int v) @ ''|'' @ ll_message line)"

definition snapshot_from :: "nat \<Rightarrow> LogCollector \<Rightarrow> (LogStream \<times> string) list" where
  "snapshot_from start_sequence c = map render_overlap_key (filter (\<lambda>line. start_sequence \<le> ll_sequence line) (lc_buffer c))"

fun overlap_search :: "'k list \<Rightarrow> 'k list \<Rightarrow> nat \<Rightarrow> nat" where
  "overlap_search existing fetched 0 = 0"
| "overlap_search existing fetched (Suc k) =
     (if drop (length existing - Suc k) existing = take (Suc k) fetched then Suc k
      else overlap_search existing fetched k)"

definition overlap_len :: "'k list \<Rightarrow> 'k list \<Rightarrow> nat" where
  "overlap_len existing fetched = overlap_search existing fetched (min (length existing) (length fetched))"

definition push_resequenced :: "LogLine \<Rightarrow> LogCollector \<Rightarrow> LogCollector" where
  "push_resequenced line c = push_line (line\<lparr>ll_sequence := lc_sequence c\<rparr>) (c\<lparr>lc_sequence := next_seq (lc_sequence c)\<rparr>)"

definition fetch_remaining_logs :: "(string \<Rightarrow> string option) \<Rightarrow> (nat \<Rightarrow> datetime) \<Rightarrow> (string + LogOutput) list \<Rightarrow> nat \<Rightarrow> LogCollector \<Rightarrow> (string + nat) \<times> LogCollector" where
  "fetch_remaining_logs dec clock outs container_log_start_seq c =
     (case fetch_lines dec clock outs None 0 of
        Inl e \<Rightarrow> (Inl e, c)
      | Inr fetched \<Rightarrow>
          let existing = snapshot_from container_log_start_seq c;
              overlap = overlap_len existing (map render_overlap_key fetched);
              rest = drop overlap fetched
          in (Inr (length rest), foldl (\<lambda>c l. push_resequenced l c) c rest))"

text \<open>
  The lines of a host-side checkout: \<open>spawn_pipe\<close> numbers them from the counter that
  \<open>perform_checkout\<close> starts at zero, not from the collector's counter.
\<close>

definition checkout_line :: "(nat \<Rightarrow> datetime) \<Rightarrow> nat \<Rightarrow> LogStream \<times> string \<Rightarrow> LogLine" where
  "checkout_line clock s out =
     \<lparr>ll_sequence = s, ll_timestamp = clock s, ll_stream = fst out, ll_message = snd out, ll_substep_name = None,
      ll_event_type = ''line'', ll_exit_code = None\<rparr>"

definition spawn_pipe :: "(nat \<Rightarrow> datetime) \<Rightarrow> (LogStream \<times> string) list \<Rightarrow> nat \<Rightarrow> LogCollector \<Rightarrow> LogCollector" where
  "spawn_pipe clock outs seq c = foldl (\<lambda>c (i, out). push_line (checkout_line clock (seq + i) out) c) c (enumerate 0 outs)"

section \<open>Persisting the lines\<close>

text \<open>
  What a job's log goes through while it runs: lines are pushed, and the periodic task of
  \<open>execute_job\<close> persists what \<open>peek_unflushed\<close> returns; when the job is over, what \<open>drain\<close> returns is
  persisted as well.
\<close>

datatype log_event = Emit LogLine | Flush

fun run_log :: "log_event list \<Rightarrow> LogCollector \<Rightarrow> LogLine list \<times> LogCollector" where
  "run_log [] c = ([], c)"
| "run_log (Emit l # es) c = run_log es (push_line l c)"
| "run_log (Flush # es) c =
     (let (ls, c') = peek_unflushed c; (rest, c'') = run_log es c' in (ls @ rest, c''))"

definition persisted :: "log_event list \<Rightarrow> LogCollector \<Rightarrow> LogLine list" where
  "persisted es c = (let (ls, c') = run_log es c in ls @ fst (drain c'))"

fun emitted :: "log_event list \<Rightarrow> LogLine list" where
  "emitted [] = []"
| "emitted (Emit l # es) = l # emitted es"
| "emitted (Flush # es) = emitted es"

text \<open>At most \<open>m\<close> lines arrive between two flushes, when \<open>k\<close> are waiting already.\<close>

fun gaps_ok :: "nat \<Rightarrow> nat \<Rightarrow> log_event list \<Rightarrow> bool" where
  "gaps_ok m k [] = (k \<le> m)"
| "gaps_ok m k (Emit l # es) = (k < m \<and> gaps_ok m (Suc k) es)"
| "gaps_ok m k (Flush # es) = (k \<le> m \<and> gaps_ok m 0 es)"

abbreviation seqs :: "LogLine list \<Rightarrow> nat list" where
  "seqs ls \<equiv> map ll_sequence ls"

definition collector_inv :: "LogLine list \<Rightarrow> LogLine list \<Rightarrow> LogCollector \<Rightarrow> bool" where
  "collector_inv old new c \<longleftrightarrow> lc_buffer c = old @ new \<and> (\<forall>l \<in> set old. ll_sequence l < lc_flush_offset c)
     \<and> (\<forall>l \<in> set new. lc_flush_offset c \<le> ll_sequence l)"

lemma push_line_simps [simp]:
  "lc_max_lines (push_line l c) = lc_max_lines c" "lc_flush_offset (push_line l c) = lc_flush_offset c"
  "lc_sequence (push_line l c) = lc_sequence c" "lc_sent (push_line l c) = lc_sent c @ [l]"
  by (simp_all add: push_line_def Let_def)

lemma peek_unflushed_inv:
  assumes "collector_inv old new c"
  shows "fst (peek_unflushed c) = new" and "fst (drain c) = new"
    and "sorted_wrt (<) (seqs new) \<Longrightarrow> collector_inv (old @ new) [] (snd (peek_unflushed c))"
    and "lc_max_lines (snd (peek_unflushed c)) = lc_max_lines c"
    and "lc_flush_offset (snd (peek_unflushed c)) = (if new = [] then lc_flush_offset c else ll_sequence (last new) + 1)"
proof -
  have new: "filter (\<lambda>l. lc_flush_offset c \<le> ll_sequence l) (lc_buffer c) = new"
    using assms by (auto simp: collector_inv_def filter_empty_conv not_le)
  then show "fst (peek_unflushed c) = new" "fst (drain c) = new"
    "lc_max_lines (snd (peek_unflushed c)) = lc_max_lines c"
    "lc_flush_offset (snd (peek_unflushed c)) = (if new = [] then lc_flush_offset c else ll_sequence (last new) + 1)"
    by (simp_all add: peek_unflushed_def drain_def Let_def)
  assume sorted: "sorted_wrt (<) (seqs new)"
  show "collector_inv (old @ new) [] (snd (peek_unflushed c))"
  proof (cases "new = []")
    case True
    with new assms show ?thesis by (auto simp: peek_unflushed_def collector_inv_def)
  next
    case False
    then obtain ns l where ns: "new = ns @ [l]" by (metis append_butlast_last_id)
    with sorted have "\<forall>x \<in> set ns. ll_sequence x < ll_sequence l" by (simp add: sorted_wrt_append)
    moreover have "lc_flush_offset c \<le> ll_sequence l" using assms ns by (simp add: collector_inv_def)
    ultimately show ?thesis using assms new ns by (auto simp: peek_unflushed_def collector_inv_def)
  qed
qed

lemma push_line_inv:
  assumes "collector_inv old new c" and "length new < lc_max_lines c" and "lc_flush_offset c \<le> ll_sequence l"
  shows "\<exists>old'. set old' \<subseteq> set old \<and> collector_inv old' (new @ [l]) (push_line l c)"
proof (cases "lc_max_lines c \<le> length (lc_buffer c)")
  case True
  with assms have "old \<noteq> []" by (auto simp: collector_inv_def)
  then have "collector_inv (tl old) (new @ [l]) (push_line l c)" and "set (tl old) \<subseteq> set old"
    using assms True by (cases old; auto simp: collector_inv_def push_line_def)+
  then show ?thesis by blast
next
  case False
  then have "collector_inv old (new @ [l]) (push_line l c)"
    using assms by (auto simp: collector_inv_def push_line_def)
  then show ?thesis by blast
qed

lemma persisted_inv:
  "collector_inv old new c \<Longrightarrow> gaps_ok (lc_max_lines c) (length new) es \<Longrightarrow>
   sorted_wrt (<) (seqs (new @ emitted es)) \<Longrightarrow> \<forall>l \<in> set (emitted es). lc_flush_offset c \<le> ll_sequence l \<Longrightarrow>
   persisted es c = new @ emitted es"
proof (induction es arbitrary: old new c)
  case Nil
  then show ?case using peek_unflushed_inv(2) by (auto simp: persisted_def)
next
  case (Cons e es)
  show ?case
  proof (cases e)
    case (Emit l)
    with Cons.prems obtain old' where "collector_inv old' (new @ [l]) (push_line l c)"
      using push_line_inv [of old new c l] by auto
    from Cons.IH [OF this] Cons.prems Emit show ?thesis by (simp add: persisted_def)
  next
    case Flush
    obtain c' where peek: "peek_unflushed c = (new, c')"
      using peek_unflushed_inv(1) [OF Cons.prems(1)] by (cases "peek_unflushed c") auto
    have "sorted_wrt (<) (seqs new)" using Cons.prems(3) by (simp add: sorted_wrt_append)
    from peek_unflushed_inv(3) [OF Cons.prems(1) this] peek
    have inv: "collector_inv (old @ new) [] c'" by simp
    have mx: "lc_max_lines c' = lc_max_lines c" using peek_unflushed_inv(4) [OF Cons.prems(1)] peek by simp
    have off: "\<forall>l \<in> set (emitted es). lc_flush_offset c' \<le> ll_sequence l"
    proof (cases "new = []")
      case True
      then show ?thesis using peek_unflushed_inv(5) [OF Cons.prems(1)] peek Cons.prems(4) Flush by simp
    next
      case False
      then have "\<forall>l \<in> set (emitted es). ll_sequence (last new) < ll_sequence l"
        using Cons.prems(3) Flush by (auto simp: sorted_wrt_append)
      then show ?thesis using peek_unflushed_inv(5) [OF Cons.prems(1)] peek False by (auto simp: Suc_le_eq)
    qed
    have "persisted es c' = emitted es"
      using Cons.IH [OF inv] mx Cons.prems Flush off by (simp add: sorted_wrt_append)
    then show ?thesis using peek Flush by (simp add: persisted_def split: prod.splits)
  qed
qed

section \<open>Numbering\<close>

lemma parse_lines_seqs:
  "parse_lines dec clock stream raws current n = (ls, c, m) \<Longrightarrow> n + length ls \<le> U64_MAX \<Longrightarrow>
   seqs ls = [n..<n + length ls] \<and> m = n + length ls"
proof (induction raws arbitrary: current n ls c m)
  case (Cons raw raws)
  show ?case
  proof (cases "trim_end_matches CHR 0x0D raw = []")
    case True
    with Cons show ?thesis by simp
  next
    case False
    with Cons.prems(1) obtain l ls' current' c' where ls: "ls = l # ls'" "ll_sequence l = n"
        and rest: "parse_lines dec clock stream raws current' (next_seq n) = (ls', c', m)"
      by (fastforce simp: Let_def split: ParsedControl.splits prod.splits)
    have "next_seq n = Suc n" using Cons.prems(2) ls by (simp add: next_seq_def)
    with Cons.IH [OF rest] Cons.prems(2) ls show ?thesis by (simp add: upt_rec)
  qed
qed simp

lemma fetch_lines_seqs:
  "fetch_lines dec clock outs current n = Inr ls \<Longrightarrow> n + length ls \<le> U64_MAX \<Longrightarrow> seqs ls = [n..<n + length ls]"
proof (induction dec clock outs current n arbitrary: ls rule: fetch_lines.induct)
  case (3 dec clock out outs current n)
  show ?case
  proof (cases "output_stream out")
    case None
    with 3 show ?thesis by simp
  next
    case (Some p)
    then obtain stream message where p: "output_stream out = Some (stream, message)" by (cases p) auto
    obtain ls1 current' m where one: "parse_output_lines dec clock stream (from_utf8_lossy message) current n = (ls1, current', m)"
      by (cases "parse_output_lines dec clock stream (from_utf8_lossy message) current n") auto
    with "3.prems"(1) p obtain rest where rest: "fetch_lines dec clock outs current' m = Inr rest" "ls = ls1 @ rest"
      by (auto simp: and_then_ok_iff)
    have s1: "seqs ls1 = [n..<n + length ls1]" "m = n + length ls1"
      using parse_lines_seqs one [unfolded parse_output_lines_def] "3.prems"(2) rest by fastforce+
    have "seqs rest = [m..<m + length rest]"
      using "3.IH"(2) [OF p refl refl one [symmetric] refl rest(1)] "3.prems"(2) s1 rest by simp
    with s1 rest(2) show ?thesis
      using upt_add_eq_append [of n "n + length ls1" "length rest"] by (simp add: add.assoc)
  qed
qed simp_all

lemma foldl_push_simps:
  "lc_sequence (foldl (\<lambda>c l. push_line l c) c ls) = lc_sequence c"
  "lc_max_lines (foldl (\<lambda>c l. push_line l c) c ls) = lc_max_lines c"
  "lc_flush_offset (foldl (\<lambda>c l. push_line l c) c ls) = lc_flush_offset c"
  "lc_sent (foldl (\<lambda>c l. push_line l c) c ls) = lc_sent c @ ls"
  by (induction ls arbitrary: c) simp_all

text \<open>The follow stream pushes the lines that the one-shot fetch of the same stream would return.\<close>

lemma push_line_sequence: "push_line l (c\<lparr>lc_sequence := n\<rparr>) = (push_line l c)\<lparr>lc_sequence := n\<rparr>"
  by (simp add: push_line_def Let_def)

lemma foldl_push_sequence:
  "foldl (\<lambda>c l. push_line l c) (c\<lparr>lc_sequence := n\<rparr>) ls = (foldl (\<lambda>c l. push_line l c) c ls)\<lparr>lc_sequence := n\<rparr>"
  by (induction ls arbitrary: c) (simp_all add: push_line_sequence)

lemma start_log_stream_lines:
  "fetch_lines dec clock outs current (lc_sequence c) = Inr ls \<Longrightarrow>
   \<exists>n. start_log_stream dec clock outs current c = (foldl (\<lambda>c l. push_line l c) c ls)\<lparr>lc_sequence := n\<rparr>"
proof (induction dec clock outs current c arbitrary: ls rule: start_log_stream.induct)
  case (1 dec clock current c)
  then show ?case by (auto intro!: exI [of _ "lc_sequence c"])
next
  case (3 dec clock out outs current c)
  show ?case
  proof (cases "output_stream out")
    case None
    with 3 show ?thesis by simp
  next
    case (Some p)
    then obtain stream message where p: "output_stream out = Some (stream, message)" by (cases p) auto
    obtain ls1 current' m where one: "parse_output_lines dec clock stream (from_utf8_lossy message) current (lc_sequence c) = (ls1, current', m)"
      by (cases "parse_output_lines dec clock stream (from_utf8_lossy message) current (lc_sequence c)") auto
    with "3.prems"(1) p obtain rest where rest: "fetch_lines dec clock outs current' m = Inr rest" "ls = ls1 @ rest"
      by (auto simp: and_then_ok_iff)
    let ?c = "foldl (\<lambda>c l. push_line l c) (c\<lparr>lc_sequence := m\<rparr>) ls1"
    have "lc_sequence ?c = m" by (simp add: foldl_push_simps)
    then have "\<exists>n. start_log_stream dec clock outs current' ?c = (foldl (\<lambda>c l. push_line l c) ?c rest)\<lparr>lc_sequence := n\<rparr>"
      using "3.IH"(2) [OF p refl refl one [symmetric] refl] rest by simp
    then show ?thesis using one p rest(2) by (auto simp: foldl_push_sequence)
  qed
qed simp

lemma foldl_push_buffer:
  "length (lc_buffer c) + length ls \<le> lc_max_lines c \<Longrightarrow>
   lc_buffer (foldl (\<lambda>c l. push_line l c) c ls) = lc_buffer c @ ls"
  by (induction ls arbitrary: c) (simp_all add: push_line_def Let_def)

lemma spawn_pipe_push: "spawn_pipe clock outs seq c =
    foldl (\<lambda>c l. push_line l c) c (map (\<lambda>(i, out). checkout_line clock (seq + i) out) (enumerate 0 outs))"
  by (simp add: spawn_pipe_def foldl_map case_prod_unfold)

lemma filter_seqs_drop:
  "seqs ls = [n..<n + length ls] \<Longrightarrow> filter (\<lambda>l. n + k \<le> ll_sequence l) ls = drop k ls"
proof (induction ls arbitrary: n k)
  case (Cons l ls)
  then have l: "ll_sequence l = n" "seqs ls = [Suc n..<Suc n + length ls]" by (simp_all add: upt_rec)
  show ?case
  proof (cases k)
    case 0
    have "ll_sequence ` set ls \<subseteq> {n..}" using arg_cong [OF l(2), of set] by (simp only: set_map set_upt) auto
    then have "\<forall>x \<in> set ls. n \<le> ll_sequence x" by auto
    with l 0 show ?thesis by (simp add: filter_id_conv)
  next
    case (Suc k')
    with Cons.IH [OF l(2), of k'] l show ?thesis by simp
  qed
qed simp

lemma checkout_lines_seqs:
  "seqs (map (\<lambda>(i, out). checkout_line clock i out) (enumerate n outs)) = [n..<n + length outs]"
  by (induction outs arbitrary: n) (simp_all add: checkout_line_def upt_rec)

section \<open>Overlap of the one-shot fetch\<close>

lemma overlap_len_prefix: "j \<le> length xs \<Longrightarrow> overlap_len (take j xs) xs = j"
  by (cases j) (simp_all add: overlap_len_def)

lemma overlap_search_shifted:
  assumes "distinct xs" and "0 < k" and "j \<le> length xs - k"
  shows "overlap_search (drop k xs) xs j = 0"
  using assms(3)
proof (induction j)
  case (Suc j)
  let ?i = "length xs - Suc j"
  have "drop (length (drop k xs) - Suc j) (drop k xs) = drop ?i xs" using Suc.prems by simp
  moreover have "drop ?i xs ! 0 = xs ! ?i" "take (Suc j) xs ! 0 = xs ! 0" using Suc.prems by auto
  moreover have "?i < length xs" "0 < ?i" "0 < length xs" using assms(2) Suc.prems by linarith+
  then have "xs ! ?i \<noteq> xs ! 0" using assms(1) nth_eq_iff_index_eq [of xs ?i 0] by simp
  ultimately have "drop (length (drop k xs) - Suc j) (drop k xs) \<noteq> take (Suc j) xs" by metis
  with Suc show ?case by simp
qed simp

lemma overlap_len_shifted: "distinct xs \<Longrightarrow> 0 < k \<Longrightarrow> overlap_len (drop k xs) xs = 0"
  by (simp add: overlap_len_def overlap_search_shifted)

lemma foldl_resequenced_sent:
  "map render_overlap_key (lc_sent (foldl (\<lambda>c l. push_resequenced l c) c ls)) =
   map render_overlap_key (lc_sent c) @ map render_overlap_key ls"
  by (induction ls arbitrary: c) (simp_all add: push_resequenced_def render_overlap_key_def)

section \<open>Markers\<close>

text \<open>What is assumed of the base64 codec: decoding inverts encoding, and an encoded name consists of the
  characters of the base64 alphabet.\<close>

definition b64_ok :: "(string \<Rightarrow> string) \<Rightarrow> (string \<Rightarrow> string option) \<Rightarrow> bool" where
  "b64_ok enc dec \<longleftrightarrow> (\<forall>s. dec (enc s) = Some s) \<and>
     (\<forall>s. \<forall>c \<in> set (enc s). is_ascii_alphanumeric c \<or> c \<in> set ''+/='')"

lemma b64_chars:
  assumes "b64_ok enc dec"
  shows "CHR '' '' \<notin> set (enc s)" "CHR ''|'' \<notin> set (enc s)" "CHR 0x0A \<notin> set (enc s)" "CHR 0x0D \<notin> set (enc s)"
  using assms by (force simp: b64_ok_def is_ascii_alphanumeric_def is_ascii_digit_def is_ascii_alphabetic_def)+

text \<open>A marker line as it arrives: with or without the timestamp that Docker puts in front.\<close>

definition with_timestamp :: "string option \<Rightarrow> string \<Rightarrow> string" where
  "with_timestamp ts s = (case ts of None \<Rightarrow> s | Some t \<Rightarrow> t @ '' '' @ s)"

definition start_marker :: "(string \<Rightarrow> string) \<Rightarrow> string \<Rightarrow> string" where
  "start_marker enc name = SUBSTEP_START_MARKER @ ''|'' @ enc name"

definition finish_marker :: "(string \<Rightarrow> string) \<Rightarrow> string \<Rightarrow> int \<Rightarrow> string" where
  "finish_marker enc name code = SUBSTEP_FINISH_MARKER @ ''|'' @ enc name @ ''|'' @ show_int code"

definition ts_ok :: "string option \<Rightarrow> bool" where
  "ts_ok ts = (case ts of None \<Rightarrow> True | Some t \<Rightarrow> CHR '' '' \<notin> set t \<and> CHR 0x0A \<notin> set t)"

lemma normalize_timestamp:
  "ts_ok ts \<Longrightarrow> CHR '' '' \<notin> set s \<Longrightarrow>
   (case split_once (with_timestamp ts s) '' '' of Some (_, rest) \<Rightarrow> rest | None \<Rightarrow> with_timestamp ts s) = s"
  by (cases ts) (simp_all add: with_timestamp_def ts_ok_def split_once_single)

lemma show_int_chars: "c \<in> set (show_int i) \<Longrightarrow> is_ascii_digit c \<or> c = CHR ''-''"
  by (auto simp: show_int_def dest: show_nat_digits split: if_splits)

lemma parse_start_marker:
  assumes "b64_ok enc dec" and "ts_ok ts" and "valid_utf8 name"
  shows "parse_control_marker dec (with_timestamp ts (start_marker enc name)) = SubstepStarted name"
proof -
  have "CHR '' '' \<notin> set (start_marker enc name)"
    using b64_chars(1) [OF assms(1)] by (simp add: start_marker_def SUBSTEP_START_MARKER_def)
  moreover have "strip_prefix (start_marker enc name) (SUBSTEP_START_MARKER @ ''|'') = Some (enc name)"
    by (simp add: strip_prefix_Some start_marker_def)
  ultimately show ?thesis using assms
    by (simp add: parse_control_marker_def normalize_timestamp decode_substep_name_def b64_ok_def)
qed

lemma parse_finish_marker:
  assumes "b64_ok enc dec" and "ts_ok ts" and "valid_utf8 name" and "I32_MIN \<le> code" and "code \<le> I32_MAX"
  shows "parse_control_marker dec (with_timestamp ts (finish_marker enc name code)) = SubstepFinished name code"
proof -
  have "CHR '' '' \<notin> set (finish_marker enc name code)"
    using b64_chars(1) [OF assms(1)] show_int_chars [of "CHR '' ''" code]
    by (auto simp: finish_marker_def SUBSTEP_FINISH_MARKER_def is_ascii_digit_def)
  moreover have "strip_prefix (finish_marker enc name code) (SUBSTEP_FINISH_MARKER @ ''|'') = Some (enc name @ ''|'' @ show_int code)"
    by (simp add: strip_prefix_Some finish_marker_def)
  moreover have "strip_prefix (finish_marker enc name code) (SUBSTEP_START_MARKER @ ''|'') = None"
    by (simp add: strip_prefix_def starts_with_def finish_marker_def SUBSTEP_FINISH_MARKER_def SUBSTEP_START_MARKER_def)
  moreover have "split_once (enc name @ ''|'' @ show_int code) ''|'' = Some (enc name, show_int code)"
    using split_once_single(1) [OF b64_chars(2) [OF assms(1)]] by simp
  ultimately show ?thesis using assms
    by (simp add: parse_control_marker_def normalize_timestamp decode_substep_name_def b64_ok_def parse_signed_show_int)
qed

definition visible_line :: "(string \<Rightarrow> string option) \<Rightarrow> string \<Rightarrow> bool" where
  "visible_line dec l \<longleftrightarrow> l \<noteq> [] \<and> CHR 0x0A \<notin> set l \<and> last l \<noteq> CHR 0x0D \<and> parse_control_marker dec l = Visible"

definition substep_output :: "(string \<Rightarrow> string) \<Rightarrow> string option \<Rightarrow> string \<Rightarrow> string list \<Rightarrow> int \<Rightarrow> string" where
  "substep_output enc ts name ls code = concat (map (\<lambda>l. l @ nl_str)
     (with_timestamp ts (start_marker enc name) # ls @ [with_timestamp ts (finish_marker enc name code)]))"

abbreviation line_view :: "LogLine \<Rightarrow> string \<times> string option \<times> string \<times> int option" where
  "line_view l \<equiv> (ll_event_type l, ll_substep_name l, ll_message l, ll_exit_code l)"

lemma marker_line_ok:
  assumes "b64_ok enc dec" and "ts_ok ts" and "s \<in> {start_marker enc name, finish_marker enc name code}"
  shows "CHR 0x0A \<notin> set (with_timestamp ts s)" and "with_timestamp ts s \<noteq> []" and "last (with_timestamp ts s) \<noteq> CHR 0x0D"
proof -
  have "CHR 0x0A \<notin> set s" "CHR 0x0D \<notin> set s" "s \<noteq> []"
    using assms(3) b64_chars(3,4) [OF assms(1), of name] show_int_chars [of "CHR 0x0A" code] show_int_chars [of "CHR 0x0D" code]
    by (auto simp: start_marker_def finish_marker_def SUBSTEP_START_MARKER_def SUBSTEP_FINISH_MARKER_def is_ascii_digit_def)
  moreover from this have "last s \<noteq> CHR 0x0D" using last_in_set [of s] by metis
  ultimately show "CHR 0x0A \<notin> set (with_timestamp ts s)" "with_timestamp ts s \<noteq> []" "last (with_timestamp ts s) \<noteq> CHR 0x0D"
    using assms(2) by (auto simp: with_timestamp_def ts_ok_def split: option.splits)
qed

lemma parse_lines_visible:
  "\<forall>l \<in> set vs. visible_line dec l \<Longrightarrow> parse_lines dec clock stream rest current ((next_seq ^^ length vs) n) = (ls', c, m) \<Longrightarrow>
   \<exists>ls. parse_lines dec clock stream (vs @ rest) current n = (ls @ ls', c, m)
      \<and> map line_view ls = map (\<lambda>v. (''line'', current, v, None)) vs"
proof (induction vs arbitrary: n)
  case (Cons v vs)
  have "parse_lines dec clock stream rest current ((next_seq ^^ length vs) (next_seq n)) = (ls', c, m)"
    using Cons.prems(2) by (simp add: funpow_swap1)
  then obtain ls where "parse_lines dec clock stream (vs @ rest) current (next_seq n) = (ls @ ls', c, m)"
      "map line_view ls = map (\<lambda>v. (''line'', current, v, None)) vs"
    using Cons.IH [of "next_seq n"] Cons.prems(1) by auto
  moreover have "visible_line dec v" using Cons.prems(1) by simp
  ultimately show ?case by (simp add: visible_line_def trim_end_matches_id Let_def)
qed simp

text \<open>The script prints the markers of its substeps.\<close>

lemma build_job_script_blocks:
  assumes "spec_substeps spec \<noteq> []"
  shows "build_job_script enc spec = concat (map (\<lambda>st.
    ''printf '' @ sq_str @ ''%s'' @ backslash_n @ sq_str @ '' '' @ sq_str @ start_marker enc (substep_name st) @ sq_str @ nl_str
    @ ''('' @ nl_str @ ''set -e'' @ nl_str @ concat (map (\<lambda>c. c @ nl_str) (substep_commands st)) @ '')'' @ nl_str @ ''status=$?'' @ nl_str
    @ ''printf '' @ sq_str @ ''%s|%s'' @ backslash_n @ sq_str @ '' '' @ sq_str @ SUBSTEP_FINISH_MARKER @ ''|'' @ enc (substep_name st) @ sq_str @ '' '' @ dq_str @ ''$status'' @ dq_str @ nl_str
    @ ''if [ '' @ dq_str @ ''$status'' @ dq_str @ '' -ne 0 ]; then'' @ nl_str @ ''  exit '' @ dq_str @ ''$status'' @ dq_str @ nl_str @ ''fi'' @ nl_str) (spec_substeps spec))"
  using assms unfolding build_job_script_def Let_def start_marker_def
  by (simp only: foldl_append_concat append_assoc if_False append_Nil)

text \<open>A codec for the witnesses: two letters for every byte.\<close>

definition enc16 :: "string \<Rightarrow> string" where
  "enc16 s = concat (map (\<lambda>c. [char_of (65 + byte c div 16), char_of (65 + byte c mod 16)]) s)"

fun dec16 :: "string \<Rightarrow> string option" where
  "dec16 [] = Some []"
| "dec16 [a] = None"
| "dec16 (a # b # s) = map_option (\<lambda>t. char_of ((byte a - 65) * 16 + (byte b - 65)) # t) (dec16 s)"

lemma b64_ok_16: "b64_ok enc16 dec16"
proof -
  have lt: "byte c div 16 < 16" "byte c mod 16 < 16" for c :: char
    by (auto intro: less_mult_imp_div_less)
  have m: "(65 + byte c div 16) mod 256 = 65 + byte c div 16" "(65 + byte c mod 16) mod 256 = 65 + byte c mod 16" for c :: char
    using lt [of c] by simp_all
  have "dec16 (enc16 s) = Some s" for s
    by (induction s) (simp_all add: enc16_def m)
  moreover have "is_ascii_alphanumeric d" if "d \<in> set (enc16 s)" for d s
  proof -
    from that obtain c where "d = char_of (65 + byte c div 16) \<or> d = char_of (65 + byte c mod 16)"
      by (auto simp: enc16_def)
    then have "65 \<le> byte d \<and> byte d \<le> 80" using lt [of c] m [of c] by auto
    then show ?thesis by (simp add: is_ascii_alphanumeric_def is_ascii_alphabetic_def)
  qed
  ultimately show ?thesis by (simp add: b64_ok_def)
qed

definition sample_ab :: "nat \<Rightarrow> LogLine" where
  "sample_ab n = checkout_line (\<lambda>_. 0) n (Stdout, if n = 0 then ''a'' else ''b'')"

lemma fetch_lines_ab: "fetch_lines dec16 (\<lambda>_. 0) [Inr (LogStdOut (''a'' @ nl_str @ ''b'' @ nl_str))] None 0 = Inr (map sample_ab [0, 1])"
  by (simp add: parse_output_lines_def from_utf8_lossy.simps utf8_head_def byte_at_def str_lines_def strip_cr_def
      trim_end_matches_def parse_control_marker_def split_once_def starts_with_def strip_prefix_def sample_ab_def
      SUBSTEP_START_MARKER_def SUBSTEP_FINISH_MARKER_def checkout_line_def next_seq_def)

section \<open>Properties\<close>

text \<open>
  C35. The output of a substep comes back as that substep's log: for the lines that a job script prints
  around the commands of a substep (with or without Docker's timestamps), the parser reports the start
  of the substep, every visible line in order and attributed to it, and its end with its exit code, and
  leaves no substep open. Assumed of the base64 codec: decoding inverts encoding, into its alphabet.
\<close>

theorem substep_output_roundtrip:
  assumes "b64_ok enc dec" and "ts_ok ts" and "valid_utf8 name" and "I32_MIN \<le> code" and "code \<le> I32_MAX"
    and "\<forall>l \<in> set vs. visible_line dec l"
  shows "\<exists>ls m. parse_output_lines dec clock stream (substep_output enc ts name vs code) current n = (ls, None, m)
    \<and> map line_view ls = (''substep_started'', Some name, [], None)
        # map (\<lambda>v. (''line'', Some name, v, None)) vs @ [(''substep_finished'', Some name, [], Some code)]"
proof -
  let ?s = "with_timestamp ts (start_marker enc name)" and ?f = "with_timestamp ts (finish_marker enc name code)"
  have "str_lines (substep_output enc ts name vs code) = ?s # vs @ [?f]"
    unfolding substep_output_def using assms(6) marker_line_ok [OF assms(1,2), of _ name code]
    by (intro str_lines_concat) (auto simp: visible_line_def)
  moreover obtain fl m where f: "parse_lines dec clock stream [?f] (Some name) ((next_seq ^^ length vs) (next_seq n)) = ([fl], None, m)"
      "line_view fl = (''substep_finished'', Some name, [], Some code)"
    using parse_finish_marker [OF assms(1-5)] marker_line_ok(2,3) [OF assms(1,2), of _ name code]
    by (simp add: trim_end_matches_id Let_def)
  moreover obtain ls where "parse_lines dec clock stream (vs @ [?f]) (Some name) (next_seq n) = (ls @ [fl], None, m)"
      "map line_view ls = map (\<lambda>v. (''line'', Some name, v, None)) vs"
    using parse_lines_visible [OF assms(6) f(1)] by blast
  ultimately show ?thesis
    using parse_start_marker [OF assms(1-3)] marker_line_ok(2,3) [OF assms(1,2), of "start_marker enc name" name code]
    by (simp add: parse_output_lines_def trim_end_matches_id Let_def)
qed

theorem substep_output_roundtrip_witness:
  "\<exists>ls m. parse_output_lines dec16 (\<lambda>_. 0) Stdout (substep_output enc16 None ''ab'' [''hi''] 7) None 0 = (ls, None, m)
     \<and> map line_view ls = [(''substep_started'', Some ''ab'', [], None), (''line'', Some ''ab'', ''hi'', None),
                          (''substep_finished'', Some ''ab'', [], Some 7)]"
proof -
  have "valid_utf8 ''ab''" by (simp add: valid_utf8.simps utf8_head_def byte_at_def)
  moreover have "visible_line dec16 ''hi''"
    by (simp add: visible_line_def parse_control_marker_def split_once_def starts_with_def strip_prefix_def
      SUBSTEP_START_MARKER_def SUBSTEP_FINISH_MARKER_def)
  ultimately show ?thesis
    using substep_output_roundtrip [OF b64_ok_16, of None "''ab''" 7 "[''hi'']" "\<lambda>_. 0" Stdout None 0]
    by (simp add: ts_ok_def)
qed


definition sample_line :: "nat \<Rightarrow> LogLine" where
  "sample_line n = checkout_line (\<lambda>_. 0) n (Stdout, ''x'')"


text \<open>
  A host-side checkout hides the beginning of the container's log: the checkout numbers its lines
  from its own counter and the container's lines start at the collector's counter, which is still zero.
  Once the \<open>k\<close> lines of the checkout have been flushed, the first \<open>k\<close> lines of the container are below
  the flush offset, so neither a later flush nor the final drain ever persists them.
\<close>

theorem checkout_hides_container_lines:
  assumes "outs \<noteq> []" and "length outs + length ls \<le> m" and "m \<le> U64_MAX"
    and "fetch_lines dec clock container None 0 = Inr ls"
  shows "let c1 = spawn_pipe cclock outs 0 (with_capacity m); (flushed, c2) = peek_unflushed c1;
             c3 = start_log_stream dec clock container None c2
         in flushed = lc_buffer c1 \<and> length flushed = length outs \<and> lc_buffer c3 = flushed @ ls
           \<and> fst (peek_unflushed c3) = drop (length outs) ls \<and> fst (drain c3) = drop (length outs) ls"
proof -
  define L where "L = map (\<lambda>(i, out). checkout_line cclock i out) (enumerate 0 outs)"
  define c1 where "c1 = spawn_pipe cclock outs 0 (with_capacity m)"
  have L: "length L = length outs" "seqs L = [0..<length outs]"
    using checkout_lines_seqs [of cclock 0 outs] by (simp_all add: L_def)
  have c1: "c1 = foldl (\<lambda>c l. push_line l c) (with_capacity m) L" by (simp add: c1_def L_def spawn_pipe_push)
  have b1: "lc_buffer c1 = L" "lc_flush_offset c1 = 0" "lc_sequence c1 = 0" "lc_max_lines c1 = m"
    using assms(2) L(1) by (simp_all add: c1 foldl_push_buffer foldl_push_simps with_capacity_def)
  have "L \<noteq> []" using assms(1) L(1) by auto
  then have "ll_sequence (last L) = last (seqs L)" by (simp add: last_map)
  then have last: "ll_sequence (last L) + 1 = length outs" using L assms(1) by simp
  define c2 where "c2 = c1\<lparr>lc_flush_offset := length outs\<rparr>"
  have peek: "peek_unflushed c1 = (L, c2)"
    using \<open>L \<noteq> []\<close> last by (simp add: peek_unflushed_def b1 c2_def Let_def)
  define c3 where "c3 = start_log_stream dec clock container None c2"
  obtain n where "c3 = (foldl (\<lambda>c l. push_line l c) c2 ls)\<lparr>lc_sequence := n\<rparr>"
    using start_log_stream_lines [of dec clock container None c2 ls] assms(4) b1 by (auto simp: c3_def c2_def)
  then have c3: "lc_buffer c3 = L @ ls" "lc_flush_offset c3 = length outs"
    using assms(2) L(1) b1 by (simp_all add: foldl_push_buffer foldl_push_simps c2_def)
  have "seqs ls = [0..<0 + length ls]" using fetch_lines_seqs [OF assms(4)] assms(2,3) by simp
  then have "filter (\<lambda>l. length outs \<le> ll_sequence l) ls = drop (length outs) ls"
    using filter_seqs_drop [of ls 0 "length outs"] by simp
  moreover have "filter (\<lambda>l. length outs \<le> ll_sequence l) L = []"
    using filter_seqs_drop [of L 0 "length outs"] L by simp
  ultimately have "fst (peek_unflushed c3) = drop (length outs) ls" "fst (drain c3) = drop (length outs) ls"
    by (simp_all add: peek_unflushed_def drain_def c3 Let_def)
  then show ?thesis using peek c3(1) b1(1) L(1) by (simp add: c1_def [symmetric] c3_def [symmetric] Let_def)
qed

theorem checkout_hides_container_lines_witness:
  "let c1 = spawn_pipe (\<lambda>_. 0) [(Stderr, ''Cloning'')] 0 (with_capacity 9); (flushed, c2) = peek_unflushed c1;
       c3 = start_log_stream dec16 (\<lambda>_. 0) [Inr (LogStdOut (''a'' @ nl_str @ ''b'' @ nl_str))] None c2
   in map ll_message flushed = [''Cloning''] \<and> map ll_message (lc_buffer c3) = [''Cloning'', ''a'', ''b'']
     \<and> map ll_message (fst (drain c3)) = [''b'']"
  using checkout_hides_container_lines [of "[(Stderr, ''Cloning'')]" "map sample_ab [0, 1]" 9 dec16 "\<lambda>_. 0"
      "[Inr (LogStdOut (''a'' @ nl_str @ ''b'' @ nl_str))]" "\<lambda>_. 0"] fetch_lines_ab
  by (simp add: sample_ab_def checkout_line_def Let_def spawn_pipe_def push_line_def with_capacity_def split: prod.splits)

text \<open>
  The one-shot fetch after a failed job completes the log when the follow stream saw a beginning of
  the output: exactly the missing lines are added. If the beginning is what the buffer lacks (the stream
  attached late, or more lines than the ring buffer holds went through it) and the lines are distinct,
  nothing is recognised as known and every line is added a second time.
\<close>

theorem fetch_remaining_overlap:
  assumes "fetch_lines dec clock outs None 0 = Inr fetched"
  shows "(\<forall>j \<le> length fetched. snapshot_from start c = take j (map render_overlap_key fetched) \<longrightarrow>
      (\<exists>c'. fetch_remaining_logs dec clock outs start c = (Inr (length fetched - j), c')
        \<and> map render_overlap_key (lc_sent c') = map render_overlap_key (lc_sent c @ drop j fetched)))
    \<and> (\<forall>k > 0. distinct (map render_overlap_key fetched) \<and> snapshot_from start c = drop k (map render_overlap_key fetched) \<longrightarrow>
      (\<exists>c'. fetch_remaining_logs dec clock outs start c = (Inr (length fetched), c')
        \<and> map render_overlap_key (lc_sent c') = map render_overlap_key (lc_sent c @ fetched)))"
  by (simp add: fetch_remaining_logs_def assms overlap_len_prefix overlap_len_shifted foldl_resequenced_sent Let_def)

theorem fetch_remaining_overlap_witness:
  "\<exists>c'. fetch_remaining_logs dec16 (\<lambda>_. 0) [Inr (LogStdOut (''a'' @ nl_str @ ''b'' @ nl_str))] 0
      ((with_capacity 9)\<lparr>lc_buffer := [checkout_line (\<lambda>_. 0) 0 (Stdout, ''b'')], lc_sent := [checkout_line (\<lambda>_. 0) 0 (Stdout, ''b'')]\<rparr>)
    = (Inr 2, c') \<and> map render_overlap_key (lc_sent c') = [(Stdout, ''line|||b''), (Stdout, ''line|||a''), (Stdout, ''line|||b'')]"
  using conjunct2 [OF fetch_remaining_overlap [OF fetch_lines_ab, of 0
      "(with_capacity 9)\<lparr>lc_buffer := [checkout_line (\<lambda>_. 0) 0 (Stdout, ''b'')], lc_sent := [checkout_line (\<lambda>_. 0) 0 (Stdout, ''b'')]\<rparr>"],
      rule_format, of 1]
  by (simp add: sample_ab_def checkout_line_def render_overlap_key_def snapshot_from_def with_capacity_def
      numeral_2_eq_2)

end
