(* ===== verification/Error_Display.thy ===== *)
theory Error_Display
  imports Muli_Error Rust_Text
begin

text \<open>
  The messages of the error type (\<open>muli-core/src/error.rs\<close>, the \<open>#[error(...)]\<close> attributes), and the
  \<open>Debug\<close> form of a \<open>Duration\<close> that one of them prints.
\<close>

definition pad_zeros :: "nat \<Rightarrow> string \<Rightarrow> string" where
  "pad_zeros n s = replicate (n - length s) (CHR ''0'') @ s"

definition show_decimal :: "nat \<Rightarrow> nat \<Rightarrow> nat \<Rightarrow> string \<Rightarrow> string" where
  "show_decimal whole frac digits sfx =
     show_nat whole @ (if frac = 0 then [] else ''.'' @ trim_end_matches (CHR ''0'') (pad_zeros digits (show_nat frac))) @ sfx"

definition show_duration :: "duration \<Rightarrow> string" where
  "show_duration d =
     (let secs = d div 1000000000; nanos = d mod 1000000000 in
      if 0 < secs then show_decimal secs nanos 9 ''s''
      else if 1000000 \<le> nanos then show_decimal (nanos div 1000000) (nanos mod 1000000) 6 ''ms''
      else if 1000 \<le> nanos then show_decimal (nanos div 1000) (nanos mod 1000) 3 [CHR 0xC2, CHR 0xB5, CHR ''s'']
      else show_decimal nanos 0 1 ''ns'')"

fun MuliError_to_string :: "MuliError \<Rightarrow> string" where
  "MuliError_to_string (Docker m) = ''Docker error: '' @ m"
| "MuliError_to_string (ContainerNotFound m) = ''Container not found: '' @ m"
| "MuliError_to_string (ImagePullFailed img reason) = ''Image pull failed for '' @ img @ '': '' @ reason"
| "MuliError_to_string (JobNotFound m) = ''Job not found: '' @ m"
| "MuliError_to_string (InvalidStateTransition from to) = ''Invalid state transition from '' @ from @ '' to '' @ to"
| "MuliError_to_string (Timeout d) = ''Job timed out after '' @ show_duration d"
| "MuliError_to_string (Cancelled_err m) = ''Job cancelled: '' @ m"
| "MuliError_to_string (AgentNotFound m) = ''Agent not found: '' @ m"
| "MuliError_to_string (InsufficientResources needed available) =
     ''Insufficient resources: needed '' @ needed @ '', available '' @ available"
| "MuliError_to_string (ConcurrencyLimit m) = ''Concurrency limit reached: '' @ m"
| "MuliError_to_string (Storage m) = ''Storage error: '' @ m"
| "MuliError_to_string (Conflict m) = ''Conflict: '' @ m"
| "MuliError_to_string (Grpc m) = ''gRPC error: '' @ m"
| "MuliError_to_string (Validation m) = ''Validation error: '' @ m"
| "MuliError_to_string (Internal m) = ''Internal error: '' @ m"
| "MuliError_to_string (Pipeline m) = ''Pipeline error: '' @ m"
| "MuliError_to_string (PipelineYamlError m) = ''Pipeline YAML error: '' @ m"
| "MuliError_to_string (PipelineDagCycle m) = ''Pipeline DAG cycle: '' @ m"
| "MuliError_to_string (NotFound m) = ''Not found: '' @ m"
| "MuliError_to_string (PermissionDenied m) = ''Permission denied: '' @ m"
| "MuliError_to_string (TenantSuspended m) = ''Tenant suspended: '' @ m"
| "MuliError_to_string (QuotaExceeded m) = ''Quota exceeded: '' @ m"

end
