(* ===== verification/Job_Execution.thy ===== *)
theory Job_Execution
  imports Job_Store Step_Store Log_Collector Error_Display Retry Scheduler
begin

text \<open>
  Execution of a job by the server (\<open>muli-server/src/execution.rs\<close>), recovery after a restart
  (\<open>recovery.rs\<close>) and the watchdog for stale jobs (\<open>watchdog.rs\<close>), over any job store and any step store.

  The container run is the argument \<open>exec\<close>: for a job, the result of \<open>DockerExecutor::execute_job\<close> and
  what happens to its log meanwhile, lines and ticks of the flush task in their order. What the rest of
  the server does to the job store during the run (a cancellation, for instance) is the argument
  \<open>meanwhile\<close>. The clock readings are the fields of \<open>ExecClock\<close>. The log store is the in-memory one
  (\<open>muli-store/src/memory/job_log_store.rs\<close>). The histogram of durations is left out.
\<close>

section \<open>Logs\<close>

definition append_logs :: "string \<Rightarrow> StoredLogLine list \<Rightarrow> StoredLogLine list table \<Rightarrow> StoredLogLine list table" where
  "append_logs jid ls logs = tbl_insert jid ((case tbl_get logs jid of None \<Rightarrow> [] | Some v \<Rightarrow> v) @ ls) logs"

definition get_logs :: "string \<Rightarrow> nat \<Rightarrow> StoredLogLine list table \<Rightarrow> StoredLogLine list" where
  "get_logs jid n logs = (let all = (case tbl_get logs jid of None \<Rightarrow> [] | Some v \<Rightarrow> v) in drop (length all - n) all)"

definition lines_to_stored :: "LogLine list \<Rightarrow> StoredLogLine list" where
  "lines_to_stored ls = map (\<lambda>l. \<lparr>log_sequence = ll_sequence l, log_timestamp = ll_timestamp l,
     log_stream = (case ll_stream l of Stdout \<Rightarrow> ''stdout'' | Stderr \<Rightarrow> ''stderr''), log_message = ll_message l,
     log_substep_name = ll_substep_name l, log_event_type = Some (ll_event_type l), log_exit_code = ll_exit_code l\<rparr>) ls"

text \<open>One line of the log, applied to the substep it belongs to.\<close>

definition apply_event :: "LogLine \<Rightarrow> JobSubstepRun \<Rightarrow> JobSubstepRun" where
  "apply_event line substep =
     (if ll_event_type line = ''substep_started'' then
        substep\<lparr>sub_started_at := (if sub_started_at substep = None then Some (ll_timestamp line) else sub_started_at substep),
          log_start_sequence := (if log_start_sequence substep = None then Some (saturating_add_u64 (ll_sequence line) 1)
                                 else log_start_sequence substep),
          sub_state := StepRunning\<rparr>
      else if ll_event_type line = ''line'' then
        substep\<lparr>log_start_sequence := (if log_start_sequence substep = None then Some (ll_sequence line) else log_start_sequence substep),
          log_end_sequence := Some (ll_sequence line)\<rparr>
      else if ll_event_type line = ''substep_finished'' then
        substep\<lparr>sub_finished_at := Some (ll_timestamp line), sub_exit_code := ll_exit_code line,
          log_end_sequence := (case (log_end_sequence substep, log_start_sequence substep) of
              (None, Some start) \<Rightarrow> if start < ll_sequence line then Some (ll_sequence line - 1) else None
            | (e, _) \<Rightarrow> e),
          sub_state := (if ll_exit_code line = Some 0 then StepSucceeded else StepFailed)\<rparr>
      else substep)"

text \<open>The first substep of the given name is rewritten, as \<open>iter_mut().find(..)\<close> does.\<close>

fun update_first :: "('a \<Rightarrow> bool) \<Rightarrow> ('a \<Rightarrow> 'a) \<Rightarrow> 'a list \<Rightarrow> 'a list" where
  "update_first p f [] = []"
| "update_first p f (x # xs) = (if p x then f x # xs else x # update_first p f xs)"

definition substep_line :: "StepRun \<times> bool \<Rightarrow> LogLine \<Rightarrow> StepRun \<times> bool" where
  "substep_line acc line =
     (case (acc, ll_substep_name line) of
        ((step, changed), None) \<Rightarrow> (step, changed)
      | ((step, changed), Some name) \<Rightarrow>
          let missing = (\<not> list_ex (\<lambda>e. sub_name e = name) (sr_substeps step));
              subs = (if missing then sr_substeps step @ [JobSubstepRun_new name] else sr_substeps step)
          in (step\<lparr>sr_substeps := update_first (\<lambda>e. sub_name e = name) (apply_event line) subs\<rparr>,
              changed \<or> missing \<or> ll_event_type line \<in> {''substep_started'', ''line'', ''substep_finished''}))"

definition update_pipeline_substeps :: "'p StepRunStore \<Rightarrow> string \<Rightarrow> string \<Rightarrow> LogLine list \<Rightarrow> 'p \<Rightarrow> 'p" where
  "update_pipeline_substeps P tenant sid ls p =
     (case sp_get_step P tenant sid p of
        Inr (Some step) \<Rightarrow>
          let (step', changed) = foldl substep_line (step, False) ls
          in if changed then snd (sp_update_step P step' p) else p
      | _ \<Rightarrow> p)"

section \<open>The server's state\<close>

record ('s, 'p) ServerState =
  job_db :: 's
  steps_db :: 'p
  log_db :: "StoredLogLine list table"
  collectors :: "unit table"
  sched_queue :: PriorityQueue
  delayed :: "(nat \<times> string \<times> PriorityTier \<times> string) list"
  jobs_running :: int
  jobs_completed :: "(string \<times> PriorityTier \<times> JobState) list"

text \<open>
  \<open>collectors\<close> are the jobs with a live log collector, \<open>delayed\<close> the tasks that will re-enqueue a job after
  a delay, \<open>jobs_running\<close> and \<open>jobs_completed\<close> the gauge and the counter of the metrics.
\<close>

record ExecClock =
  at_scheduled :: datetime
  at_running :: datetime
  at_final :: datetime
  at_finished :: datetime

text \<open>The lines of a flush or of the final drain, written to the log store and to the step.\<close>

definition persist_lines :: "'p StepRunStore \<Rightarrow> string \<Rightarrow> Job \<Rightarrow> LogLine list \<Rightarrow> ('s, 'p) ServerState \<Rightarrow> ('s, 'p) ServerState" where
  "persist_lines P jid job ls st =
     (if ls = [] then st
      else st\<lparr>log_db := append_logs jid (lines_to_stored ls) (log_db st),
        steps_db := (case pipeline_step_run_id (job_spec job) of None \<Rightarrow> steps_db st
          | Some sid \<Rightarrow> update_pipeline_substeps P (job_tenant job) sid ls (steps_db st))\<rparr>)"

fun run_job_log :: "'p StepRunStore \<Rightarrow> string \<Rightarrow> Job \<Rightarrow> log_event list \<Rightarrow> LogCollector \<Rightarrow> ('s, 'p) ServerState \<Rightarrow> LogCollector \<times> ('s, 'p) ServerState" where
  "run_job_log P jid job [] c st = (c, st)"
| "run_job_log P jid job (Emit l # es) c st = run_job_log P jid job es (push_line l c) st"
| "run_job_log P jid job (Flush # es) c st =
     (let (ls, c') = peek_unflushed c in run_job_log P jid job es c' (persist_lines P jid job ls st))"

definition drain_and_persist_logs :: "'p StepRunStore \<Rightarrow> string \<Rightarrow> Job \<Rightarrow> LogCollector \<Rightarrow> ('s, 'p) ServerState \<Rightarrow> ('s, 'p) ServerState" where
  "drain_and_persist_logs P jid job c st = persist_lines P jid job (fst (drain c)) st"

definition record_completion_metrics :: "Job \<Rightarrow> JobState \<Rightarrow> ('s, 'p) ServerState \<Rightarrow> ('s, 'p) ServerState" where
  "record_completion_metrics job final st =
     st\<lparr>jobs_running := jobs_running st - 1,
        jobs_completed := jobs_completed st @ [(job_tenant job, priority_tier (job_spec job), final)]\<rparr>"

section \<open>Executing a job\<close>

text \<open>Up to the start of the container; \<open>None\<close> is an early return.\<close>

definition begin_execution :: "'s JobStore \<Rightarrow> ExecClock \<Rightarrow> string \<Rightarrow> ('s, 'p) ServerState \<Rightarrow> Job option \<times> ('s, 'p) ServerState" where
  "begin_execution S ck jid st =
     (case st_get_job S jid (job_db st) of
        Inr (Some job) \<Rightarrow>
          (case st_update_state S (at_scheduled ck) jid Pending Scheduled (job_db st) of
             (Inl _, s1) \<Rightarrow> (None, st\<lparr>job_db := s1\<rparr>)
           | (Inr _, s1) \<Rightarrow>
               let st1 = st\<lparr>job_db := s1, collectors := tbl_insert jid () (collectors st)\<rparr> in
               (case st_update_state S (at_running ck) jid Scheduled Running s1 of
                  (Inl _, s2) \<Rightarrow> (None, st1\<lparr>job_db := s2, collectors := tbl_remove jid (collectors st1)\<rparr>)
                | (Inr _, s2) \<Rightarrow> (Some job, st1\<lparr>job_db := s2, jobs_running := jobs_running st1 + 1\<rparr>)))
      | _ \<Rightarrow> (None, st))"

text \<open>The state a failed execution ends in.\<close>

definition error_state :: "MuliError \<Rightarrow> JobState" where
  "error_state e =
     (if is_retryable e then Failed
      else (case e of Timeout _ \<Rightarrow> TimedOut | Cancelled_err _ \<Rightarrow> Cancelled | _ \<Rightarrow> Failed))"

text \<open>The compare-and-swap into the final state, and the result if it succeeds.\<close>

definition record_result :: "'s JobStore \<Rightarrow> ExecClock \<Rightarrow> string \<Rightarrow> Job \<Rightarrow> JobState \<Rightarrow> JobResult \<Rightarrow> 's \<Rightarrow> 's" where
  "record_result S ck jid job final res s =
     (case st_update_state S (at_final ck) jid Running final s of
        (Inl _, s1) \<Rightarrow> s1
      | (Inr _, s1) \<Rightarrow> snd (st_update_job S (job\<lparr>job_state := final, job_result := Some res,
            job_finished_at := Some (at_finished ck)\<rparr>) s1))"

definition finish_execution :: "'s JobStore \<Rightarrow> RetryPolicy \<Rightarrow> ExecClock \<Rightarrow> string \<Rightarrow> Job \<Rightarrow> JobResult result \<Rightarrow> ('s, 'p) ServerState \<Rightarrow> ('s, 'p) ServerState" where
  "finish_execution S policy ck jid job exec_result st =
     (case exec_result of
        Inr res \<Rightarrow>
          let final = (if res_exit_code res = Some 0 then Succeeded else Failed);
              st1 = record_completion_metrics job final (st\<lparr>job_db := record_result S ck jid job final res (job_db st)\<rparr>)
          in st1\<lparr>collectors := tbl_remove jid (collectors st1)\<rparr>
      | Inl e \<Rightarrow>
          (case should_retry policy e (retry_count job) of
             Some delay \<Rightarrow>
               let st1 = (case st_update_state S (at_final ck) jid Running Pending (job_db st) of
                     (Inr _, s1) \<Rightarrow>
                       st\<lparr>job_db := snd (st_update_job S (job\<lparr>job_state := Pending, retry_count := retry_count job + 1,
                              job_updated_at := at_finished ck\<rparr>) s1),
                          delayed := (delay, jid, priority_tier (job_spec job), job_tenant job) # delayed st\<rparr>
                   | (Inl _, s1) \<Rightarrow> st\<lparr>job_db := s1\<rparr>);
                   st2 = record_completion_metrics job Failed st1
               in st2\<lparr>collectors := tbl_remove jid (collectors st2)\<rparr>
           | None \<Rightarrow>
               let final = error_state e;
                   res = \<lparr>res_exit_code = None, res_message = ''Execution error: '' @ MuliError_to_string e, res_container_id = None\<rparr>;
                   st1 = record_completion_metrics job final (st\<lparr>job_db := record_result S ck jid job final res (job_db st)\<rparr>)
               in st1\<lparr>collectors := tbl_remove jid (collectors st1)\<rparr>))"

definition execute_job :: "'s JobStore \<Rightarrow> 'p StepRunStore \<Rightarrow> RetryPolicy \<Rightarrow> ExecClock \<Rightarrow> (Job \<Rightarrow> JobResult result \<times> log_event list)
    \<Rightarrow> ('s \<Rightarrow> 's) \<Rightarrow> string \<Rightarrow> ('s, 'p) ServerState \<Rightarrow> ('s, 'p) ServerState" where
  "execute_job S P policy ck exec meanwhile jid st =
     (case begin_execution S ck jid st of
        (None, st1) \<Rightarrow> st1
      | (Some job, st1) \<Rightarrow>
          let (exec_result, events) = exec job;
              (c, st2) = run_job_log P jid job events LogCollector_new st1;
              st3 = drain_and_persist_logs P jid job c (st2\<lparr>job_db := meanwhile (job_db st2)\<rparr>)
          in finish_execution S policy ck jid job exec_result st3)"

section \<open>Recovery and watchdog\<close>

definition recover_state :: "'s JobStore \<Rightarrow> datetime \<Rightarrow> JobState \<Rightarrow> 's \<Rightarrow> 's" where
  "recover_state S now state s =
     (case st_list_by_state S state s of
        Inr jobs \<Rightarrow> foldl (\<lambda>s job. snd (st_update_state S now (job_id job) state Pending s)) s jobs
      | Inl _ \<Rightarrow> s)"

definition recover_jobs :: "'s JobStore \<Rightarrow> datetime \<Rightarrow> datetime \<Rightarrow> datetime \<Rightarrow> 's \<times> PriorityQueue \<Rightarrow> 's \<times> PriorityQueue" where
  "recover_jobs S now enq_now score_now sq =
     (let s1 = foldl (\<lambda>s state. recover_state S now state s) (fst sq) [Scheduled, Pulling, Running]
      in case st_list_by_state S Pending s1 of
           Inr jobs \<Rightarrow> (s1, foldl (\<lambda>q job. enqueue enq_now score_now (job_id job) (priority_tier (job_spec job)) (job_tenant job) q) (snd sq) jobs)
         | Inl _ \<Rightarrow> (s1, snd sq))"

definition grace_of :: "nat \<Rightarrow> nat" where
  "grace_of grace_period = (if grace_period \<le> CHRONO_MAX_NANOS then grace_period else from_secs 300)"

definition stale_job :: "'s JobStore \<Rightarrow> datetime \<Rightarrow> nat \<Rightarrow> JobState \<Rightarrow> 's \<Rightarrow> Job \<Rightarrow> 's" where
  "stale_job S now grace state s job =
     (if now < job_updated_at job + int grace then s
      else (case st_update_state S now (job_id job) state Failed s of
          (Inr _, s1) \<Rightarrow> snd (st_update_job S (job\<lparr>job_state := Failed,
             job_result := Some \<lparr>res_exit_code = None,
               res_message = ''Stale job detected by watchdog (stuck in '' @ JobState_to_string state @ '')'', res_container_id = None\<rparr>,
             job_finished_at := Some now\<rparr>) s1)
        | (Inl _, s1) \<Rightarrow> s1))"

text \<open>\<open>clock i\<close> is the time at which job \<open>i\<close> is looked at.\<close>

definition check_stale_jobs :: "'s JobStore \<Rightarrow> (string \<Rightarrow> datetime) \<Rightarrow> nat \<Rightarrow> 's \<Rightarrow> 's" where
  "check_stale_jobs S clock grace_period s =
     foldl (\<lambda>s state. case st_list_by_state S state s of
         Inl _ \<Rightarrow> s
       | Inr jobs \<Rightarrow> foldl (\<lambda>s job. stale_job S (clock (job_id job)) (grace_of grace_period) state s job) s jobs) s [Running, Scheduled]"

section \<open>What does not touch the job store\<close>

lemma persist_lines_simps [simp]:
  "job_db (persist_lines P jid job ls st) = job_db st" "collectors (persist_lines P jid job ls st) = collectors st"
  "sched_queue (persist_lines P jid job ls st) = sched_queue st" "delayed (persist_lines P jid job ls st) = delayed st"
  "jobs_running (persist_lines P jid job ls st) = jobs_running st"
  by (simp_all add: persist_lines_def)

lemma run_job_log_simps [simp]:
  "job_db (snd (run_job_log P jid job es c st)) = job_db st" "collectors (snd (run_job_log P jid job es c st)) = collectors st"
  "sched_queue (snd (run_job_log P jid job es c st)) = sched_queue st" "delayed (snd (run_job_log P jid job es c st)) = delayed st"
  "jobs_running (snd (run_job_log P jid job es c st)) = jobs_running st"
  by (induction P jid job es c st rule: run_job_log.induct) (simp_all split: prod.splits)

lemma drain_simps [simp]:
  "job_db (drain_and_persist_logs P jid job c st) = job_db st" "collectors (drain_and_persist_logs P jid job c st) = collectors st"
  "sched_queue (drain_and_persist_logs P jid job c st) = sched_queue st" "delayed (drain_and_persist_logs P jid job c st) = delayed st"
  "jobs_running (drain_and_persist_logs P jid job c st) = jobs_running st"
  by (simp_all add: drain_and_persist_logs_def)

lemma metrics_simps [simp]:
  "job_db (record_completion_metrics job f st) = job_db st" "collectors (record_completion_metrics job f st) = collectors st"
  "sched_queue (record_completion_metrics job f st) = sched_queue st" "delayed (record_completion_metrics job f st) = delayed st"
  "jobs_running (record_completion_metrics job f st) = jobs_running st - 1"
  by (simp_all add: record_completion_metrics_def)

text \<open>The state after the container has run, before the result is recorded.\<close>

definition after_run :: "'p StepRunStore \<Rightarrow> (Job \<Rightarrow> JobResult result \<times> log_event list) \<Rightarrow> ('s \<Rightarrow> 's) \<Rightarrow> string \<Rightarrow> Job \<Rightarrow> ('s, 'p) ServerState \<Rightarrow> ('s, 'p) ServerState" where
  "after_run P exec meanwhile jid job st =
     (let (c, st2) = run_job_log P jid job (snd (exec job)) LogCollector_new st
      in drain_and_persist_logs P jid job c (st2\<lparr>job_db := meanwhile (job_db st2)\<rparr>))"

lemma after_run_simps [simp]:
  "job_db (after_run P exec meanwhile jid job st) = meanwhile (job_db st)"
  "collectors (after_run P exec meanwhile jid job st) = collectors st"
  "sched_queue (after_run P exec meanwhile jid job st) = sched_queue st"
  "delayed (after_run P exec meanwhile jid job st) = delayed st"
  "jobs_running (after_run P exec meanwhile jid job st) = jobs_running st"
  by (simp_all add: after_run_def case_prod_unfold Let_def)

lemma execute_job_cases:
  "execute_job S P policy ck exec meanwhile jid st =
     (case begin_execution S ck jid st of (None, st1) \<Rightarrow> st1
      | (Some job, st1) \<Rightarrow> finish_execution S policy ck jid job (fst (exec job)) (after_run P exec meanwhile jid job st1))"
  by (simp add: execute_job_def after_run_def split: option.splits prod.splits)

section \<open>Execution over a job store\<close>

definition keeps_terminal :: "('s \<Rightarrow> string \<Rightarrow> Job option) \<Rightarrow> 's \<Rightarrow> 's \<Rightarrow> bool" where
  "keeps_terminal lookup s s' \<longleftrightarrow> (\<forall>i j. lookup s i = Some j \<and> is_terminal (job_state j) \<longrightarrow> lookup s' i = Some j)"

lemma keeps_terminal_refl [simp]: "keeps_terminal lookup s s"
  by (simp add: keeps_terminal_def)

lemma keeps_terminal_trans: "keeps_terminal lookup s s' \<Longrightarrow> keeps_terminal lookup s' s'' \<Longrightarrow> keeps_terminal lookup s s''"
  unfolding keeps_terminal_def by blast

context job_store
begin

lemma update_state_step:
  assumes "s_inv s" and "st_update_state S now i from to s = (r, s')"
  shows "s_inv s'" and "keeps_terminal lookup s s'" and "k \<noteq> i \<Longrightarrow> lookup s' k = lookup s k"
  using update_state_ok [of s now i "from" to _ s'] update_state_err [of s now i "from" to _ s']
    update_state_terminal [of s now i "from" to r s'] assms
  by (cases r; auto simp: keeps_terminal_def; fail)+

lemma update_job_step:
  assumes "s_inv s"
  shows "s_inv (snd (st_update_job S j s))" and "k \<noteq> job_id j \<Longrightarrow> lookup (snd (st_update_job S j s)) k = lookup s k"
proof -
  obtain r s' where p: "st_update_job S j s = (r, s')" by fastforce
  show "s_inv (snd (st_update_job S j s))" "k \<noteq> job_id j \<Longrightarrow> lookup (snd (st_update_job S j s)) k = lookup s k"
    using update_job_ok [OF assms, of j _ s'] update_job_err [OF assms, of j _ s'] p by (cases r; auto)+
qed

lemma record_result_step:
  assumes inv: "s_inv s" and id: "job_id job = jid"
  shows "s_inv (record_result S ck jid job f res s)"
    and "keeps_terminal lookup s (record_result S ck jid job f res s)"
    and "k \<noteq> jid \<Longrightarrow> lookup (record_result S ck jid job f res s) k = lookup s k"
proof -
  let ?j = "job\<lparr>job_state := f, job_result := Some res, job_finished_at := Some (at_finished ck)\<rparr>"
  obtain r s1 where p: "st_update_state S (at_final ck) jid Running f s = (r, s1)" by fastforce
  note step = update_state_step [OF inv p]
  have ok: "(case r of Inl _ \<Rightarrow> True | Inr _ \<Rightarrow> (\<exists>j. lookup s jid = Some j \<and> job_state j = Running))"
    using update_state_ok [OF inv, of "at_final ck" jid Running f _ s1] p by (auto split: sum.splits)
  have rr: "record_result S ck jid job f res s = (case r of Inl _ \<Rightarrow> s1 | Inr _ \<Rightarrow> snd (st_update_job S ?j s1))"
    by (simp add: record_result_def p split: sum.splits)
  show "s_inv (record_result S ck jid job f res s)"
    using step(1) update_job_step(1) [OF step(1)] by (simp add: rr split: sum.splits)
  show other: "k \<noteq> jid \<Longrightarrow> lookup (record_result S ck jid job f res s) k = lookup s k" for k
    using step(3) [of k] update_job_step(2) [OF step(1), of k ?j] id by (simp add: rr split: sum.splits)
  show "keeps_terminal lookup s (record_result S ck jid job f res s)"
  proof (cases r)
    case (Inl e)
    then show ?thesis using step(2) by (simp add: rr)
  next
    case (Inr u)
    then obtain j0 where "lookup s jid = Some j0" "job_state j0 = Running" using ok by auto
    then have "i \<noteq> jid" if "lookup s i = Some j" "is_terminal (job_state j)" for i j using that by auto
    then show ?thesis unfolding keeps_terminal_def by (metis other)
  qed
qed

lemma finish_execution_step:
  assumes inv: "s_inv (job_db st)" and id: "job_id job = jid"
  shows "s_inv (job_db (finish_execution S policy ck jid job r st))"
    and "keeps_terminal lookup (job_db st) (job_db (finish_execution S policy ck jid job r st))"
    and "k \<noteq> jid \<Longrightarrow> lookup (job_db (finish_execution S policy ck jid job r st)) k = lookup (job_db st) k"
proof -
  obtain e s1 where p: "st_update_state S (at_final ck) jid Running Pending (job_db st) = (Inl e, s1)"
      "s_inv s1" "lookup s1 = lookup (job_db st)"
    using no_reset [OF inv] by blast
  note rr = record_result_step [OF inv id]
  show "s_inv (job_db (finish_execution S policy ck jid job r st))"
    using rr(1) p by (simp add: finish_execution_def Let_def split: sum.splits option.splits)
  show "keeps_terminal lookup (job_db st) (job_db (finish_execution S policy ck jid job r st))"
    using rr(2) p by (auto simp: finish_execution_def Let_def keeps_terminal_def split: sum.splits option.splits)
  show "k \<noteq> jid \<Longrightarrow> lookup (job_db (finish_execution S policy ck jid job r st)) k = lookup (job_db st) k"
    using rr(3) p by (simp add: finish_execution_def Let_def split: sum.splits option.splits)
qed

lemma begin_execution_job:
  "s_inv (job_db st) \<Longrightarrow> begin_execution S ck jid st = (Some job, st1) \<Longrightarrow>
     job_id job = jid \<and> lookup (job_db st) jid = Some job \<and> s_inv (job_db st1) \<and> keeps_terminal lookup (job_db st) (job_db st1)"
proof -
  assume inv: "s_inv (job_db st)" and b: "begin_execution S ck jid st = (Some job, st1)"
  from b have g: "st_get_job S jid (job_db st) = Inr (Some job)"
    by (auto simp: begin_execution_def Let_def split: sum.splits option.splits prod.splits)
  obtain r1 s1 where p1: "st_update_state S (at_scheduled ck) jid Pending Scheduled (job_db st) = (r1, s1)" by fastforce
  obtain r2 s2 where p2: "st_update_state S (at_running ck) jid Scheduled Running s1 = (r2, s2)" by fastforce
  have s2: "job_db st1 = s2" using b g p1 p2 by (auto simp: begin_execution_def Let_def split: sum.splits)
  note u1 = update_state_step(1,2) [OF inv p1] and u2 = update_state_step(1,2) [OF update_state_step(1) [OF inv p1] p2]
  have "lookup (job_db st) jid = Some job" using get_ok [OF inv g] by simp
  with lookup_id [OF inv this] u2(1) keeps_terminal_trans [OF u1(2) u2(2)] show ?thesis by (simp add: s2)
qed

text \<open>
  Whatever the rest of the server does to the store while the container runs, recording the result
  leaves every finished job as it is.
\<close>

lemma execute_job_keeps_terminal:
  assumes inv: "s_inv (job_db st)" and mw: "\<And>s. s_inv s \<Longrightarrow> s_inv (meanwhile s)"
    and b: "begin_execution S ck jid st = (Some job, st1)"
  shows "keeps_terminal lookup (meanwhile (job_db st1)) (job_db (execute_job S P policy ck exec meanwhile jid st))"
    and "s_inv (job_db (execute_job S P policy ck exec meanwhile jid st))"
  using begin_execution_job [OF inv b] mw b
    finish_execution_step(1,2) [where st = "after_run P exec meanwhile jid job st1" and job = job and jid = jid
      and policy = policy and ck = ck and r = "fst (exec job)"]
  by (simp_all add: execute_job_cases)

lemma recover_state_lookup:
  assumes "s_inv s"
  shows "s_inv (recover_state S now state s) \<and> lookup (recover_state S now state s) = lookup s"
proof -
  have "s_inv (foldl (\<lambda>s job. snd (st_update_state S now (job_id job) state Pending s)) s js)
      \<and> lookup (foldl (\<lambda>s job. snd (st_update_state S now (job_id job) state Pending s)) s js) = lookup s" if "s_inv s" for js :: "Job list" and s
    using that
  proof (induction js arbitrary: s)
    case (Cons j js)
    obtain e s' where "st_update_state S now (job_id j) state Pending s = (Inl e, s')" "s_inv s'" "lookup s' = lookup s"
      using no_reset [OF Cons.prems] by blast
    with Cons.IH [of s'] show ?case by simp
  qed simp
  with assms show ?thesis by (simp add: recover_state_def split: sum.splits)
qed

text \<open>A watchdog pass over states that cannot become \<open>Failed\<close> changes nothing.\<close>

lemma stale_job_rejected:
  assumes "s_inv s" and "\<not> can_transition_to state Failed"
  shows "s_inv (stale_job S now g state s job) \<and> lookup (stale_job S now g state s job) = lookup s"
proof -
  obtain r s' where p: "st_update_state S now (job_id job) state Failed s = (r, s')" by fastforce
  then obtain e where "r = Inl e" using update_state_ok [OF assms(1), of now "job_id job" state Failed _ s'] assms(2) by (cases r) auto
  with p update_state_err [OF assms(1), of now "job_id job" state Failed e s'] assms(1) show ?thesis
    by (simp add: stale_job_def)
qed

end

text \<open>What the watchdog makes of a job.\<close>

definition failed_stale :: "datetime \<Rightarrow> JobState \<Rightarrow> Job \<Rightarrow> Job" where
  "failed_stale now state job = job\<lparr>job_state := Failed,
     job_result := Some \<lparr>res_exit_code = None,
       res_message = ''Stale job detected by watchdog (stuck in '' @ JobState_to_string state @ '')'', res_container_id = None\<rparr>,
     job_finished_at := Some now\<rparr>"

context reliable_job_store
begin

lemma update_state_reliable:
  assumes "s_inv s" and "lookup s i = Some j" and "job_state j = from" and "can_transition_to from to"
  obtains s' where "st_update_state S now i from to s = (Inr (), s')" "s_inv s'"
    "lookup s' = (lookup s)(i \<mapsto> j\<lparr>job_state := to, job_updated_at := now\<rparr>)"
proof -
  obtain s' where p: "st_update_state S now i from to s = (Inr (), s')" using update_state_total [OF assms] by blast
  with update_state_ok [OF assms(1), of now i "from" to "()" s'] assms(2) that show thesis by auto
qed

lemma update_job_reliable:
  assumes "s_inv s" and "lookup s (job_id j) \<noteq> None"
  shows "s_inv (snd (st_update_job S j s)) \<and> lookup (snd (st_update_job S j s)) = (lookup s)(job_id j \<mapsto> j)"
proof -
  obtain s' where p: "st_update_job S j s = (Inr (), s')" using update_job_total [OF assms] by blast
  with update_job_ok [OF assms(1), of j "()" s'] show ?thesis by simp
qed

lemma record_result_reliable:
  assumes "s_inv s" and "lookup s jid = Some j" and "job_state j = Running" and "job_id job = jid" and "can_transition_to Running f"
  shows "lookup (record_result S ck jid job f res s) = (lookup s)(jid \<mapsto> job\<lparr>job_state := f, job_result := Some res,
     job_finished_at := Some (at_finished ck)\<rparr>)"
proof -
  obtain s1 where "st_update_state S (at_final ck) jid Running f s = (Inr (), s1)" "s_inv s1"
    "lookup s1 = (lookup s)(jid \<mapsto> j\<lparr>job_state := f, job_updated_at := at_final ck\<rparr>)"
    using update_state_reliable [OF assms(1,2,3,5)] by blast
  with update_job_reliable [of s1 "job\<lparr>job_state := f, job_result := Some res, job_finished_at := Some (at_finished ck)\<rparr>"] assms(4)
  show ?thesis by (simp add: record_result_def)
qed

lemma begin_execution_reliable:
  assumes "s_inv (job_db st)" and "lookup (job_db st) jid = Some job" and "job_state job = Pending"
  obtains st1 where "begin_execution S ck jid st = (Some job, st1)" "s_inv (job_db st1)"
    "lookup (job_db st1) = (lookup (job_db st))(jid \<mapsto> job\<lparr>job_state := Running, job_updated_at := at_running ck\<rparr>)"
    "delayed st1 = delayed st" "sched_queue st1 = sched_queue st"
proof -
  have ct: "can_transition_to Pending Scheduled" "can_transition_to Scheduled Running" by (simp_all add: can_transition_to_def)
  obtain s1 where 1: "st_update_state S (at_scheduled ck) jid Pending Scheduled (job_db st) = (Inr (), s1)" "s_inv s1"
      "lookup s1 = (lookup (job_db st))(jid \<mapsto> job\<lparr>job_state := Scheduled, job_updated_at := at_scheduled ck\<rparr>)"
    using update_state_reliable [OF assms ct(1)] by blast
  obtain s2 where 2: "st_update_state S (at_running ck) jid Scheduled Running s1 = (Inr (), s2)" "s_inv s2"
      "lookup s2 = (lookup s1)(jid \<mapsto> job\<lparr>job_state := Running, job_updated_at := at_running ck\<rparr>)"
    using update_state_reliable [OF 1(2) _ _ ct(2), of jid "job\<lparr>job_state := Scheduled, job_updated_at := at_scheduled ck\<rparr>"] 1(3) by auto
  show thesis
    by (rule that [of "st\<lparr>job_db := s2, collectors := tbl_insert jid () (collectors st), jobs_running := jobs_running st + 1\<rparr>"])
      (simp_all add: begin_execution_def get_total [OF assms(1)] assms(2) 1 2)
qed

lemma stale_jobs_fold:
  assumes "s_inv s" and "distinct (map job_id js)" and "can_transition_to state Failed"
    and "\<forall>j \<in> set js. lookup s (job_id j) = Some j \<and> job_state j = state"
  shows "s_inv (foldl (\<lambda>s job. stale_job S (clock (job_id job)) g state s job) s js)
    \<and> (\<forall>i. lookup (foldl (\<lambda>s job. stale_job S (clock (job_id job)) g state s job) s js) i =
         (case lookup s i of None \<Rightarrow> None
          | Some j \<Rightarrow> if j \<in> set js \<and> job_updated_at j + int g \<le> clock i then Some (failed_stale (clock i) state j) else Some j))"
  using assms(1,2,4)
proof (induction js arbitrary: s)
  case Nil
  then show ?case by (auto split: option.splits)
next
  case (Cons j js)
  have j: "lookup s (job_id j) = Some j" "job_state j = state" using Cons.prems(3) by simp_all
  let ?s1 = "stale_job S (clock (job_id j)) g state s j"
  have s1: "s_inv ?s1 \<and> lookup ?s1 = (if job_updated_at j + int g \<le> clock (job_id j)
      then (lookup s)(job_id j \<mapsto> failed_stale (clock (job_id j)) state j) else lookup s)"
  proof (cases "clock (job_id j) < job_updated_at j + int g")
    case True
    then show ?thesis using Cons.prems(1) by (simp add: stale_job_def)
  next
    case False
    obtain s' where u: "st_update_state S (clock (job_id j)) (job_id j) state Failed s = (Inr (), s')" "s_inv s'"
        "lookup s' = (lookup s)(job_id j \<mapsto> j\<lparr>job_state := Failed, job_updated_at := clock (job_id j)\<rparr>)"
      using update_state_reliable [OF Cons.prems(1) j assms(3)] by blast
    with update_job_reliable [OF u(2), of "failed_stale (clock (job_id j)) state j"] False
    show ?thesis by (simp add: stale_job_def failed_stale_def)
  qed
  have rest: "\<forall>x \<in> set js. lookup ?s1 (job_id x) = Some x \<and> job_state x = state"
  proof
    fix x assume "x \<in> set js"
    then have "job_id x \<noteq> job_id j" using Cons.prems(2) by (auto simp: rev_image_eqI)
    then show "lookup ?s1 (job_id x) = Some x \<and> job_state x = state" using s1 Cons.prems(3) \<open>x \<in> set js\<close> by auto
  qed
  have nj: "j \<notin> set js" using Cons.prems(2) by auto
  let ?j' = "if job_updated_at j + int g \<le> clock (job_id j) then failed_stale (clock (job_id j)) state j else j"
  have "job_state (failed_stale t state j) \<noteq> state" for t using assms(3) by (cases state) (simp_all add: failed_stale_def can_transition_to_def)
  then have nj': "?j' \<notin> set js" using nj Cons.prems(3) by auto
  let ?R = "foldl (\<lambda>s job. stale_job S (clock (job_id job)) g state s job) ?s1 js"
  have IH: "s_inv ?R" "\<And>i. lookup ?R i = (case lookup ?s1 i of None \<Rightarrow> None
      | Some x \<Rightarrow> if x \<in> set js \<and> job_updated_at x + int g \<le> clock i then Some (failed_stale (clock i) state x) else Some x)"
    using Cons.IH [of ?s1] s1 rest Cons.prems(2) by auto
  have "lookup ?R i = (case lookup s i of None \<Rightarrow> None
      | Some x \<Rightarrow> if x \<in> set (j # js) \<and> job_updated_at x + int g \<le> clock i then Some (failed_stale (clock i) state x) else Some x)" for i
  proof (cases "i = job_id j")
    case True
    have "lookup ?s1 i = Some ?j'" using s1 j True by simp
    with IH(2) [of i] nj' j True show ?thesis by (simp split: if_splits)
  next
    case False
    then have "lookup ?s1 i = lookup s i" using s1 by simp
    moreover have "x \<noteq> j" if "lookup s i = Some x" for x using lookup_id [OF Cons.prems(1) that] False by auto
    ultimately show ?thesis using IH(2) [of i] by (auto split: option.splits)
  qed
  with IH(1) show ?case by simp
qed

lemma check_stale_jobs_lookup:
  assumes "s_inv s"
  shows "lookup (check_stale_jobs S clock grace s) i =
    (case lookup s i of None \<Rightarrow> None
     | Some j \<Rightarrow> if job_state j = Running \<and> job_updated_at j + int (grace_of grace) \<le> clock i
                 then Some (failed_stale (clock i) Running j) else Some j)"
proof -
  let ?pass = "\<lambda>state s js. foldl (\<lambda>s job. stale_job S (clock (job_id job)) (grace_of grace) state s job) s js"
  obtain js where js: "st_list_by_state S Running s = Inr js" using list_by_state_total [OF assms] by blast
  have ct: "can_transition_to Running Failed" "\<not> can_transition_to Scheduled Failed" by (simp_all add: can_transition_to_def)
  have mem: "distinct (map job_id js)" "\<And>j. j \<in> set js \<longleftrightarrow> lookup s (job_id j) = Some j \<and> job_state j = Running"
    using list_by_state_ok [OF assms js] by simp_all
  have 1: "s_inv (?pass Running s js)" "lookup (?pass Running s js) i = (case lookup s i of None \<Rightarrow> None
     | Some j \<Rightarrow> if j \<in> set js \<and> job_updated_at j + int (grace_of grace) \<le> clock i
                 then Some (failed_stale (clock i) Running j) else Some j)" for i
    using stale_jobs_fold [OF assms mem(1) ct(1), of clock "grace_of grace"] mem(2) by auto
  have 2: "lookup (?pass Scheduled s' js') = lookup s'" if "s_inv s'" for s' and js' :: "Job list"
    using that
  proof (induction js' arbitrary: s')
    case (Cons j js')
    with stale_job_rejected [OF Cons.prems ct(2), of "clock (job_id j)" "grace_of grace" j] show ?case by simp
  qed simp
  have "lookup (check_stale_jobs S clock grace s) i = lookup (?pass Running s js) i"
    using 2 [OF 1(1)] by (simp add: check_stale_jobs_def js split: sum.splits)
  moreover have "j \<in> set js \<longleftrightarrow> job_state j = Running" if "lookup s i = Some j" for j
    using lookup_id [OF assms that] mem(2) that by simp
  ultimately show ?thesis using 1(2) [of i] by (auto split: option.splits)
qed

end

section \<open>Outcomes\<close>

text \<open>
  The end of an execution, by its result: the final state with its recorded result, or \<open>None\<close> when the
  retry policy grants another attempt.
\<close>

definition exec_outcome :: "RetryPolicy \<Rightarrow> nat \<Rightarrow> JobResult result \<Rightarrow> (JobState \<times> JobResult) option" where
  "exec_outcome policy n r =
     (case r of
        Inr res \<Rightarrow> Some (if res_exit_code res = Some 0 then Succeeded else Failed, res)
      | Inl e \<Rightarrow>
          if is_retryable e \<and> n < max_retries policy then None
          else Some (case e of Cancelled_err _ \<Rightarrow> Cancelled | _ \<Rightarrow> Failed,
            \<lparr>res_exit_code = None, res_message = ''Execution error: '' @ MuliError_to_string e, res_container_id = None\<rparr>))"

lemma should_retry_None_iff: "should_retry p e n = None \<longleftrightarrow> \<not> (is_retryable e \<and> n < max_retries p)"
  by (auto simp: should_retry_def Let_def)

lemma error_state_cases: "error_state e = (case e of Cancelled_err _ \<Rightarrow> Cancelled | _ \<Rightarrow> Failed)"
  by (cases e) (simp_all add: error_state_def)

lemma exec_outcome_alt:
  "exec_outcome policy n r =
     (case r of
        Inr res \<Rightarrow> Some (if res_exit_code res = Some 0 then Succeeded else Failed, res)
      | Inl e \<Rightarrow> (case should_retry policy e n of Some _ \<Rightarrow> None
          | None \<Rightarrow> Some (error_state e, \<lparr>res_exit_code = None, res_message = ''Execution error: '' @ MuliError_to_string e,
               res_container_id = None\<rparr>)))"
proof (cases r)
  case (Inl e)
  then show ?thesis using should_retry_None_iff [of policy e n]
    by (cases "should_retry policy e n") (simp_all add: exec_outcome_def error_state_cases)
qed (simp add: exec_outcome_def)

context reliable_job_store
begin

lemma finish_execution_reliable:
  assumes "s_inv (job_db st)" and "lookup (job_db st) jid = Some j" and "job_state j = Running" and "job_id job = jid"
  shows "lookup (job_db (finish_execution S policy ck jid job r st)) =
    (case exec_outcome policy (retry_count job) r of
       Some (f, res) \<Rightarrow> (lookup (job_db st))(jid \<mapsto> job\<lparr>job_state := f, job_result := Some res, job_finished_at := Some (at_finished ck)\<rparr>)
     | None \<Rightarrow> lookup (job_db st))"
    and "delayed (finish_execution S policy ck jid job r st) = delayed st"
    and "sched_queue (finish_execution S policy ck jid job r st) = sched_queue st"
proof -
  obtain e s1 where p: "st_update_state S (at_final ck) jid Running Pending (job_db st) = (Inl e, s1)" "lookup s1 = lookup (job_db st)"
    using no_reset [OF assms(1)] by blast
  have ct: "can_transition_to Running f" if "f \<in> {Succeeded, Failed, Cancelled}" for f
    using that by (auto simp: can_transition_to_def)
  note rr = record_result_reliable [OF assms ct]
  have "error_state e \<in> {Succeeded, Failed, Cancelled}" for e by (simp add: error_state_cases split: MuliError.splits)
  then show "lookup (job_db (finish_execution S policy ck jid job r st)) =
    (case exec_outcome policy (retry_count job) r of
       Some (f, res) \<Rightarrow> (lookup (job_db st))(jid \<mapsto> job\<lparr>job_state := f, job_result := Some res, job_finished_at := Some (at_finished ck)\<rparr>)
     | None \<Rightarrow> lookup (job_db st))"
    using rr p by (auto simp: finish_execution_def exec_outcome_alt Let_def split: sum.splits option.splits)
  show "delayed (finish_execution S policy ck jid job r st) = delayed st"
    "sched_queue (finish_execution S policy ck jid job r st) = sched_queue st"
    using p by (auto simp: finish_execution_def Let_def split: sum.splits option.splits)
qed

lemma execute_job_outcome_lookup:
  assumes "s_inv (job_db st)" and "lookup (job_db st) jid = Some job" and "job_state job = Pending"
  shows "lookup (job_db (execute_job S P policy ck exec (\<lambda>s. s) jid st)) = (lookup (job_db st))(jid \<mapsto>
      (case exec_outcome policy (retry_count job) (fst (exec job)) of
         Some (f, res) \<Rightarrow> job\<lparr>job_state := f, job_result := Some res, job_finished_at := Some (at_finished ck)\<rparr>
       | None \<Rightarrow> job\<lparr>job_state := Running, job_updated_at := at_running ck\<rparr>))"
    and "delayed (execute_job S P policy ck exec (\<lambda>s. s) jid st) = delayed st"
    and "sched_queue (execute_job S P policy ck exec (\<lambda>s. s) jid st) = sched_queue st"
proof -
  obtain st1 where b: "begin_execution S ck jid st = (Some job, st1)" "s_inv (job_db st1)"
      "lookup (job_db st1) = (lookup (job_db st))(jid \<mapsto> job\<lparr>job_state := Running, job_updated_at := at_running ck\<rparr>)"
      "delayed st1 = delayed st" "sched_queue st1 = sched_queue st"
    using begin_execution_reliable [OF assms] by blast
  have "job_id job = jid" using lookup_id assms by blast
  then have f: "s_inv (job_db (after_run P exec (\<lambda>s. s) jid job st1))"
      "lookup (job_db (after_run P exec (\<lambda>s. s) jid job st1)) jid = Some (job\<lparr>job_state := Running, job_updated_at := at_running ck\<rparr>)"
    using b by simp_all
  note fin = finish_execution_reliable [OF f _ \<open>job_id job = jid\<close>]
  show "lookup (job_db (execute_job S P policy ck exec (\<lambda>s. s) jid st)) = (lookup (job_db st))(jid \<mapsto>
      (case exec_outcome policy (retry_count job) (fst (exec job)) of
         Some (f, res) \<Rightarrow> job\<lparr>job_state := f, job_result := Some res, job_finished_at := Some (at_finished ck)\<rparr>
       | None \<Rightarrow> job\<lparr>job_state := Running, job_updated_at := at_running ck\<rparr>))"
    using b by (simp add: execute_job_cases fin(1) split: option.splits prod.splits)
  show "delayed (execute_job S P policy ck exec (\<lambda>s. s) jid st) = delayed st"
    "sched_queue (execute_job S P policy ck exec (\<lambda>s. s) jid st) = sched_queue st"
    using b by (simp_all add: execute_job_cases fin(2,3))
qed

end

section \<open>The log of an execution\<close>

definition job_log :: "string \<Rightarrow> ('s, 'p) ServerState \<Rightarrow> StoredLogLine list" where
  "job_log jid st = (case tbl_get (log_db st) jid of None \<Rightarrow> [] | Some v \<Rightarrow> v)"

lemma job_log_persist: "job_log jid (persist_lines P jid job ls st) = job_log jid st @ lines_to_stored ls"
  by (simp add: job_log_def persist_lines_def append_logs_def lines_to_stored_def map_of_tbl_insert split: option.splits)

lemma job_log_run:
  "run_job_log P jid job es c st = (c', st') \<Longrightarrow> run_log es c = (ls, c'') \<Longrightarrow>
   c' = c'' \<and> job_log jid st' = job_log jid st @ lines_to_stored ls"
proof (induction P jid job es c st arbitrary: ls rule: run_job_log.induct)
  case (3 P jid job es c st)
  then show ?case by (auto simp: job_log_persist lines_to_stored_def split: prod.splits)
qed (simp_all add: lines_to_stored_def)

lemma job_log_after_run:
  "job_log jid (after_run P exec meanwhile jid job st) = job_log jid st @ lines_to_stored (persisted (snd (exec job)) LogCollector_new)"
proof -
  obtain c' st' where r: "run_job_log P jid job (snd (exec job)) LogCollector_new st = (c', st')" by fastforce
  obtain ls c'' where l: "run_log (snd (exec job)) LogCollector_new = (ls, c'')" by fastforce
  have "job_log jid (st'\<lparr>job_db := d\<rparr>) = job_log jid st'" for d by (simp add: job_log_def)
  with job_log_run [OF r l] show ?thesis
    by (simp add: after_run_def r l persisted_def drain_and_persist_logs_def job_log_persist lines_to_stored_def)
qed

lemma job_log_finish: "job_log i (finish_execution S policy ck jid job r st) = job_log i st"
  by (auto simp: job_log_def finish_execution_def record_completion_metrics_def Let_def split: sum.splits option.splits prod.splits)

lemma job_log_begin: "begin_execution S ck jid st = (r, st1) \<Longrightarrow> job_log i st1 = job_log i st"
  by (auto simp: job_log_def begin_execution_def Let_def split: sum.splits option.splits prod.splits)

lemma job_log_execute:
  assumes "begin_execution S ck jid st = (Some job, st1)"
  shows "job_log jid (execute_job S P policy ck exec meanwhile jid st)
    = job_log jid st @ lines_to_stored (persisted (snd (exec job)) LogCollector_new)"
  using assms by (simp add: execute_job_cases job_log_finish job_log_after_run job_log_begin [OF assms])

section \<open>Properties\<close>

text \<open>
  C36. What becomes of a pending job that the server executes without interference: it ends
  \<open>Succeeded\<close> on exit code zero, \<open>Failed\<close> on another result, \<open>Cancelled\<close> or \<open>Failed\<close> on an error that is not
  retried (a timeout ends \<open>Failed\<close>, never \<open>TimedOut\<close>), with the result and the finishing time recorded and
  the time of the last update put back to what it was before the run. When the retry policy grants
  another attempt, the reset to \<open>Pending\<close> is rejected: the job stays \<open>Running\<close>, its retry count does not
  change, and nothing is enqueued, now or later. No other job is touched.
\<close>

theorem execute_job_outcome:
  assumes "store_inv (job_db st)" and "tbl_get (job_db st) jid = Some job" and "job_state job = Pending"
  shows "let st' = execute_job memory_job_store P policy ck exec (\<lambda>s. s) jid st in
    tbl_get (job_db st') = (tbl_get (job_db st))(jid \<mapsto>
      (case exec_outcome policy (retry_count job) (fst (exec job)) of
         Some (f, res) \<Rightarrow> job\<lparr>job_state := f, job_result := Some res, job_finished_at := Some (at_finished ck)\<rparr>
       | None \<Rightarrow> job\<lparr>job_state := Running, job_updated_at := at_running ck\<rparr>))
    \<and> delayed st' = delayed st \<and> sched_queue st' = sched_queue st"
  using mem.execute_job_outcome_lookup [OF assms] by (simp add: Let_def)

definition sample_server :: "Job table \<Rightarrow> (Job table, StepRun step_dbs) ServerState" where
  "sample_server jobs = \<lparr>job_db = jobs, steps_db = (\<lambda>_. Inr []), log_db = [], collectors = [], sched_queue = PriorityQueue_new,
     delayed = [], jobs_running = 0, jobs_completed = []\<rparr>"

definition sample_clock :: ExecClock where
  "sample_clock = \<lparr>at_scheduled = 10, at_running = 11, at_final = 12, at_finished = 13\<rparr>"

abbreviation plain_steps :: "StepRun step_dbs StepRunStore" where
  "plain_steps \<equiv> sqlite_step_store [] (\<lambda>s. s) Inr"

theorem execute_job_outcome_witness:
  "map_option job_state (tbl_get (job_db (execute_job memory_job_store plain_steps RetryPolicy_default sample_clock
      (\<lambda>_. (Inl (Timeout 5), [])) (\<lambda>s. s) ''a'' (sample_server [(''a'', stored_job ''a'' Pending)]))) ''a'') = Some Running"
  using execute_job_outcome [of "sample_server [(''a'', stored_job ''a'' Pending)]" "''a''" "stored_job ''a'' Pending" plain_steps
      RetryPolicy_default sample_clock "\<lambda>_. (Inl (Timeout 5), [])"]
  by (simp add: sample_server_def stored_job_def Job_new_def store_inv_def exec_outcome_def RetryPolicy_default_def Let_def)

text \<open>
  C4. Recording the result of an execution never overwrites a finished job: whatever the rest of the
  server does to the job store while the container runs (as long as it keeps the store well formed),
  every job that is terminal when the container has ended is still exactly the same afterwards. In
  particular a job cancelled during its run stays cancelled.
\<close>

theorem execution_keeps_terminal:
  assumes "store_inv (job_db st)" and "\<forall>s. store_inv s \<longrightarrow> store_inv (meanwhile s)"
    and "begin_execution memory_job_store ck jid st = (Some job, st1)"
    and "tbl_get (meanwhile (job_db st1)) i = Some j" and "is_terminal (job_state j)"
  shows "tbl_get (job_db (execute_job memory_job_store P policy ck exec meanwhile jid st)) i = Some j
    \<and> store_inv (job_db (execute_job memory_job_store P policy ck exec meanwhile jid st))"
  using mem.execute_job_keeps_terminal [OF assms(1) _ assms(3)] assms(2,4,5) unfolding keeps_terminal_def by blast

definition cancel_meanwhile :: "Job table \<Rightarrow> Job table" where
  "cancel_meanwhile s = snd (update_state 12 ''a'' Running Cancelled s)"

lemma cancel_meanwhile_inv: "store_inv s \<Longrightarrow> store_inv (cancel_meanwhile s)"
  using mem.update_state_step(1) [of s 12 "''a''" Running Cancelled]
  by (cases "update_state 12 ''a'' Running Cancelled s") (simp add: cancel_meanwhile_def memory_job_store_def)

theorem execution_keeps_terminal_witness:
  "map_option job_state (tbl_get (job_db (execute_job memory_job_store plain_steps RetryPolicy_default sample_clock
      (\<lambda>_. (Inr \<lparr>res_exit_code = Some 0, res_message = [], res_container_id = None\<rparr>, [])) cancel_meanwhile ''a''
      (sample_server [(''a'', stored_job ''a'' Pending)]))) ''a'') = Some Cancelled"
proof -
  let ?st = "sample_server [(''a'', stored_job ''a'' Pending)]"
  have b: "begin_execution memory_job_store sample_clock ''a'' ?st = (Some (stored_job ''a'' Pending),
      ?st\<lparr>job_db := [(''a'', (stored_job ''a'' Running)\<lparr>job_updated_at := 11\<rparr>)], collectors := [(''a'', ())], jobs_running := 1\<rparr>)"
    by (simp add: begin_execution_def sample_server_def sample_clock_def stored_job_def Job_new_def memory_job_store_def get_job_def
        update_state_def transition_to_def can_transition_to_def)
  have "store_inv (job_db ?st)" by (simp add: sample_server_def store_inv_def stored_job_def Job_new_def)
  moreover have "tbl_get (cancel_meanwhile [(''a'', (stored_job ''a'' Running)\<lparr>job_updated_at := 11\<rparr>)]) ''a''
      = Some ((stored_job ''a'' Cancelled)\<lparr>job_updated_at := 12\<rparr>)"
    by (simp add: cancel_meanwhile_def update_state_def transition_to_def can_transition_to_def stored_job_def Job_new_def)
  ultimately have "tbl_get (job_db (execute_job memory_job_store plain_steps RetryPolicy_default sample_clock
      (\<lambda>_. (Inr \<lparr>res_exit_code = Some 0, res_message = [], res_container_id = None\<rparr>, [])) cancel_meanwhile ''a'' ?st)) ''a''
      = Some ((stored_job ''a'' Cancelled)\<lparr>job_updated_at := 12\<rparr>)"
    using execution_keeps_terminal [OF _ _ b, of cancel_meanwhile "''a''" "(stored_job ''a'' Cancelled)\<lparr>job_updated_at := 12\<rparr>"
      plain_steps RetryPolicy_default "\<lambda>_. (Inr \<lparr>res_exit_code = Some 0, res_message = [], res_container_id = None\<rparr>, [])"]
      cancel_meanwhile_inv by (simp add: stored_job_def)
  then show ?thesis by (simp add: stored_job_def)
qed

text \<open>
  Every execution is balanced, on every path and with any job store: the gauge of running jobs
  returns to its value, and a job without a live log collector has none afterwards.
\<close>

theorem execution_balanced:
  "jobs_running (execute_job S P policy ck exec meanwhile jid st) = jobs_running st
   \<and> (tbl_get (collectors st) jid = None \<longrightarrow> tbl_get (collectors (execute_job S P policy ck exec meanwhile jid st)) jid = None)"
proof (cases "begin_execution S ck jid st")
  case (Pair r st1)
  have fin: "jobs_running (finish_execution S policy ck jid job x st2) = jobs_running st2 - 1"
      "tbl_get (collectors (finish_execution S policy ck jid job x st2)) jid = None" for job x and st2 :: "('a, 'b) ServerState"
    by (auto simp: finish_execution_def Let_def map_of_tbl_remove split: sum.splits option.splits prod.splits)
  show ?thesis
  proof (cases r)
    case None
    with Pair show ?thesis
      by (auto simp: execute_job_cases begin_execution_def Let_def map_of_tbl_remove split: sum.splits option.splits prod.splits)
  next
    case (Some job)
    with Pair have "jobs_running st1 = jobs_running st + 1"
      by (auto simp: begin_execution_def Let_def split: sum.splits option.splits prod.splits)
    with Pair Some show ?thesis by (simp add: execute_job_cases fin)
  qed
qed

theorem execution_balanced_witness:
  "tbl_get (collectors (execute_job memory_job_store plain_steps RetryPolicy_default sample_clock (\<lambda>_. (Inl (Timeout 5), []))
     (\<lambda>s. s) ''a'' (sample_server [(''a'', stored_job ''a'' Pending)]))) ''a'' = None"
  using execution_balanced [of memory_job_store plain_steps RetryPolicy_default sample_clock "\<lambda>_. (Inl (Timeout 5), [])" "\<lambda>s. s" "''a''"
      "sample_server [(''a'', stored_job ''a'' Pending)]"]
  by (simp add: sample_server_def)



text \<open>
  C38. Recovery after a restart resets nothing: no interrupted job (\<open>Scheduled\<close>, \<open>Pulling\<close> or \<open>Running\<close>)
  is put back to \<open>Pending\<close>, because the state machine rejects every such transition; the store keeps all
  its jobs as they are. What is enqueued is exactly the jobs that were pending already.
\<close>

theorem recovery_resets_nothing:
  assumes "store_inv s"
  shows "let (s', q') = recover_jobs memory_job_store now enq_now score_now (s, q) in
    tbl_get s' = tbl_get s
    \<and> q' = foldl (\<lambda>q job. enqueue enq_now score_now (job_id job) (priority_tier (job_spec job)) (job_tenant job) q) q
         (filter (\<lambda>j. job_state j = Pending) (tbl_values s'))"
proof -
  have *: "store_inv (foldl (\<lambda>s state. recover_state memory_job_store now state s) s sts)
      \<and> tbl_get (foldl (\<lambda>s state. recover_state memory_job_store now state s) s sts) = tbl_get s" if "store_inv s" for sts s
    using that
  proof (induction sts arbitrary: s)
    case (Cons state sts)
    with mem.recover_state_lookup [OF Cons.prems, of now state] show ?case by simp
  qed simp
  show ?thesis using * [OF assms, of "[Scheduled, Pulling, Running]"]
    by (simp add: recover_jobs_def Let_def memory_job_store_def list_by_state_def del: foldl.simps)
qed

theorem recovery_resets_nothing_witness:
  "map_option job_state (tbl_get (fst (recover_jobs memory_job_store 9 9 9 ([(''a'', stored_job ''a'' Running)], PriorityQueue_new))) ''a'')
     = Some Running"
  using recovery_resets_nothing [of "[(''a'', stored_job ''a'' Running)]" 9 9 9 PriorityQueue_new]
  by (simp add: store_inv_def stored_job_def Job_new_def split: prod.splits)

text \<open>
  C39. A pass of the watchdog fails exactly the jobs that are \<open>Running\<close> and were last updated at least the
  grace period ago, whether their container is alive or not; a job that is stuck in \<open>Scheduled\<close> is never
  failed, since the state machine has no transition from \<open>Scheduled\<close> to \<open>Failed\<close>.
\<close>

theorem watchdog_exact:
  assumes "store_inv s"
  shows "tbl_get (check_stale_jobs memory_job_store clock grace s) i =
    (case tbl_get s i of None \<Rightarrow> None
     | Some j \<Rightarrow> if job_state j = Running \<and> job_updated_at j + int (grace_of grace) \<le> clock i
                 then Some (failed_stale (clock i) Running j) else Some j)"
  using mem.check_stale_jobs_lookup [OF assms] by simp

theorem watchdog_exact_witness:
  "map_option job_state (tbl_get (check_stale_jobs memory_job_store (\<lambda>_. 10) 3
      [(''a'', stored_job ''a'' Running), (''b'', stored_job ''b'' Scheduled)]) ''a'') = Some Failed
   \<and> map_option job_state (tbl_get (check_stale_jobs memory_job_store (\<lambda>_. 10) 3
      [(''a'', stored_job ''a'' Running), (''b'', stored_job ''b'' Scheduled)]) ''b'') = Some Scheduled"
  using watchdog_exact [of "[(''a'', stored_job ''a'' Running), (''b'', stored_job ''b'' Scheduled)]" "\<lambda>_. 10" 3 "''a''"]
    watchdog_exact [of "[(''a'', stored_job ''a'' Running), (''b'', stored_job ''b'' Scheduled)]" "\<lambda>_. 10" 3 "''b''"]
  by (simp add: store_inv_def stored_job_def Job_new_def grace_of_def CHRONO_MAX_NANOS_def failed_stale_def)

end
