(* ===== verification/Dag_Executor.thy ===== *)
theory Dag_Executor
  imports Pipeline_Model Pipeline_Trigger Pipeline_Validation Dag_Graph Error_Display "HOL-Library.Sublist"
begin

text \<open>
  The pipeline executor (\<open>muli-pipeline/src/dag/executor.rs\<close>): it processes the levels of the
  dependency graph one after the other, submits the runs of a level as jobs, waits for them, and
  computes the state of the run.

  The stores and the submitter (\<open>run_store\<close>, \<open>step_store\<close>, \<open>job_store\<close>, \<open>job_submitter\<close>) are the operations
  of a record \<open>DagEnv\<close> on an arbitrary state, which stands for the rest of the system; \<open>de_sleep\<close> is
  what the rest of the system does during one poll interval, and \<open>de_now\<close> is the clock, which reads the
  same instant until the next call. The executor's own state is that state, the run it was given as
  \<open>&mut\<close>, and a trace of the jobs it submitted and waited for. Functions that wait return an option:
  \<open>None\<close> is a wait that never ends, and \<open>execute_terminates\<close> shows that a clock that goes on excludes it.
\<close>

record 'w DagEnv =
  de_get_step :: "string \<Rightarrow> string \<Rightarrow> 'w \<Rightarrow> StepRun option result"
  de_update_step :: "StepRun \<Rightarrow> 'w \<Rightarrow> unit result \<times> 'w"
  de_update_step_state :: "string \<Rightarrow> string \<Rightarrow> StepRunState \<Rightarrow> 'w \<Rightarrow> unit result \<times> 'w"
  de_update_run :: "PipelineRun \<Rightarrow> 'w \<Rightarrow> unit result \<times> 'w"
  de_submit :: "Job \<Rightarrow> 'w \<Rightarrow> string result \<times> 'w"
  de_get_job :: "string \<Rightarrow> 'w \<Rightarrow> Job option result"
  de_sleep :: "'w \<Rightarrow> 'w"
  de_now :: "'w \<Rightarrow> datetime"
  de_uuid :: "'w \<Rightarrow> string"

datatype dag_event =
    Submitted string string
  | SubmitFailed string
  | Waited string StepRunState

record 'w Exec =
  ex_w :: 'w
  ex_run :: PipelineRun
  ex_trace :: "dag_event list"

definition emit :: "dag_event \<Rightarrow> 'w Exec \<Rightarrow> 'w Exec" where
  "emit e x = x\<lparr>ex_trace := ex_trace x @ [e]\<rparr>"

definition call :: "('w \<Rightarrow> 'a \<times> 'w) \<Rightarrow> 'w Exec \<Rightarrow> 'a \<times> 'w Exec" where
  "call f x = (case f (ex_w x) of (r, w) \<Rightarrow> (r, x\<lparr>ex_w := w\<rparr>))"

text \<open>The operator \<open>?\<close> on a stateful call.\<close>

definition try_then :: "'a result \<times> 'x \<Rightarrow> ('a \<Rightarrow> 'x \<Rightarrow> 'b result \<times> 'x) \<Rightarrow> 'b result \<times> 'x" where
  "try_then rx f = (case rx of (Inl e, x) \<Rightarrow> (Inl e, x) | (Inr a, x) \<Rightarrow> f a x)"

definition try_wait :: "('a result \<times> 'x) option \<Rightarrow> ('a \<Rightarrow> 'x \<Rightarrow> ('b result \<times> 'x) option) \<Rightarrow> ('b result \<times> 'x) option" where
  "try_wait rx f = (case rx of None \<Rightarrow> None | Some (Inl e, x) \<Rightarrow> Some (Inl e, x) | Some (Inr a, x) \<Rightarrow> f a x)"

section \<open>Names and triggers\<close>

fun find_original_name :: "string \<Rightarrow> string list \<Rightarrow> string option" where
  "find_original_name sr_name [] = None"
| "find_original_name sr_name (name # rest) =
     (if sr_name = name then Some name
      else if starts_with sr_name name \<and> starts_with (drop (length name) sr_name) '' ('' then Some name
      else find_original_name sr_name rest)"

definition build_run_maps :: "StepRun list \<Rightarrow> string list \<Rightarrow> StepRun table \<times> string list table" where
  "build_run_maps step_runs original_names =
     (tbl_collect (map (\<lambda>s. (sr_step_name s, s)) step_runs),
      foldl (\<lambda>m sr. case find_original_name (sr_step_name sr) original_names of
                None \<Rightarrow> m
              | Some orig \<Rightarrow> tbl_insert orig ((case tbl_get m orig of None \<Rightarrow> [] | Some v \<Rightarrow> v) @ [sr_step_name sr]) m)
        [] step_runs)"

fun trigger_event_str :: "PipelineTrigger \<Rightarrow> string" where
  "trigger_event_str (TPush ref_name _) = (if starts_with ref_name ''refs/tags/'' then ''tag'' else ''push'')"
| "trigger_event_str (TPullRequest _ _ _) = ''pull_request''"
| "trigger_event_str (TManual _) = ''manual''"
| "trigger_event_str (TSchedule _) = ''schedule''"
| "trigger_event_str (TRetry _) = ''retry''"

fun changed_paths_for_trigger :: "PipelineTrigger \<Rightarrow> string list option" where
  "changed_paths_for_trigger (TPush _ changed_paths) = Some changed_paths"
| "changed_paths_for_trigger (TPullRequest _ _ changed_paths) = Some changed_paths"
| "changed_paths_for_trigger _ = None"

definition make_expr_ctx :: "PipelineRun \<Rightarrow> ExpressionContext" where
  "make_expr_ctx run =
     \<lparr>ctx_branch = (case strip_prefix (run_ref_name run) ''refs/heads/'' of Some b \<Rightarrow> b | None \<Rightarrow> []),
      ctx_event = trigger_event_str (run_trigger run),
      ctx_tag = strip_prefix (run_ref_name run) ''refs/tags/''\<rparr>"

definition compute_final_state :: "bool \<Rightarrow> bool \<Rightarrow> PipelineRunState" where
  "compute_final_state had_failure had_stop_failure =
     (if had_stop_failure then RunFailed else if had_failure then RunDegraded else RunSucceeded)"

section \<open>Building the jobs\<close>

definition set_env :: "EnvVar list \<Rightarrow> string \<times> string \<Rightarrow> EnvVar list" where
  "set_env env kv = filter (\<lambda>e. env_name e \<noteq> fst kv) env @ [\<lparr>env_name = fst kv, env_value = snd kv\<rparr>]"

definition set_env_opt :: "EnvVar list \<Rightarrow> string \<Rightarrow> string option \<Rightarrow> EnvVar list" where
  "set_env_opt env k v = (case v of None \<Rightarrow> env | Some x \<Rightarrow> set_env env (k, x))"

definition env_table :: "EnvVar list \<Rightarrow> string table" where
  "env_table env = tbl_collect (map (\<lambda>e. (env_name e, env_value e)) env)"

definition builtins :: "PipelineRun \<Rightarrow> string \<Rightarrow> string \<Rightarrow> (string \<times> string) list" where
  "builtins run name_key name_val =
     [(''PIPELINE_RUN_ID'', run_id run), (''PIPELINE_REF'', run_ref_name run), (''PIPELINE_SHA'', commit_sha run),
      (''PIPELINE_BRANCH'', join [] (split_sub (run_ref_name run) ''refs/heads/'')),
      (''PIPELINE_EVENT'', trigger_event_str (run_trigger run)), (name_key, name_val)]"

definition build_env_vars :: "string table \<Rightarrow> string table \<Rightarrow> PipelineRun \<Rightarrow> string \<Rightarrow> string \<Rightarrow> string option \<Rightarrow> string option \<Rightarrow> string option \<Rightarrow> EnvVar list" where
  "build_env_vars pipeline_env item_env run name_key name_val curl registry_url registry_token =
     (let env = map (\<lambda>(k, v). \<lparr>env_name = k, env_value = v\<rparr>) pipeline_env;
          env = foldl set_env env item_env;
          env = foldl set_env env (run_env_vars run);
          env = foldl set_env env (builtins run name_key name_val);
          env = set_env_opt env ''PIPELINE_CLONE_URL'' curl;
          env = set_env_opt env ''MULI_REGISTRY_URL'' registry_url;
          env = set_env_opt env ''MULI_REGISTRY_TOKEN'' registry_token
      in map (\<lambda>e. e\<lparr>env_value := interpolate (env_value e) (run_env_vars run) (env_table env)\<rparr>) env)"

definition job_registry_token :: "JobDef \<Rightarrow> string option \<Rightarrow> string option" where
  "job_registry_token job_def registry_token = (if jd_registry job_def = Some Write then registry_token else None)"

definition resolve_resources :: "ResourceDef option \<Rightarrow> nat option \<Rightarrow> string \<times> string \<times> nat" where
  "resolve_resources res timeout =
     (case Option.bind res rd_cpu of Some c \<Rightarrow> c | None \<Rightarrow> ''1000m'',
      case Option.bind res rd_memory of Some m \<Rightarrow> m | None \<Rightarrow> ''512Mi'',
      case timeout of Some t \<Rightarrow> t | None \<Rightarrow> 1800)"

definition make_resource_spec :: "string \<Rightarrow> string \<Rightarrow> nat \<Rightarrow> ResourceSpec" where
  "make_resource_spec cpu memory timeout =
     \<lparr>cpu_request = cpu, cpu_limit = cpu, memory_request = memory, memory_limit = memory, timeout_seconds = timeout\<rparr>"

definition build_job_from_jobdef :: "'w DagEnv \<Rightarrow> PipelineRun \<Rightarrow> PipelineDef \<Rightarrow> string \<Rightarrow> JobDef \<Rightarrow> string option \<Rightarrow> string option \<Rightarrow> string option \<Rightarrow> StepRun \<Rightarrow> 'w \<Rightarrow> Job" where
  "build_job_from_jobdef E run def name job_def curl registry_url registry_token step_run w =
     (let env_vars = build_env_vars (pd_env def) (jd_env job_def) run ''PIPELINE_JOB_NAME'' name None registry_url
                       (job_registry_token job_def registry_token);
          checkout = map_option (\<lambda>url. \<lparr>clone_url = url, co_sha = commit_sha run,
                       CheckoutSpec.submodules = CheckoutConfig.submodules (pd_checkout def)\<rparr>) curl;
          downloads = concat (map (\<lambda>needed. case tbl_get (pd_jobs def) needed of None \<Rightarrow> []
                       | Some needed_def \<Rightarrow> if Pipeline_Schema.artifact_upload_paths needed_def = [] then []
                           else [\<lparr>dl_run_id = run_id run, dl_job_name = needed\<rparr>]) (jd_needs job_def));
          uploads = Pipeline_Schema.artifact_upload_paths job_def;
          substeps = map (\<lambda>step. \<lparr>substep_name = js_name step,
                       substep_commands = map (\<lambda>cmd. interpolate cmd (run_env_vars run) (env_table env_vars)) (js_commands step)\<rparr>)
                       (execution_substeps job_def);
          (cpu, memory, timeout) = resolve_resources (jd_resources job_def) (jd_timeout job_def)
      in Job_new (de_uuid E w) (de_now E w) (de_now E w)
        \<lparr>deployment_id = run_id run, project_id = run_repo_id run, workspace_id = run_tenant_id run,
         spec_tenant_id = run_tenant_id run,
         runner_image = (case effective_image job_def (pd_image def) of Some i \<Rightarrow> i | None \<Rightarrow> ''alpine:latest''),
         spec_env_vars = env_vars, spec_resources = make_resource_spec cpu memory timeout, priority_tier = Standard,
         framework = ''pipeline'', idempotency_key = None, registry_credentials = None, spec_commands = [],
         spec_substeps = substeps, spec_checkout = checkout, artifact_downloads = downloads,
         artifact_upload_paths = uploads, artifact_upload_key = (if uploads = [] then None else Some name),
         pipeline_step_run_id = Some (sr_id step_run)\<rparr>)"

definition build_job :: "'w DagEnv \<Rightarrow> PipelineRun \<Rightarrow> PipelineDef \<Rightarrow> StepDef \<Rightarrow> string option \<Rightarrow> string option \<Rightarrow> string option \<Rightarrow> StepRun \<Rightarrow> 'w \<Rightarrow> Job" where
  "build_job E run def step_def curl registry_url registry_token step_run w =
     (let env_vars = build_env_vars (pd_env def) (sd_env step_def) run ''PIPELINE_STEP_NAME'' (sd_name step_def) curl
                       registry_url registry_token;
          dq = [CHR 0x22];
          clone = (if curl = None then []
            else [''git clone '' @ dq @ ''$PIPELINE_CLONE_URL'' @ dq @ '' /workspace && cd /workspace && git checkout ''
                    @ dq @ ''$PIPELINE_SHA'' @ dq]);
          commands = clone @ map (\<lambda>cmd. interpolate cmd (run_env_vars run) (env_table env_vars)) (sd_commands step_def);
          (cpu, memory, timeout) = resolve_resources (sd_resources step_def) (sd_timeout step_def)
      in Job_new (de_uuid E w) (de_now E w) (de_now E w)
        \<lparr>deployment_id = run_id run, project_id = run_repo_id run, workspace_id = run_tenant_id run,
         spec_tenant_id = run_tenant_id run, runner_image = sd_image step_def,
         spec_env_vars = env_vars, spec_resources = make_resource_spec cpu memory timeout, priority_tier = Standard,
         framework = ''pipeline'', idempotency_key = None, registry_credentials = None, spec_commands = commands,
         spec_substeps = [], spec_checkout = None, artifact_downloads = [], artifact_upload_paths = [],
         artifact_upload_key = None, pipeline_step_run_id = Some (sr_id step_run)\<rparr>)"

section \<open>Waiting for a job\<close>

definition MAX_PIPELINE_DURATION :: duration where
  "MAX_PIPELINE_DURATION = 3600 * 1000000000"

partial_function (option) wait_for_job :: "'w DagEnv \<Rightarrow> string \<Rightarrow> datetime \<Rightarrow> 'w \<Rightarrow> (JobState option \<times> 'w) option" where
  "wait_for_job E jid deadline w =
     (if deadline < de_now E w then Some (Some TimedOut, w)
      else case de_get_job E jid w of
          Inr (Some job) \<Rightarrow> if is_terminal (job_state job) then Some (Some (job_state job), w)
                           else wait_for_job E jid deadline (de_sleep E w)
        | Inr None \<Rightarrow> Some (None, w)
        | Inl e \<Rightarrow> wait_for_job E jid deadline (de_sleep E w))"

declare wait_for_job.simps [code]

section \<open>One level\<close>

definition mark_running :: "'w DagEnv \<Rightarrow> string \<Rightarrow> StepRun \<Rightarrow> Job \<Rightarrow> 'w Exec \<Rightarrow> unit result \<times> 'w Exec" where
  "mark_running E tenant sr job x =
     (case de_get_step E tenant (sr_id sr) (ex_w x) of Inl e \<Rightarrow> (Inl e, x)
      | Inr (Some step) \<Rightarrow>
          (let now = de_now E (ex_w x);
               seeds = map (\<lambda>s. JobSubstepRun_new (substep_name s)) (spec_substeps (job_spec job))
           in call (de_update_step E (step\<lparr>sr_state := StepRunning, sr_started_at := Some now, sr_error_message := None,
                 sr_substeps := (if sr_substeps step = [] then seeds else sr_substeps step), sr_updated_at := now\<rparr>)) x)
      | Inr None \<Rightarrow> call (de_update_step_state E tenant (sr_id sr) StepRunning) x)"

definition record_job_id :: "'w DagEnv \<Rightarrow> string \<Rightarrow> StepRun \<Rightarrow> string \<Rightarrow> 'w Exec \<Rightarrow> unit result \<times> 'w Exec" where
  "record_job_id E tenant sr jid x =
     (case de_get_step E tenant (sr_id sr) (ex_w x) of Inl e \<Rightarrow> (Inl e, x)
      | Inr (Some step) \<Rightarrow> call (de_update_step E (step\<lparr>sr_job_id := Some jid, sr_updated_at := de_now E (ex_w x)\<rparr>)) x
      | Inr None \<Rightarrow> (Inr (), x))"

definition record_submit_failure :: "'w DagEnv \<Rightarrow> string \<Rightarrow> StepRun \<Rightarrow> MuliError \<Rightarrow> 'w Exec \<Rightarrow> unit result \<times> 'w Exec" where
  "record_submit_failure E tenant sr err x =
     (case de_get_step E tenant (sr_id sr) (ex_w x) of Inl e \<Rightarrow> (Inl e, x)
      | Inr (Some step) \<Rightarrow>
          (let now = de_now E (ex_w x)
           in call (de_update_step E (step\<lparr>sr_state := StepFailed, sr_finished_at := Some now,
                 sr_error_message := Some (''Job submission failed: '' @ MuliError_to_string err), sr_updated_at := now\<rparr>)) x)
      | Inr None \<Rightarrow> call (de_update_step_state E tenant (sr_id sr) StepFailed) x)"

type_synonym submit_acc = "(string \<times> string) list \<times> bool \<times> bool"

definition submit_run :: "'w DagEnv \<Rightarrow> string \<Rightarrow> StepRun table \<Rightarrow> (string \<Rightarrow> string \<Rightarrow> 'w \<Rightarrow> Job option) \<Rightarrow> string \<times> string \<Rightarrow> submit_acc \<Rightarrow> 'w Exec \<Rightarrow> submit_acc result \<times> 'w Exec" where
  "submit_run E tenant srm build_fn pair acc x =
     (case (pair, acc) of ((orig, name), (submitted, had_failure, had_stop)) \<Rightarrow>
      case tbl_get srm name of None \<Rightarrow> (Inr acc, x)
      | Some sr \<Rightarrow>
        case de_get_step E tenant (sr_id sr) (ex_w x) of Inl e \<Rightarrow> (Inl e, x)
        | Inr current \<Rightarrow>
          if map_option sr_state current \<in> {Some StepSkipped, Some StepCancelled} then (Inr acc, x)
          else case build_fn orig name (ex_w x) of None \<Rightarrow> (Inr acc, x)
          | Some job \<Rightarrow>
            try_then (mark_running E tenant sr job x) (\<lambda>_ x1.
              case call (de_submit E job) x1 of
                (Inr jid, x2) \<Rightarrow>
                  try_then (record_job_id E tenant sr jid (emit (Submitted name jid) x2)) (\<lambda>_ x3.
                    (Inr (submitted @ [(name, jid)], had_failure, had_stop), x3))
              | (Inl err, x2) \<Rightarrow>
                  try_then (record_submit_failure E tenant sr err (emit (SubmitFailed name) x2)) (\<lambda>_ x3.
                    (Inr (submitted, True, had_stop \<or> sr_failure_strategy sr = Stop), x3))))"

fun submit_level :: "'w DagEnv \<Rightarrow> string \<Rightarrow> StepRun table \<Rightarrow> (string \<Rightarrow> string \<Rightarrow> 'w \<Rightarrow> Job option) \<Rightarrow> (string \<times> string) list \<Rightarrow> submit_acc \<Rightarrow> 'w Exec \<Rightarrow> submit_acc result \<times> 'w Exec" where
  "submit_level E tenant srm build_fn [] acc x = (Inr acc, x)"
| "submit_level E tenant srm build_fn (pair # pairs) acc x =
     try_then (submit_run E tenant srm build_fn pair acc x) (submit_level E tenant srm build_fn pairs)"

fun step_state_of :: "JobState option \<Rightarrow> StepRunState" where
  "step_state_of (Some Succeeded) = StepSucceeded"
| "step_state_of (Some Cancelled) = StepCancelled"
| "step_state_of _ = StepFailed"

definition failure_message :: "'w DagEnv \<Rightarrow> string \<Rightarrow> StepRunState \<Rightarrow> 'w \<Rightarrow> string option result" where
  "failure_message E jid state w =
     (if state = StepFailed then
        (case de_get_job E jid w of Inl e \<Rightarrow> Inl e
         | Inr job \<Rightarrow> Inr (Option.bind (Option.bind job job_result)
             (\<lambda>r. if trim (res_message r) = [] then None else Some (res_message r))))
      else Inr None)"

definition record_outcome :: "'w DagEnv \<Rightarrow> string \<Rightarrow> StepRun \<Rightarrow> StepRunState \<Rightarrow> string option \<Rightarrow> 'w Exec \<Rightarrow> unit result \<times> 'w Exec" where
  "record_outcome E tenant sr state msg x =
     (case de_get_step E tenant (sr_id sr) (ex_w x) of Inl e \<Rightarrow> (Inl e, x)
      | Inr (Some step) \<Rightarrow>
          (let now = de_now E (ex_w x)
           in call (de_update_step E (step\<lparr>sr_state := state, sr_finished_at := Some now, sr_error_message := msg,
                 sr_updated_at := now\<rparr>)) x)
      | Inr None \<Rightarrow> (Inr (), x))"

definition wait_run :: "'w DagEnv \<Rightarrow> string \<Rightarrow> StepRun table \<Rightarrow> datetime \<Rightarrow> string \<times> string \<Rightarrow> bool \<times> bool \<Rightarrow> 'w Exec \<Rightarrow> ((bool \<times> bool) result \<times> 'w Exec) option" where
  "wait_run E tenant srm deadline pair acc x =
     (case (pair, acc) of ((name, jid), (had_failure, had_stop)) \<Rightarrow>
      case tbl_get srm name of None \<Rightarrow> Some (Inr acc, x)
      | Some sr \<Rightarrow>
        case wait_for_job E jid deadline (ex_w x) of None \<Rightarrow> None
        | Some (js, w) \<Rightarrow>
          let state = step_state_of js; x1 = emit (Waited name state) (x\<lparr>ex_w := w\<rparr>)
          in case failure_message E jid state w of Inl e \<Rightarrow> Some (Inl e, x1)
             | Inr msg \<Rightarrow> Some (try_then (record_outcome E tenant sr state msg x1) (\<lambda>_ x2.
                 (Inr (had_failure \<or> state = StepFailed,
                       had_stop \<or> (state = StepFailed \<and> sr_failure_strategy sr = Stop)), x2))))"

fun wait_level :: "'w DagEnv \<Rightarrow> string \<Rightarrow> StepRun table \<Rightarrow> datetime \<Rightarrow> (string \<times> string) list \<Rightarrow> bool \<times> bool \<Rightarrow> 'w Exec \<Rightarrow> ((bool \<times> bool) result \<times> 'w Exec) option" where
  "wait_level E tenant srm deadline [] acc x = Some (Inr acc, x)"
| "wait_level E tenant srm deadline (pair # pairs) acc x =
     try_wait (wait_run E tenant srm deadline pair acc x) (wait_level E tenant srm deadline pairs)"

fun cancel_runs :: "'w DagEnv \<Rightarrow> string \<Rightarrow> StepRun table \<Rightarrow> string list \<Rightarrow> 'w Exec \<Rightarrow> unit result \<times> 'w Exec" where
  "cancel_runs E tenant srm [] x = (Inr (), x)"
| "cancel_runs E tenant srm (rn # rns) x =
     (case tbl_get srm rn of None \<Rightarrow> cancel_runs E tenant srm rns x
      | Some sr \<Rightarrow>
        case de_get_step E tenant (sr_id sr) (ex_w x) of Inl e \<Rightarrow> (Inl e, x)
        | Inr None \<Rightarrow> cancel_runs E tenant srm rns x
        | Inr (Some s) \<Rightarrow>
            if step_is_terminal (sr_state s) then cancel_runs E tenant srm rns x
            else try_then (call (de_update_step_state E tenant (sr_id sr) StepCancelled) x)
                   (\<lambda>_. cancel_runs E tenant srm rns))"

definition runs_of :: "string list table \<Rightarrow> string \<Rightarrow> string list" where
  "runs_of otr n = (case tbl_get otr n of None \<Rightarrow> [] | Some v \<Rightarrow> v)"

definition cancel_level_runs :: "'w DagEnv \<Rightarrow> string \<Rightarrow> string list \<Rightarrow> string list table \<Rightarrow> StepRun table \<Rightarrow> 'w Exec \<Rightarrow> unit result \<times> 'w Exec" where
  "cancel_level_runs E tenant level otr srm = cancel_runs E tenant srm (concat (map (runs_of otr) level))"

definition level_run_pairs :: "string list table \<Rightarrow> string list \<Rightarrow> (string \<times> string) list" where
  "level_run_pairs otr level = concat (map (\<lambda>n. map (\<lambda>sr. (n, sr)) (runs_of otr n)) level)"

section \<open>The whole run\<close>

fun execute_dag_levels :: "'w DagEnv \<Rightarrow> string \<Rightarrow> string list list \<Rightarrow> string list table \<Rightarrow> StepRun table \<Rightarrow> datetime \<Rightarrow> (string \<Rightarrow> string \<Rightarrow> 'w \<Rightarrow> Job option) \<Rightarrow> bool \<times> bool \<Rightarrow> 'w Exec \<Rightarrow> ((bool \<times> bool) result \<times> 'w Exec) option" where
  "execute_dag_levels E tenant [] otr srm deadline build_fn acc x = Some (Inr acc, x)"
| "execute_dag_levels E tenant (level # levels) otr srm deadline build_fn (had_failure, had_stop) x =
     (if had_stop then
        try_wait (Some (cancel_level_runs E tenant level otr srm x)) (\<lambda>_.
          execute_dag_levels E tenant levels otr srm deadline build_fn (had_failure, had_stop))
      else
        try_wait (Some (submit_level E tenant srm build_fn (level_run_pairs otr level) ([], False, False) x))
          (\<lambda>(submitted, submit_failed, submit_stop) x1.
            try_wait (wait_level E tenant srm deadline submitted (False, False) x1) (\<lambda>(wait_failed, wait_stop).
              execute_dag_levels E tenant levels otr srm deadline build_fn
                (had_failure \<or> submit_failed \<or> wait_failed, had_stop \<or> submit_stop \<or> wait_stop))))"

fun evaluate_conditions :: "'w DagEnv \<Rightarrow> string \<Rightarrow> StepRun list \<Rightarrow> string list \<Rightarrow> ExpressionContext \<Rightarrow> (string \<Rightarrow> string option) \<Rightarrow> 'w Exec \<Rightarrow> unit result \<times> 'w Exec" where
  "evaluate_conditions E tenant [] ns ctx condition_for x = (Inr (), x)"
| "evaluate_conditions E tenant (sr # srs) ns ctx condition_for x =
     (case Option.bind (find_original_name (sr_step_name sr) ns) condition_for of
        Some cond \<Rightarrow>
          if evaluate_condition cond ctx then evaluate_conditions E tenant srs ns ctx condition_for x
          else try_then (call (de_update_step_state E tenant (sr_id sr) StepSkipped) x)
                 (\<lambda>_. evaluate_conditions E tenant srs ns ctx condition_for)
      | None \<Rightarrow> evaluate_conditions E tenant srs ns ctx condition_for x)"

fun skip_unmatched_paths :: "'w DagEnv \<Rightarrow> string \<Rightarrow> string list \<Rightarrow> StepRun list \<Rightarrow> string list \<Rightarrow> (string \<Rightarrow> string list) \<Rightarrow> 'w Exec \<Rightarrow> unit result \<times> 'w Exec" where
  "skip_unmatched_paths E tenant changed [] ns paths_for x = (Inr (), x)"
| "skip_unmatched_paths E tenant changed (sr # srs) ns paths_for x =
     (case find_original_name (sr_step_name sr) ns of
        Some orig \<Rightarrow>
          if paths_for orig \<noteq> [] \<and> \<not> matches_any_path (paths_for orig) changed then
            try_then (call (de_update_step_state E tenant (sr_id sr) StepSkipped) x)
              (\<lambda>_. skip_unmatched_paths E tenant changed srs ns paths_for)
          else skip_unmatched_paths E tenant changed srs ns paths_for x
      | None \<Rightarrow> skip_unmatched_paths E tenant changed srs ns paths_for x)"

definition evaluate_job_paths :: "'w DagEnv \<Rightarrow> string \<Rightarrow> PipelineRun \<Rightarrow> StepRun list \<Rightarrow> string list \<Rightarrow> (string \<Rightarrow> string list) \<Rightarrow> 'w Exec \<Rightarrow> unit result \<times> 'w Exec" where
  "evaluate_job_paths E tenant run step_runs ns paths_for x =
     (case changed_paths_for_trigger (run_trigger run) of None \<Rightarrow> (Inr (), x)
      | Some changed \<Rightarrow> skip_unmatched_paths E tenant changed step_runs ns paths_for x)"

definition mark_run_started :: "'w DagEnv \<Rightarrow> 'w Exec \<Rightarrow> unit result \<times> 'w Exec" where
  "mark_run_started E x =
     (let now = de_now E (ex_w x);
          run = (ex_run x)\<lparr>run_state := RunRunning, run_started_at := Some now, run_updated_at := now\<rparr>
      in call (de_update_run E run) (x\<lparr>ex_run := run\<rparr>))"

definition finalize_run :: "'w DagEnv \<Rightarrow> bool \<times> bool \<Rightarrow> 'w Exec \<Rightarrow> PipelineRunState result \<times> 'w Exec" where
  "finalize_run E flags x =
     (let state = compute_final_state (fst flags) (snd flags); now = de_now E (ex_w x);
          run = (ex_run x)\<lparr>run_state := state, run_finished_at := Some now, run_updated_at := now\<rparr>
      in try_then (call (de_update_run E run) (x\<lparr>ex_run := run\<rparr>)) (\<lambda>_ x'. (Inr state, x')))"

definition run_levels :: "'w DagEnv \<Rightarrow> (string \<times> string list) list \<Rightarrow> StepRun list \<Rightarrow> string list \<Rightarrow> (string \<Rightarrow> string \<Rightarrow> 'w \<Rightarrow> Job option) \<Rightarrow> 'w Exec \<Rightarrow> (PipelineRunState result \<times> 'w Exec) option" where
  "run_levels E deps step_runs original_names build_fn x =
     (case build_run_maps step_runs original_names of (srm, otr) \<Rightarrow>
        try_wait (execute_dag_levels E (run_tenant_id (ex_run x)) (topological_levels (from_steps deps)) otr srm
            (de_now E (ex_w x) + int MAX_PIPELINE_DURATION) build_fn (False, False) x)
          (\<lambda>flags x'. Some (finalize_run E flags x')))"

definition execute_jobs :: "'w DagEnv \<Rightarrow> PipelineDef \<Rightarrow> StepRun list \<Rightarrow> string option \<Rightarrow> string option \<Rightarrow> string option \<Rightarrow> 'w Exec \<Rightarrow> (PipelineRunState result \<times> 'w Exec) option" where
  "execute_jobs E def step_runs curl registry_url registry_token x0 =
     try_wait (Some (mark_run_started E x0)) (\<lambda>_ x1.
      let run = ex_run x1; original_names = tbl_keys (pd_jobs def); srm = fst (build_run_maps step_runs original_names);
          build_fn = (\<lambda>orig name w. case (tbl_get (pd_jobs def) orig, tbl_get srm name) of
            (Some d, Some sr) \<Rightarrow> Some (build_job_from_jobdef E run def orig d curl registry_url registry_token sr w)
          | _ \<Rightarrow> None)
      in try_wait (Some (evaluate_conditions E (run_tenant_id run) step_runs original_names (make_expr_ctx run)
             (\<lambda>n. Option.bind (tbl_get (pd_jobs def) n) jd_condition) x1)) (\<lambda>_ x2.
         try_wait (Some (evaluate_job_paths E (run_tenant_id run) run step_runs original_names
             (\<lambda>n. case tbl_get (pd_jobs def) n of None \<Rightarrow> [] | Some d \<Rightarrow> jd_paths d) x2)) (\<lambda>_.
         run_levels E (map (\<lambda>(n, d). (n, jd_needs d)) (pd_jobs def)) step_runs original_names build_fn)))"

definition execute_steps :: "'w DagEnv \<Rightarrow> PipelineDef \<Rightarrow> StepRun list \<Rightarrow> string option \<Rightarrow> string option \<Rightarrow> string option \<Rightarrow> 'w Exec \<Rightarrow> (PipelineRunState result \<times> 'w Exec) option" where
  "execute_steps E def step_runs curl registry_url registry_token x0 =
     try_wait (Some (mark_run_started E x0)) (\<lambda>_ x1.
      let run = ex_run x1; original_names = map sd_name (pd_steps def);
          step_def_map = tbl_collect (map (\<lambda>s. (sd_name s, s)) (pd_steps def));
          srm = fst (build_run_maps step_runs original_names);
          build_fn = (\<lambda>orig name w. case (tbl_get step_def_map orig, tbl_get srm name) of
            (Some d, Some sr) \<Rightarrow> Some (build_job E run def d curl registry_url registry_token sr w)
          | _ \<Rightarrow> None)
      in try_wait (Some (evaluate_conditions E (run_tenant_id run) step_runs original_names (make_expr_ctx run)
             (\<lambda>n. Option.bind (tbl_get step_def_map n) sd_condition) x1)) (\<lambda>_.
         run_levels E (map (\<lambda>s. (sd_name s, sd_needs s)) (pd_steps def)) step_runs original_names build_fn))"

definition execute :: "'w DagEnv \<Rightarrow> PipelineDef \<Rightarrow> StepRun list \<Rightarrow> string option \<Rightarrow> string option \<Rightarrow> string option \<Rightarrow> 'w Exec \<Rightarrow> (PipelineRunState result \<times> 'w Exec) option" where
  "execute E def step_runs curl registry_url registry_token x =
     (if pd_jobs def \<noteq> [] then execute_jobs E def step_runs curl registry_url registry_token x
      else execute_steps E def step_runs curl registry_url registry_token x)"

section \<open>Lemmas: the trace\<close>

lemma try_then_cases: "try_then rx f = (case fst rx of Inl e \<Rightarrow> (Inl e, snd rx) | Inr a \<Rightarrow> f a (snd rx))"
  by (cases rx) (simp add: try_then_def split: sum.split)

lemma try_wait_simps [simp]:
  "try_wait None f = None" "try_wait (Some (Inl e, x)) f = Some (Inl e, x)" "try_wait (Some (Inr a, x)) f = f a x"
  by (simp_all add: try_wait_def)

lemma try_waitE:
  assumes "try_wait m f = Some (r, x')"
  obtains (error) e where "m = Some (Inl e, x')" "r = Inl e" | (ok) a y where "m = Some (Inr a, y)" "f a y = Some (r, x')"
  using assms by (auto simp: try_wait_def split: option.splits prod.splits sum.splits)

fun ev_name :: "dag_event \<Rightarrow> string" where
  "ev_name (Submitted n _) = n"
| "ev_name (SubmitFailed n) = n"
| "ev_name (Waited n _) = n"

fun is_wait :: "dag_event \<Rightarrow> bool" where
  "is_wait (Waited _ _) = True"
| "is_wait _ = False"

fun submitted_of :: "dag_event \<Rightarrow> (string \<times> string) list" where
  "submitted_of (Submitted n j) = [(n, j)]"
| "submitted_of _ = []"

fun failed_of :: "dag_event \<Rightarrow> string list" where
  "failed_of (SubmitFailed n) = [n]"
| "failed_of (Waited n StepFailed) = [n]"
| "failed_of _ = []"

definition submitted_jobs :: "dag_event list \<Rightarrow> (string \<times> string) list" where
  "submitted_jobs tr = concat (map submitted_of tr)"

definition failed_runs :: "dag_event list \<Rightarrow> string list" where
  "failed_runs tr = concat (map failed_of tr)"

definition stop_run :: "StepRun table \<Rightarrow> string \<Rightarrow> bool" where
  "stop_run srm n = (case tbl_get srm n of None \<Rightarrow> False | Some sr \<Rightarrow> sr_failure_strategy sr = Stop)"

definition stop_failure :: "StepRun table \<Rightarrow> dag_event list \<Rightarrow> bool" where
  "stop_failure srm tr = list_ex (stop_run srm) (failed_runs tr)"

lemma trace_append [simp]:
  "submitted_jobs (a @ b) = submitted_jobs a @ submitted_jobs b"
  "failed_runs (a @ b) = failed_runs a @ failed_runs b"
  "stop_failure srm (a @ b) \<longleftrightarrow> stop_failure srm a \<or> stop_failure srm b"
  "submitted_jobs [] = []" "failed_runs [] = []" "\<not> stop_failure srm []"
  by (simp_all add: submitted_jobs_def failed_runs_def stop_failure_def)

lemma trace_single:
  "submitted_jobs [e] = submitted_of e" "failed_runs [e] = failed_of e" "stop_failure srm [e] = list_ex (stop_run srm) (failed_of e)"
  by (simp_all add: submitted_jobs_def failed_runs_def stop_failure_def)

lemma submitted_jobs_set: "(n, j) \<in> set (submitted_jobs tr) \<longleftrightarrow> Submitted n j \<in> set tr"
proof -
  have "(n, j) \<in> set (submitted_of e) \<longleftrightarrow> e = Submitted n j" for e by (cases e) auto
  then show ?thesis by (auto simp: submitted_jobs_def)
qed

text \<open>What a step that touches neither the trace nor the run does.\<close>

definition silent :: "'a \<times> 'w Exec \<Rightarrow> 'w Exec \<Rightarrow> bool" where
  "silent rx x \<longleftrightarrow> ex_trace (snd rx) = ex_trace x \<and> ex_run (snd rx) = ex_run x"

lemma silent_call [intro, simp]: "silent (call f x) x"
  by (simp add: silent_def call_def split: prod.split)

lemma silent_ret [intro, simp]: "silent (r, x) x"
  by (simp add: silent_def)

lemma silent_records [intro, simp]:
  "silent (mark_running E t sr job x) x" "silent (record_job_id E t sr jid x) x"
  "silent (record_submit_failure E t sr err x) x" "silent (record_outcome E t sr st msg x) x"
  by (simp_all add: mark_running_def record_job_id_def record_submit_failure_def record_outcome_def Let_def
      split: sum.split option.split)

lemma silent_try:
  assumes "silent rx x" "\<And>a y. silent (f a y) y"
  shows "silent (try_then rx f) x"
  using assms(1) assms(2) [of _ "snd rx"] by (auto simp: silent_def try_then_def split: prod.splits sum.splits)

lemma silent_cancel: "silent (cancel_level_runs E t lv otr srm x) x"
proof -
  have "silent (cancel_runs E t srm rns x) x" for rns
    by (induction rns arbitrary: x) (auto intro!: silent_try split: option.split sum.split)
  then show ?thesis by (simp add: cancel_level_runs_def)
qed

lemma silent_conditions: "silent (evaluate_conditions E t srs ns ctx cf x) x"
  by (induction srs arbitrary: x) (auto intro!: silent_try split: option.split)

lemma silent_paths: "silent (evaluate_job_paths E t run srs ns pf x) x"
proof -
  have "silent (skip_unmatched_paths E t ch srs ns pf x) x" for ch
    by (induction srs arbitrary: x) (auto intro!: silent_try split: option.split)
  then show ?thesis by (simp add: evaluate_job_paths_def split: option.split)
qed

lemma emit_simps [simp]: "ex_trace (emit e x) = ex_trace x @ [e]" "ex_run (emit e x) = ex_run x" "ex_w (emit e x) = ex_w x"
  by (simp_all add: emit_def)

section \<open>Lemmas: one level\<close>

text \<open>The events of the submissions, and what the accumulator says of them.\<close>

definition submit_post :: "StepRun table \<Rightarrow> string list \<Rightarrow> submit_acc \<Rightarrow> 'w Exec \<Rightarrow> submit_acc result \<times> 'w Exec \<Rightarrow> bool" where
  "submit_post srm ns acc x rx \<longleftrightarrow> (\<exists>S. ex_trace (snd rx) = ex_trace x @ S \<and> ex_run (snd rx) = ex_run x
     \<and> subseq (map ev_name S) ns \<and> (\<forall>e \<in> set S. \<not> is_wait e \<and> tbl_get srm (ev_name e) \<noteq> None)
     \<and> (\<forall>sub hf hs. fst rx = Inr (sub, hf, hs) \<longrightarrow>
          sub = fst acc @ submitted_jobs S \<and> hf = (fst (snd acc) \<or> failed_runs S \<noteq> []) \<and> hs = (snd (snd acc) \<or> stop_failure srm S)))"

lemma submit_post_none: "submit_post srm ns acc x (Inr acc, x)" "submit_post srm ns acc x (Inl e, x)"
  unfolding submit_post_def by (rule exI [of _ "[]"]; auto)+

lemma submit_post_single:
  assumes "silent rx (emit e y)" "ex_trace y = ex_trace x" "ex_run y = ex_run x" "\<not> is_wait e" "tbl_get srm (ev_name e) \<noteq> None"
    and "acc' = (fst acc @ submitted_of e, fst (snd acc) \<or> failed_of e \<noteq> [], snd (snd acc) \<or> list_ex (stop_run srm) (failed_of e))"
  shows "submit_post srm [ev_name e] acc x (try_then rx (\<lambda>_ z. (Inr acc', z)))"
  unfolding submit_post_def using assms
  by (intro exI [of _ "[e]"]) (auto simp: silent_def try_then_def trace_single split: prod.splits sum.splits)

lemma submit_run_post: "submit_post srm [name] acc x (submit_run E t srm build (orig, name) acc x)"
proof -
  obtain sub hf hs where acc: "acc = (sub, hf, hs)" by (cases acc)
  show ?thesis
  proof (cases "tbl_get srm name")
    case None
    then show ?thesis by (simp add: submit_run_def acc submit_post_none [where acc = "(sub, hf, hs)"])
  next
    case (Some sr)
    have inner: "submit_post srm [name] acc x
        (try_then (mark_running E t sr job x) (\<lambda>_ x1.
              case call (de_submit E job) x1 of
                (Inr jid, x2) \<Rightarrow>
                  try_then (record_job_id E t sr jid (emit (Submitted name jid) x2)) (\<lambda>_ x3.
                    (Inr (sub @ [(name, jid)], hf, hs), x3))
              | (Inl err, x2) \<Rightarrow>
                  try_then (record_submit_failure E t sr err (emit (SubmitFailed name) x2)) (\<lambda>_ x3.
                    (Inr (sub, True, hs \<or> sr_failure_strategy sr = Stop), x3))))" for job
    proof (cases "mark_running E t sr job x")
      case m: (Pair r x1)
      have s1: "ex_trace x1 = ex_trace x" "ex_run x1 = ex_run x"
        using silent_records(1) [of E t sr job x] by (simp_all add: m silent_def)
      obtain q x2 where c: "call (de_submit E job) x1 = (q, x2)" by (cases "call (de_submit E job) x1")
      have s2: "ex_trace x2 = ex_trace x" "ex_run x2 = ex_run x"
        using silent_call [of "de_submit E job" x1] s1 by (simp_all add: c silent_def)
      show ?thesis
      proof (cases r)
        case (Inl e)
        show ?thesis unfolding submit_post_def by (rule exI [of _ "[]"]) (simp add: m Inl try_then_def s1)
      next
        case ok: (Inr u)
        show ?thesis
        proof (cases q)
          case (Inl err)
          have "submit_post srm [ev_name (SubmitFailed name)] acc x
              (try_then (record_submit_failure E t sr err (emit (SubmitFailed name) x2)) (\<lambda>_ z.
                (Inr (sub, True, hs \<or> sr_failure_strategy sr = Stop), z)))"
            by (rule submit_post_single [OF silent_records(3) s2]) (simp_all add: Some acc stop_run_def)
          then show ?thesis
            by (simp add: m ok try_then_def [of "(Inr _, x1)"] c Inl acc)
        next
          case (Inr jid)
          have "submit_post srm [ev_name (Submitted name jid)] acc x
              (try_then (record_job_id E t sr jid (emit (Submitted name jid) x2)) (\<lambda>_ z.
                (Inr (sub @ [(name, jid)], hf, hs), z)))"
            by (rule submit_post_single [OF silent_records(2) s2]) (simp_all add: Some acc)
          then show ?thesis
            by (simp add: m ok try_then_def [of "(Inr _, x1)"] c Inr acc)
        qed
      qed
    qed
    show ?thesis using inner
      by (simp add: submit_run_def acc Some submit_post_none [where acc = "(sub, hf, hs)"] split: sum.split option.split)
  qed
qed

lemma submit_post_try:
  assumes "submit_post srm a acc x rx" "\<And>acc' y. submit_post srm b acc' y (f acc' y)"
  shows "submit_post srm (a @ b) acc x (try_then rx f)"
proof -
  obtain S where S: "ex_trace (snd rx) = ex_trace x @ S" "ex_run (snd rx) = ex_run x" "subseq (map ev_name S) a"
    "\<forall>e \<in> set S. \<not> is_wait e \<and> tbl_get srm (ev_name e) \<noteq> None"
    "\<forall>sub hf hs. fst rx = Inr (sub, hf, hs) \<longrightarrow>
       sub = fst acc @ submitted_jobs S \<and> hf = (fst (snd acc) \<or> failed_runs S \<noteq> []) \<and> hs = (snd (snd acc) \<or> stop_failure srm S)"
    using assms(1) unfolding submit_post_def by blast
  show ?thesis
  proof (cases "fst rx")
    case (Inl e)
    have sub: "subseq (map ev_name S) (a @ b)" using list_emb_append_mono [OF S(3), of "[]" b] by simp
    have eq: "try_then rx f = (Inl e, snd rx)" using Inl by (simp add: try_then_cases)
    show ?thesis unfolding submit_post_def eq using S sub by (intro exI [of _ S]) simp
  next
    case (Inr acc')
    obtain T where T: "ex_trace (snd (f acc' (snd rx))) = ex_trace (snd rx) @ T" "ex_run (snd (f acc' (snd rx))) = ex_run (snd rx)"
      "subseq (map ev_name T) b" "\<forall>e \<in> set T. \<not> is_wait e \<and> tbl_get srm (ev_name e) \<noteq> None"
      "\<forall>sub hf hs. fst (f acc' (snd rx)) = Inr (sub, hf, hs) \<longrightarrow>
       sub = fst acc' @ submitted_jobs T \<and> hf = (fst (snd acc') \<or> failed_runs T \<noteq> []) \<and> hs = (snd (snd acc') \<or> stop_failure srm T)"
      using assms(2) [of acc' "snd rx"] unfolding submit_post_def by blast
    have eq: "try_then rx f = f acc' (snd rx)" using Inr by (simp add: try_then_cases)
    show ?thesis unfolding submit_post_def eq using S T Inr
      by (intro exI [of _ "S @ T"]) (cases acc', auto intro: list_emb_append_mono)
  qed
qed

lemma submit_level_post: "submit_post srm (map snd pairs) acc x (submit_level E t srm build pairs acc x)"
proof (induction pairs arbitrary: acc x)
  case Nil
  show ?case by (simp add: submit_post_none)
next
  case (Cons p pairs)
  have "submit_post srm ([snd p] @ map snd pairs) acc x
      (try_then (submit_run E t srm build (fst p, snd p) acc x) (submit_level E t srm build pairs))"
    by (rule submit_post_try [OF submit_run_post Cons.IH])
  then show ?case by simp
qed

lemma wait_run_post:
  assumes "wait_run E t srm dl (n, j) (hf, hs) x = Some (r, x')" "tbl_get srm n = Some sr"
  obtains st where "ex_trace x' = ex_trace x @ [Waited n st]" "ex_run x' = ex_run x"
    "\<And>f s. r = Inr (f, s) \<Longrightarrow> f = (hf \<or> st = StepFailed) \<and> s = (hs \<or> st = StepFailed \<and> stop_run srm n)"
proof -
  obtain js w where w: "wait_for_job E j dl (ex_w x) = Some (js, w)"
    using assms by (auto simp: wait_run_def split: option.splits)
  define st where "st = step_state_of js"
  define x1 where "x1 = emit (Waited n st) (x\<lparr>ex_w := w\<rparr>)"
  have x1: "ex_trace x1 = ex_trace x @ [Waited n st]" "ex_run x1 = ex_run x" by (simp_all add: x1_def)
  have r: "(case failure_message E j st w of Inl e \<Rightarrow> (Inl e, x1)
      | Inr msg \<Rightarrow> try_then (record_outcome E t sr st msg x1) (\<lambda>_ x2.
          (Inr (hf \<or> st = StepFailed, hs \<or> (st = StepFailed \<and> sr_failure_strategy sr = Stop)), x2))) = (r, x')"
    using assms w by (simp add: wait_run_def Let_def st_def [symmetric] x1_def [symmetric] split: sum.splits)
  show ?thesis
  proof (cases "failure_message E j st w")
    case (Inl e)
    then show ?thesis using r x1 by (intro that [of st]) auto
  next
    case (Inr msg)
    have "silent (record_outcome E t sr st msg x1) x1" by simp
    then show ?thesis using r x1 Inr assms(2)
      by (intro that [of st]) (auto simp: silent_def try_then_cases stop_run_def split: sum.splits)
  qed
qed

lemma wait_level_post:
  assumes "wait_level E t srm dl pairs (hf, hs) x = Some (r, x')" "\<forall>p \<in> set pairs. tbl_get srm (fst p) \<noteq> None"
  shows "\<exists>W. ex_trace x' = ex_trace x @ W \<and> ex_run x' = ex_run x \<and> (\<forall>e \<in> set W. is_wait e)
    \<and> (\<forall>f s. r = Inr (f, s) \<longrightarrow>
         map ev_name W = map fst pairs \<and> f = (hf \<or> failed_runs W \<noteq> []) \<and> s = (hs \<or> stop_failure srm W))"
  using assms
proof (induction pairs arbitrary: hf hs x)
  case Nil
  then show ?case by (intro exI [of _ "[]"]) auto
next
  case (Cons p pairs)
  obtain n j where p: "p = (n, j)" by (cases p)
  obtain sr where sr: "tbl_get srm n = Some sr" using Cons.prems(2) p by auto
  obtain q x1 where one: "wait_run E t srm dl (n, j) (hf, hs) x = Some (q, x1)"
    using Cons.prems(1) p by (cases "wait_run E t srm dl (n, j) (hf, hs) x") auto
  obtain st where st: "ex_trace x1 = ex_trace x @ [Waited n st]" "ex_run x1 = ex_run x"
    "\<And>f s. q = Inr (f, s) \<Longrightarrow> f = (hf \<or> st = StepFailed) \<and> s = (hs \<or> st = StepFailed \<and> stop_run srm n)"
    using wait_run_post [OF one sr] by metis
  have ev: "failed_runs [Waited n st] \<noteq> [] \<longleftrightarrow> st = StepFailed" "stop_failure srm [Waited n st] \<longleftrightarrow> st = StepFailed \<and> stop_run srm n"
    by (cases st; simp add: trace_single)+
  show ?case
  proof (cases q)
    case (Inl e)
    then show ?thesis using Cons.prems(1) p one st by (intro exI [of _ "[Waited n st]"]) auto
  next
    case (Inr fs)
    obtain f s where fs: "fs = (f, s)" by (cases fs)
    have "wait_level E t srm dl pairs (f, s) x1 = Some (r, x')" using Cons.prems(1) p one Inr fs by simp
    from Cons.IH [OF this] Cons.prems(2) obtain W where W: "ex_trace x' = ex_trace x1 @ W" "ex_run x' = ex_run x1"
      "\<forall>e \<in> set W. is_wait e" "\<forall>f' s'. r = Inr (f', s') \<longrightarrow>
         map ev_name W = map fst pairs \<and> f' = (f \<or> failed_runs W \<noteq> []) \<and> s' = (s \<or> stop_failure srm W)" by auto
    have "failed_runs (Waited n st # W) \<noteq> [] \<longleftrightarrow> st = StepFailed \<or> failed_runs W \<noteq> []"
      "stop_failure srm (Waited n st # W) \<longleftrightarrow> (st = StepFailed \<and> stop_run srm n) \<or> stop_failure srm W"
      using ev trace_append(2) [of "[Waited n st]" W] trace_append(3) [of srm "[Waited n st]" W] by auto
    then show ?thesis using W st(1,2) st(3) [of f s] Inr fs p
      by (intro exI [of _ "Waited n st # W"]) auto
  qed
qed

section \<open>Lemmas: the levels\<close>

text \<open>An event that may follow a trace: \<open>orig\<close> gives the definition of a run, \<open>deps\<close> the needs of a definition.\<close>

definition needed_by :: "(string \<Rightarrow> string option) \<Rightarrow> (string \<Rightarrow> string list) \<Rightarrow> string \<Rightarrow> string \<Rightarrow> bool" where
  "needed_by orig deps m n = (case (orig m, orig n) of (Some d, Some c) \<Rightarrow> d \<in> set (deps c) | _ \<Rightarrow> False)"

definition may_follow :: "(string \<Rightarrow> string option) \<Rightarrow> (string \<Rightarrow> string list) \<Rightarrow> StepRun table \<Rightarrow> dag_event list \<Rightarrow> dag_event \<Rightarrow> bool" where
  "may_follow orig deps srm pre e = (case e of Submitted n j \<Rightarrow>
       (\<forall>(m, k) \<in> set (submitted_jobs pre). m \<noteq> n \<and> \<not> needed_by orig deps n m
          \<and> (needed_by orig deps m n \<longrightarrow> m \<in> ev_name ` {w \<in> set pre. is_wait w}))
       \<and> \<not> stop_failure srm (filter is_wait pre)
     | _ \<Rightarrow> True)"

fun good_trace :: "(string \<Rightarrow> string option) \<Rightarrow> (string \<Rightarrow> string list) \<Rightarrow> StepRun table \<Rightarrow> dag_event list \<Rightarrow> dag_event list \<Rightarrow> bool" where
  "good_trace orig deps srm pre [] = True"
| "good_trace orig deps srm pre (e # tr) = (may_follow orig deps srm pre e \<and> good_trace orig deps srm (pre @ [e]) tr)"

lemma good_trace_append:
  "good_trace orig deps srm pre (a @ b) \<longleftrightarrow> good_trace orig deps srm pre a \<and> good_trace orig deps srm (pre @ a) b"
  by (induction a arbitrary: pre) auto

lemma good_trace_waits: "\<forall>e \<in> set W. is_wait e \<Longrightarrow> good_trace orig deps srm pre W"
proof (induction W arbitrary: pre)
  case (Cons e W)
  then show ?case by (cases e) (auto simp: may_follow_def)
qed simp

fun layered :: "(string \<Rightarrow> string list) \<Rightarrow> string set \<Rightarrow> string list list \<Rightarrow> bool" where
  "layered deps D [] = True"
| "layered deps D (L # Ls) = ((\<forall>n \<in> set L. set (deps n) \<subseteq> D) \<and> set L \<inter> D = {} \<and> distinct L \<and> layered deps (D \<union> set L) Ls)"

lemma layered_levels_spec: "set rem \<inter> D = {} \<Longrightarrow> distinct rem \<Longrightarrow> layered deps D (levels_spec deps n D rem)"
proof (induction n arbitrary: D rem)
  case (Suc n)
  define L where "L = filter (\<lambda>x. set (deps x) \<subseteq> D) rem"
  have "layered deps (D \<union> set L) (levels_spec deps n (D \<union> set L) (filter (\<lambda>x. x \<notin> set L) rem))"
    by (rule Suc.IH) (use Suc.prems in auto)
  then show ?case using Suc.prems by (auto simp: L_def [symmetric] Let_def) (auto simp: L_def)
qed simp

lemma layered_topological: "layered (dependencies_of g) {} (topological_levels g)"
  by (simp add: topological_levels_spec layered_levels_spec)

definition dag_inv :: "(string \<Rightarrow> string option) \<Rightarrow> (string \<Rightarrow> string list) \<Rightarrow> StepRun table \<Rightarrow> string set \<Rightarrow> dag_event list \<Rightarrow> bool" where
  "dag_inv orig deps srm D tr \<longleftrightarrow> good_trace orig deps srm [] tr
     \<and> (\<forall>(n, j) \<in> set (submitted_jobs tr). (\<exists>c \<in> D. orig n = Some c \<and> set (deps c) \<subseteq> D) \<and> n \<in> ev_name ` {w \<in> set tr. is_wait w})"

lemma dag_inv_mono: "dag_inv orig deps srm D tr \<Longrightarrow> dag_inv orig deps srm (D \<union> L) tr"
  unfolding dag_inv_def by fast

lemma stop_failure_filter: "stop_failure srm (filter P tr) \<Longrightarrow> stop_failure srm tr"
  by (auto simp: stop_failure_def failed_runs_def list_ex_iff)

lemma may_follow_submission:
  assumes inv: "dag_inv orig deps srm D tr" and stop: "\<not> stop_failure srm tr"
    and L: "\<forall>n \<in> L. set (deps n) \<subseteq> D" "L \<inter> D = {}"
    and S1: "\<forall>e \<in> set S1. \<not> is_wait e \<and> (\<exists>c \<in> L. orig (ev_name e) = Some c)"
    and e: "\<exists>c \<in> L. orig n = Some c" "n \<notin> ev_name ` set S1"
  shows "may_follow orig deps srm (tr @ S1) (Submitted n j)"
proof -
  obtain c where c: "c \<in> L" "orig n = Some c" using e(1) by blast
  have none: "filter is_wait S1 = []" using S1 by (simp add: filter_empty_conv)
  have "\<not> stop_failure srm (filter is_wait tr)" using stop stop_failure_filter by blast
  moreover have "m \<noteq> n \<and> \<not> needed_by orig deps n m \<and> (needed_by orig deps m n \<longrightarrow> m \<in> ev_name ` {w \<in> set (tr @ S1). is_wait w})"
    if mk: "(m, k) \<in> set (submitted_jobs (tr @ S1))" for m k
  proof (cases "(m, k) \<in> set (submitted_jobs tr)")
    case True
    then obtain b where b: "b \<in> D" "orig m = Some b" "set (deps b) \<subseteq> D" "m \<in> ev_name ` {w \<in> set tr. is_wait w}"
      using inv by (auto simp: dag_inv_def)
    have "c \<notin> D" using c(1) L(2) by blast
    then show ?thesis using b c by (auto simp: needed_by_def)
  next
    case False
    then have sub: "Submitted m k \<in> set S1" using mk by (simp add: submitted_jobs_set)
    then obtain b where b: "b \<in> L" "orig m = Some b" using S1 by force
    have "m \<noteq> n" using sub e(2) by force
    moreover have "c \<notin> set (deps b)" "b \<notin> set (deps c)" using b(1) c(1) L by blast+
    ultimately show ?thesis using b c by (simp add: needed_by_def)
  qed
  ultimately show ?thesis using none by (simp add: may_follow_def) blast
qed

lemma good_trace_submissions:
  assumes inv: "dag_inv orig deps srm D tr" and stop: "\<not> stop_failure srm tr"
    and L: "\<forall>n \<in> L. set (deps n) \<subseteq> D" "L \<inter> D = {}"
  shows "\<forall>e \<in> set (S1 @ S). \<not> is_wait e \<and> (\<exists>c \<in> L. orig (ev_name e) = Some c) \<Longrightarrow> distinct (map ev_name (S1 @ S))
    \<Longrightarrow> good_trace orig deps srm (tr @ S1) S"
proof (induction S arbitrary: S1)
  case (Cons e S)
  have "may_follow orig deps srm (tr @ S1) e"
  proof (cases e)
    case (Submitted n j)
    have "may_follow orig deps srm (tr @ S1) (Submitted n j)"
      by (rule may_follow_submission [OF inv stop L]) (use Cons.prems Submitted in auto)
    then show ?thesis using Submitted by simp
  qed (simp_all add: may_follow_def)
  moreover have "good_trace orig deps srm (tr @ (S1 @ [e])) S"
    by (rule Cons.IH) (use Cons.prems in auto)
  ultimately show ?case by simp
qed simp

lemma dag_inv_level:
  assumes inv: "dag_inv orig deps srm D tr" and stop: "\<not> stop_failure srm tr"
    and L: "\<forall>n \<in> L. set (deps n) \<subseteq> D" "L \<inter> D = {}"
    and S: "\<forall>e \<in> set S. \<not> is_wait e \<and> (\<exists>c \<in> L. orig (ev_name e) = Some c)" "distinct (map ev_name S)"
    and W: "\<forall>e \<in> set W. is_wait e"
  shows "good_trace orig deps srm [] (tr @ S @ W)"
    and "map ev_name W = map fst (submitted_jobs S) \<Longrightarrow> dag_inv orig deps srm (D \<union> L) (tr @ S @ W)"
proof -
  have "good_trace orig deps srm tr S"
    using good_trace_submissions [OF inv stop L, of "[]" S] S by simp
  then show good: "good_trace orig deps srm [] (tr @ S @ W)"
    using inv W by (simp add: good_trace_append good_trace_waits dag_inv_def)
  assume names: "map ev_name W = map fst (submitted_jobs S)"
  have old: "(\<exists>c \<in> D \<union> L. orig n = Some c \<and> set (deps c) \<subseteq> D \<union> L) \<and> n \<in> ev_name ` {w \<in> set (tr @ S @ W). is_wait w}"
    if "(n, j) \<in> set (submitted_jobs tr)" for n j
  proof -
    have "(\<exists>c \<in> D. orig n = Some c \<and> set (deps c) \<subseteq> D) \<and> n \<in> ev_name ` {w \<in> set tr. is_wait w}"
      using inv that by (auto simp: dag_inv_def)
    then show ?thesis by auto
  qed
  have new: "(\<exists>c \<in> D \<union> L. orig n = Some c \<and> set (deps c) \<subseteq> D \<union> L) \<and> n \<in> ev_name ` {w \<in> set (tr @ S @ W). is_wait w}"
    if nj: "(n, j) \<in> set (submitted_jobs S)" for n j
  proof
    have "Submitted n j \<in> set S" using nj by (simp add: submitted_jobs_set)
    then show "\<exists>c \<in> D \<union> L. orig n = Some c \<and> set (deps c) \<subseteq> D \<union> L" using S(1) L(1) by force
    have "n \<in> set (map ev_name W)" using nj unfolding names by force
    then show "n \<in> ev_name ` {w \<in> set (tr @ S @ W). is_wait w}" using W by auto
  qed
  have "submitted_jobs W = []" using W by (auto simp: submitted_jobs_def elim!: is_wait.elims)
  then show "dag_inv orig deps srm (D \<union> L) (tr @ S @ W)"
    unfolding dag_inv_def using good old new by auto
qed

lemma subseq_distinct: "subseq xs ys \<Longrightarrow> distinct ys \<Longrightarrow> distinct xs"
  by (auto simp: subseq_conv_nths)

lemma subseq_set: "subseq xs ys \<Longrightarrow> set xs \<subseteq> set ys"
  by (auto simp: subseq_conv_nths dest: in_set_nthsD)

definition runs_ok :: "(string \<Rightarrow> string option) \<Rightarrow> string list table \<Rightarrow> bool" where
  "runs_ok orig otr \<longleftrightarrow> (\<forall>c. distinct (runs_of otr c) \<and> (\<forall>n \<in> set (runs_of otr c). orig n = Some c))"

lemma level_run_pairs_distinct:
  "runs_ok orig otr \<Longrightarrow> distinct L \<Longrightarrow> distinct (map snd (level_run_pairs otr L))"
proof (induction L)
  case (Cons c L)
  have "map snd (level_run_pairs otr (c # L)) = runs_of otr c @ map snd (level_run_pairs otr L)"
    by (simp add: level_run_pairs_def comp_def)
  moreover have "\<exists>d \<in> set L. orig n = Some d" if "n \<in> set (map snd (level_run_pairs otr L))" for n
    using that Cons.prems(1) by (auto simp: level_run_pairs_def runs_ok_def)
  ultimately show ?case using Cons by (force simp: runs_ok_def)
qed (simp add: level_run_pairs_def)

lemma level_run_pairs_orig:
  "runs_ok orig otr \<Longrightarrow> n \<in> set (map snd (level_run_pairs otr L)) \<Longrightarrow> \<exists>c \<in> set L. orig n = Some c"
  by (auto simp: level_run_pairs_def runs_ok_def)

definition levels_post :: "(string \<Rightarrow> string option) \<Rightarrow> (string \<Rightarrow> string list) \<Rightarrow> StepRun table \<Rightarrow> PipelineRun \<Rightarrow> (bool \<times> bool) result \<Rightarrow> 'w Exec \<Rightarrow> bool" where
  "levels_post orig deps srm run r x \<longleftrightarrow> good_trace orig deps srm [] (ex_trace x) \<and> ex_run x = run
     \<and> (\<forall>f s. r = Inr (f, s) \<longrightarrow> f = (failed_runs (ex_trace x) \<noteq> []) \<and> s = stop_failure srm (ex_trace x))"

lemma submit_level_trace:
  assumes ok: "runs_ok orig otr" and dist: "distinct L"
    and sl: "submit_level E t srm build (level_run_pairs otr L) ([], False, False) x = (q, x1)"
  obtains S where "ex_trace x1 = ex_trace x @ S" "ex_run x1 = ex_run x" "distinct (map ev_name S)"
    "\<forall>e \<in> set S. \<not> is_wait e \<and> (\<exists>c \<in> set L. orig (ev_name e) = Some c)" "\<forall>p \<in> set (submitted_jobs S). tbl_get srm (fst p) \<noteq> None"
    "\<forall>sub f s. q = Inr (sub, f, s) \<longrightarrow> sub = submitted_jobs S \<and> f = (failed_runs S \<noteq> []) \<and> s = stop_failure srm S"
proof -
  have "submit_post srm (map snd (level_run_pairs otr L)) ([], False, False) x (q, x1)"
    unfolding sl [symmetric] by (rule submit_level_post)
  then obtain S where S: "ex_trace x1 = ex_trace x @ S" "ex_run x1 = ex_run x" "subseq (map ev_name S) (map snd (level_run_pairs otr L))"
    "\<forall>e \<in> set S. \<not> is_wait e \<and> tbl_get srm (ev_name e) \<noteq> None"
    "\<forall>sub f s. q = Inr (sub, f, s) \<longrightarrow>
       sub = [] @ submitted_jobs S \<and> f = (False \<or> failed_runs S \<noteq> []) \<and> s = (False \<or> stop_failure srm S)"
    unfolding submit_post_def fst_conv snd_conv by blast
  have "\<exists>c \<in> set L. orig (ev_name e) = Some c" if "e \<in> set S" for e
  proof -
    have "ev_name e \<in> set (map snd (level_run_pairs otr L))" using subseq_set [OF S(3)] that by auto
    then show ?thesis by (rule level_run_pairs_orig [OF ok])
  qed
  moreover have "\<forall>p \<in> set (submitted_jobs S). tbl_get srm (fst p) \<noteq> None"
    using S(4) by (force simp: submitted_jobs_set)
  ultimately show thesis
    using S subseq_distinct [OF S(3) level_run_pairs_distinct [OF ok dist]] by (intro that [of S]) simp_all
qed

lemma submit_step:
  assumes ok: "runs_ok orig otr" and inv: "dag_inv orig deps srm D (ex_trace x)" and stop: "\<not> stop_failure srm (ex_trace x)"
    and L: "\<forall>n \<in> set L. set (deps n) \<subseteq> D" "set L \<inter> D = {}" "distinct L"
    and sl: "submit_level E t srm build (level_run_pairs otr L) ([], False, False) x = (q, x1)"
  shows "good_trace orig deps srm [] (ex_trace x1)" "ex_run x1 = ex_run x"
proof -
  from ok L(3) sl obtain S where S: "ex_trace x1 = ex_trace x @ S" "ex_run x1 = ex_run x" "distinct (map ev_name S)"
    "\<forall>e \<in> set S. \<not> is_wait e \<and> (\<exists>c \<in> set L. orig (ev_name e) = Some c)"
    by (rule submit_level_trace)
  show "good_trace orig deps srm [] (ex_trace x1)" "ex_run x1 = ex_run x"
    using dag_inv_level(1) [OF inv stop L(1,2) S(4,3), of "[]"] S(1,2) by simp_all
qed

lemma wait_step:
  assumes ok: "runs_ok orig otr" and inv: "dag_inv orig deps srm D (ex_trace x)" and stop: "\<not> stop_failure srm (ex_trace x)"
    and L: "\<forall>n \<in> set L. set (deps n) \<subseteq> D" "set L \<inter> D = {}" "distinct L"
    and sl: "submit_level E t srm build (level_run_pairs otr L) ([], False, False) x = (q, x1)"
    and q: "q = Inr (subs, f, s)" and wl: "wait_level E t srm dl subs (False, False) x1 = Some (v, x2)"
  shows "good_trace orig deps srm [] (ex_trace x2)" "ex_run x2 = ex_run x"
    "v = Inr (wfl, wst) \<Longrightarrow> dag_inv orig deps srm (D \<union> set L) (ex_trace x2)"
    "v = Inr (wfl, wst) \<Longrightarrow> failed_runs (ex_trace x2) \<noteq> [] \<longleftrightarrow> failed_runs (ex_trace x) \<noteq> [] \<or> f \<or> wfl"
    "v = Inr (wfl, wst) \<Longrightarrow> stop_failure srm (ex_trace x2) \<longleftrightarrow> stop_failure srm (ex_trace x) \<or> s \<or> wst"
proof -
  from ok L(3) sl obtain S where S: "ex_trace x1 = ex_trace x @ S" "ex_run x1 = ex_run x" "distinct (map ev_name S)"
    "\<forall>e \<in> set S. \<not> is_wait e \<and> (\<exists>c \<in> set L. orig (ev_name e) = Some c)" "\<forall>p \<in> set (submitted_jobs S). tbl_get srm (fst p) \<noteq> None"
    and acc: "\<forall>sub f s. q = Inr (sub, f, s) \<longrightarrow> sub = submitted_jobs S \<and> f = (failed_runs S \<noteq> []) \<and> s = stop_failure srm S"
    by (rule submit_level_trace)
  have subs: "subs = submitted_jobs S" "f = (failed_runs S \<noteq> [])" "s = stop_failure srm S" using acc q by simp_all
  obtain W where W: "ex_trace x2 = ex_trace x1 @ W" "ex_run x2 = ex_run x1" "\<forall>e \<in> set W. is_wait e"
    "\<forall>f s. v = Inr (f, s) \<longrightarrow> map ev_name W = map fst subs \<and> f = (failed_runs W \<noteq> []) \<and> s = stop_failure srm W"
    using wait_level_post [OF wl] S(5) subs(1) by auto
  have tr: "ex_trace x2 = ex_trace x @ S @ W" using W(1) S(1) by simp
  note level = dag_inv_level [OF inv stop L(1,2) S(4,3) W(3)]
  show "good_trace orig deps srm [] (ex_trace x2)" "ex_run x2 = ex_run x" using level(1) W(2) S(2) by (simp_all add: tr)
  assume v: "v = Inr (wfl, wst)"
  show "dag_inv orig deps srm (D \<union> set L) (ex_trace x2)" using level(2) W(4) v subs(1) by (simp add: tr)
  show "failed_runs (ex_trace x2) \<noteq> [] \<longleftrightarrow> failed_runs (ex_trace x) \<noteq> [] \<or> f \<or> wfl"
    "stop_failure srm (ex_trace x2) \<longleftrightarrow> stop_failure srm (ex_trace x) \<or> s \<or> wst"
    using W(4) v subs by (simp_all add: tr)
qed

lemma levels_trace:
  assumes "runs_ok orig otr"
  shows "execute_dag_levels E t levels otr srm dl build (hf, hs) x = Some (r, x') \<Longrightarrow> layered deps D levels
    \<Longrightarrow> dag_inv orig deps srm D (ex_trace x) \<Longrightarrow> hf = (failed_runs (ex_trace x) \<noteq> []) \<Longrightarrow> hs = stop_failure srm (ex_trace x)
    \<Longrightarrow> levels_post orig deps srm (ex_run x) r x'"
proof (induction levels arbitrary: hf hs x D)
  case Nil
  then show ?case by (auto simp: levels_post_def dag_inv_def)
next
  case (Cons L Ls)
  note inv = Cons.prems(3)
  have lay: "\<forall>n \<in> set L. set (deps n) \<subseteq> D" "set L \<inter> D = {}" "distinct L" "layered deps (D \<union> set L) Ls"
    using Cons.prems(2) by auto
  show ?case
  proof (cases hs)
    case True
    obtain q x1 where c: "cancel_level_runs E t L otr srm x = (q, x1)" by (cases "cancel_level_runs E t L otr srm x")
    have x1: "ex_trace x1 = ex_trace x" "ex_run x1 = ex_run x" using silent_cancel [of E t L otr srm x] by (simp_all add: c silent_def)
    show ?thesis
    proof (cases q)
      case (Inl e)
      then show ?thesis using Cons.prems(1) True c x1 inv by (auto simp: levels_post_def dag_inv_def)
    next
      case (Inr u)
      have run: "execute_dag_levels E t Ls otr srm dl build (hf, hs) x1 = Some (r, x')" using Cons.prems(1) True c Inr by simp
      show ?thesis using Cons.IH [OF run lay(4)] dag_inv_mono [OF inv] Cons.prems(4,5) by (simp add: x1)
    qed
  next
    case False
    then have stop: "\<not> stop_failure srm (ex_trace x)" using Cons.prems(5) by simp
    obtain q x1 where sl: "submit_level E t srm build (level_run_pairs otr L) ([], False, False) x = (q, x1)"
      by (cases "submit_level E t srm build (level_run_pairs otr L) ([], False, False) x")
    note sub = submit_step [OF assms inv stop lay(1-3) sl]
    show ?thesis
    proof (cases q)
      case (Inl e)
      then show ?thesis using Cons.prems(1) False sl sub(1,2) by (auto simp: levels_post_def)
    next
      case (Inr acc)
      obtain subs f s where q: "q = Inr (subs, f, s)" using Inr by (cases acc) auto
      obtain v x2 where wl: "wait_level E t srm dl subs (False, False) x1 = Some (v, x2)"
        using Cons.prems(1) False sl q by (cases "wait_level E t srm dl subs (False, False) x1") auto
      note wait = wait_step [OF assms inv stop lay(1-3) sl q wl]
      show ?thesis
      proof (cases v)
        case (Inl e)
        then show ?thesis using Cons.prems(1) False sl q wl wait(1,2) by (auto simp: levels_post_def)
      next
        case (Inr fs)
        obtain wfl wst where v: "v = Inr (wfl, wst)" using Inr by (cases fs) auto
        have run: "execute_dag_levels E t Ls otr srm dl build (hf \<or> f \<or> wfl, hs \<or> s \<or> wst) x2 = Some (r, x')"
          using Cons.prems(1) False sl q wl v by simp
        show ?thesis
          using Cons.IH [OF run lay(4) wait(3) [OF v]] wait(4,5) [OF v] Cons.prems(4,5) wait(2) by simp
      qed
    qed
  qed
qed

section \<open>Lemmas: the whole run\<close>

lemma build_run_maps_runs:
  "runs_of (snd (build_run_maps srs ns)) c =
     map sr_step_name (filter (\<lambda>s. find_original_name (sr_step_name s) ns = Some c) srs)"
  by (induction srs rule: rev_induct) (auto simp: build_run_maps_def runs_of_def split: option.splits)

lemma build_run_maps_ok:
  "distinct (map sr_step_name srs) \<Longrightarrow> runs_ok (\<lambda>n. find_original_name n ns) (snd (build_run_maps srs ns))"
  by (auto simp: runs_ok_def build_run_maps_runs distinct_map intro: inj_on_subset)

text \<open>The items of a pipeline (jobs, or the steps of the older format) and what each needs.\<close>

definition dag_names :: "PipelineDef \<Rightarrow> string list" where
  "dag_names def = (if pd_jobs def \<noteq> [] then tbl_keys (pd_jobs def) else map sd_name (pd_steps def))"

definition dag_needs :: "PipelineDef \<Rightarrow> string \<Rightarrow> string list" where
  "dag_needs def n =
     (if pd_jobs def \<noteq> [] then (case tbl_get (pd_jobs def) n of None \<Rightarrow> [] | Some d \<Rightarrow> jd_needs d)
      else (case tbl_get (tbl_collect (map (\<lambda>s. (sd_name s, s)) (pd_steps def))) n of None \<Rightarrow> [] | Some d \<Rightarrow> sd_needs d))"

definition run_table :: "PipelineDef \<Rightarrow> StepRun list \<Rightarrow> StepRun table" where
  "run_table def srs = fst (build_run_maps srs (dag_names def))"

lemma dependencies_of_from_steps: "dependencies_of (from_steps xs) n = (case map_of (rev xs) n of None \<Rightarrow> [] | Some d \<Rightarrow> d)"
proof -
  have "tbl_get (foldl (\<lambda>m (name, deps). tbl_insert name deps m) t xs) n = (case map_of (rev xs) n of None \<Rightarrow> tbl_get t n | Some d \<Rightarrow> Some d)" for t
    by (induction xs arbitrary: t) (auto simp: map_add_def update_conv' split: option.splits)
  from this [of "[]"] show ?thesis by (simp add: dependencies_of_def from_steps_def split: option.splits)
qed

lemma map_of_rev_ok: "tbl_ok t \<Longrightarrow> map_of (rev t) = map_of t"
  by (simp add: map_of_inject_set rev_map [symmetric])

lemma dag_needs_jobs:
  "tbl_ok (pd_jobs def) \<Longrightarrow> pd_jobs def \<noteq> [] \<Longrightarrow>
     dependencies_of (from_steps (map (\<lambda>(n, d). (n, jd_needs d)) (pd_jobs def))) = dag_needs def"
proof
  fix n
  assume ok: "tbl_ok (pd_jobs def)" and ne: "pd_jobs def \<noteq> []"
  let ?xs = "map (\<lambda>(n, d). (n, jd_needs d)) (pd_jobs def)"
  have "tbl_ok ?xs" using ok by (simp add: case_prod_unfold comp_def)
  then have "map_of (rev ?xs) n = map_of ?xs n" by (simp only: map_of_rev_ok)
  then show "dependencies_of (from_steps ?xs) n = dag_needs def n"
    using ne by (simp add: dependencies_of_from_steps dag_needs_def map_of_map split: option.split)
qed

lemma dag_needs_steps:
  "pd_jobs def = [] \<Longrightarrow> dependencies_of (from_steps (map (\<lambda>s. (sd_name s, sd_needs s)) (pd_steps def))) = dag_needs def"
proof
  fix n
  have eq: "map_of (rev (map (\<lambda>s. (sd_name s, sd_needs s)) xs)) n = map_option sd_needs (map_of (rev (map (\<lambda>s. (sd_name s, s)) xs)) n)" for xs
    by (induction xs) (auto simp: map_add_def split: option.splits)
  assume "pd_jobs def = []"
  then show "dependencies_of (from_steps (map (\<lambda>s. (sd_name s, sd_needs s)) (pd_steps def))) n = dag_needs def n"
    by (simp only: dependencies_of_from_steps dag_needs_def map_of_tbl_collect eq) (simp split: option.split)
qed

definition run_post :: "PipelineDef \<Rightarrow> StepRun list \<Rightarrow> PipelineRunState result \<Rightarrow> 'w Exec \<Rightarrow> bool" where
  "run_post def srs r x \<longleftrightarrow>
     good_trace (\<lambda>n. find_original_name n (dag_names def)) (dag_needs def) (run_table def srs) [] (ex_trace x)
     \<and> (\<forall>st. r = Inr st \<longrightarrow> run_state (ex_run x) = st
          \<and> st = compute_final_state (failed_runs (ex_trace x) \<noteq> []) (stop_failure (run_table def srs) (ex_trace x)))"

lemma run_levels_post:
  assumes "run_levels E deps srs (dag_names def) build x = Some (r, x')" "dependencies_of (from_steps deps) = dag_needs def"
    and "ex_trace x = []" "distinct (map sr_step_name srs)"
  shows "run_post def srs r x'"
proof -
  define otr where "otr = snd (build_run_maps srs (dag_names def))"
  have maps: "build_run_maps srs (dag_names def) = (run_table def srs, otr)"
    by (simp add: run_table_def otr_def)
  have post: "levels_post (\<lambda>n. find_original_name n (dag_names def)) (dag_needs def) (run_table def srs) (ex_run x) q x1"
    if lv: "execute_dag_levels E (run_tenant_id (ex_run x)) (topological_levels (from_steps deps)) otr (run_table def srs)
      (de_now E (ex_w x) + int MAX_PIPELINE_DURATION) build (False, False) x = Some (q, x1)" for q x1
  proof (rule levels_trace [OF _ lv])
    show "runs_ok (\<lambda>n. find_original_name n (dag_names def)) otr" unfolding otr_def by (rule build_run_maps_ok [OF assms(4)])
    show "layered (dag_needs def) {} (topological_levels (from_steps deps))"
      using layered_topological [of "from_steps deps"] assms(2) by simp
  qed (simp_all add: assms(3) dag_inv_def)
  from assms(1) have "try_wait (execute_dag_levels E (run_tenant_id (ex_run x)) (topological_levels (from_steps deps)) otr (run_table def srs)
      (de_now E (ex_w x) + int MAX_PIPELINE_DURATION) build (False, False) x) (\<lambda>flags x'. Some (finalize_run E flags x')) = Some (r, x')"
    by (simp add: run_levels_def maps)
  then show ?thesis
  proof (cases rule: try_waitE)
    case (error e)
    then show ?thesis using post [OF error(1)] by (auto simp: run_post_def levels_post_def)
  next
    case (ok fs x1)
    have "ex_trace x' = ex_trace x1" "\<And>st. r = Inr st \<Longrightarrow> st = compute_final_state (fst fs) (snd fs) \<and> run_state (ex_run x') = st"
      using ok(2) by (auto simp: finalize_run_def Let_def try_then_def call_def split: prod.splits sum.splits)
    then show ?thesis using post [OF ok(1)] by (cases fs) (auto simp: run_post_def levels_post_def)
  qed
qed

text \<open>Before the first level nothing is submitted: the calls that prepare the run leave the trace empty.\<close>

lemma try_prepare:
  assumes "try_wait (Some rx) f = Some (r, x')" "ex_trace (snd rx) = []"
    and "\<And>a y. ex_trace y = [] \<Longrightarrow> f a y = Some (r, x') \<Longrightarrow> run_post def srs r x'"
  shows "run_post def srs r x'"
  using assms(1)
proof (cases rule: try_waitE)
  case (error e)
  then show ?thesis using assms(2) by (simp add: run_post_def)
next
  case (ok a y)
  then show ?thesis using assms(2) assms(3) [of y a] by simp
qed

lemma prepare_traces:
  "ex_trace (snd (mark_run_started E x)) = ex_trace x" "ex_trace (snd (evaluate_conditions E t srs ns ctx cf x)) = ex_trace x"
  "ex_trace (snd (evaluate_job_paths E t run srs ns pf x)) = ex_trace x"
  using silent_conditions [of E t srs ns ctx cf x] silent_paths [of E t run srs ns pf x]
  by (auto simp: silent_def mark_run_started_def Let_def call_def split: prod.splits)

lemma execute_post:
  assumes run: "execute E def srs curl ru rt x = Some (r, x')"
    and start: "ex_trace x = []" "distinct (map sr_step_name srs)" "tbl_ok (pd_jobs def)"
  shows "run_post def srs r x'"
proof (cases "pd_jobs def \<noteq> []")
  case True
  have names: "tbl_keys (pd_jobs def) = dag_names def" using True by (simp add: dag_names_def)
  have "execute_jobs E def srs curl ru rt x = Some (r, x')" using run True by (simp add: execute_def)
  then show ?thesis unfolding execute_jobs_def Let_def names
    by (elim try_prepare; (simp add: prepare_traces start)?) (erule run_levels_post [OF _ dag_needs_jobs [OF start(3) True] _ start(2)])
next
  case False
  have names: "map sd_name (pd_steps def) = dag_names def" using False by (simp add: dag_names_def)
  have "execute_steps E def srs curl ru rt x = Some (r, x')" using run False by (simp add: execute_def)
  then show ?thesis unfolding execute_steps_def Let_def names
    by (elim try_prepare; (simp add: prepare_traces start)?) (erule run_levels_post [OF _ dag_needs_steps _ start(2)], use False in auto)
qed

lemma good_trace_split: "good_trace orig deps srm pre (a @ e # b) \<Longrightarrow> may_follow orig deps srm (pre @ a) e"
  by (simp add: good_trace_append)

lemma good_trace_submitted:
  assumes good: "good_trace orig deps srm [] (pre @ Submitted n j # post)"
  shows "Submitted m k \<in> set pre \<Longrightarrow> m \<noteq> n \<and> (needed_by orig deps m n \<longrightarrow> (\<exists>s. Waited m s \<in> set pre))"
    "Submitted m k \<in> set post \<Longrightarrow> m \<noteq> n \<and> \<not> needed_by orig deps m n"
    "Waited m StepFailed \<in> set pre \<Longrightarrow> \<not> stop_run srm m"
proof -
  have here: "may_follow orig deps srm pre (Submitted n j)" using good_trace_split [OF good] by simp
  show "m \<noteq> n \<and> (needed_by orig deps m n \<longrightarrow> (\<exists>s. Waited m s \<in> set pre))" if "Submitted m k \<in> set pre"
  proof -
    have "(m, k) \<in> set (submitted_jobs pre)" using that by (simp add: submitted_jobs_set)
    then have mn: "m \<noteq> n" "needed_by orig deps m n \<longrightarrow> m \<in> ev_name ` {w \<in> set pre. is_wait w}"
      using here by (auto simp: may_follow_def)
    have "\<exists>s. Waited m s \<in> set pre" if "m \<in> ev_name ` {w \<in> set pre. is_wait w}" using that by (auto elim!: is_wait.elims)
    then show ?thesis using mn by blast
  qed
  show "m \<noteq> n \<and> \<not> needed_by orig deps m n" if later: "Submitted m k \<in> set post"
  proof -
    obtain a b where post: "post = a @ Submitted m k # b" using split_list [OF later] by blast
    have "may_follow orig deps srm (pre @ Submitted n j # a) (Submitted m k)"
      using good_trace_split [of orig deps srm "[]" "pre @ Submitted n j # a"] good post by simp
    moreover have "(n, j) \<in> set (submitted_jobs (pre @ Submitted n j # a))" by (simp add: submitted_jobs_set del: trace_append)
    ultimately show ?thesis by (auto simp: may_follow_def simp del: trace_append)
  qed
  show "\<not> stop_run srm m" if "Waited m StepFailed \<in> set pre"
  proof
    assume "stop_run srm m"
    moreover have "m \<in> set (failed_runs (filter is_wait pre))" using that by (force simp: failed_runs_def)
    ultimately show False using here by (auto simp: may_follow_def stop_failure_def list_ex_iff)
  qed
qed

section \<open>Lemmas: termination\<close>

text \<open>\<open>tokio::time::sleep\<close> returns no earlier than the interval; a poll interval is two seconds.\<close>

definition POLL_INTERVAL :: duration where
  "POLL_INTERVAL = 2 * 1000000000"

definition clock_runs :: "'w DagEnv \<Rightarrow> bool" where
  "clock_runs E \<longleftrightarrow> (\<forall>w. de_now E w + int POLL_INTERVAL \<le> de_now E (de_sleep E w))"

definition wait_post :: "'w DagEnv \<Rightarrow> string \<Rightarrow> datetime \<Rightarrow> JobState option \<Rightarrow> 'w \<Rightarrow> bool" where
  "wait_post E jid deadline js w = (case js of
       None \<Rightarrow> de_get_job E jid w = Inr None
     | Some st \<Rightarrow> is_terminal st \<and> (st = TimedOut \<and> deadline < de_now E w
         \<or> (\<exists>job. de_get_job E jid w = Inr (Some job) \<and> job_state job = st)))"

lemma wait_for_job_total:
  assumes "clock_runs E"
  shows "\<exists>js w'. wait_for_job E jid deadline w = Some (js, w') \<and> wait_post E jid deadline js w'"
proof (induction "nat (deadline + 1 - de_now E w)" arbitrary: w rule: less_induct)
  case less
  show ?case
  proof (cases "deadline < de_now E w")
    case True
    then show ?thesis by (simp add: wait_for_job.simps [of E jid deadline w] wait_post_def)
  next
    case False
    have "de_now E w + 2000000000 \<le> de_now E (de_sleep E w)"
      using assms by (simp add: clock_runs_def POLL_INTERVAL_def)
    then have later: "\<exists>js w'. wait_for_job E jid deadline (de_sleep E w) = Some (js, w') \<and> wait_post E jid deadline js w'"
      using False by (intro less) auto
    show ?thesis using False later
      by (subst wait_for_job.simps) (auto simp: wait_post_def split: sum.split option.split)
  qed
qed

lemma try_wait_Some: "m \<noteq> None \<Longrightarrow> (\<And>a y. f a y \<noteq> None) \<Longrightarrow> try_wait m f \<noteq> None"
  by (auto simp: try_wait_def split: sum.split)

lemma wait_level_total: "clock_runs E \<Longrightarrow> wait_level E t srm dl pairs acc x \<noteq> None"
proof (induction pairs arbitrary: acc x)
  case (Cons p pairs)
  have "wait_run E t srm dl p acc x \<noteq> None"
    using wait_for_job_total [OF Cons.prems, of "snd p" dl "ex_w x"]
    by (cases p; cases acc) (auto simp: wait_run_def Let_def split: option.split sum.split)
  then show ?case unfolding wait_level.simps by (rule try_wait_Some) (rule Cons.IH [OF Cons.prems])
qed simp

lemma execute_dag_levels_total: "clock_runs E \<Longrightarrow> execute_dag_levels E t levels otr srm dl build acc x \<noteq> None"
proof (induction levels arbitrary: acc x)
  case (Cons L Ls)
  obtain hf hs where acc: "acc = (hf, hs)" by (cases acc)
  note rest = Cons.IH [OF Cons.prems] wait_level_total [OF Cons.prems] option.distinct(2)
  show ?case unfolding acc execute_dag_levels.simps case_prod_unfold
    by (cases hs; simp only: if_True if_False) (intro try_wait_Some rest)+
qed simp

lemma execute_total: "clock_runs E \<Longrightarrow> execute E def srs curl ru rt x \<noteq> None"
proof -
  assume clock: "clock_runs E"
  have rest: "run_levels E deps srs ns build y \<noteq> None" for deps ns build y
    unfolding run_levels_def case_prod_unfold by (rule try_wait_Some [OF execute_dag_levels_total [OF clock]]) simp
  have "execute_jobs E def srs curl ru rt x \<noteq> None" "execute_steps E def srs curl ru rt x \<noteq> None"
    unfolding execute_jobs_def execute_steps_def Let_def by (intro try_wait_Some rest option.distinct(2))+
  then show ?thesis by (simp add: execute_def)
qed

section \<open>Lemmas: the environment of a job\<close>

abbreviation env_get :: "EnvVar list \<Rightarrow> string \<Rightarrow> string option" where
  "env_get env \<equiv> map_of (map (\<lambda>e. (env_name e, env_value e)) env)"

lemma set_env_get: "distinct (map env_name env) \<Longrightarrow> distinct (map env_name (set_env env kv)) \<and> env_get (set_env env kv) = (env_get env)(fst kv \<mapsto> snd kv)"
proof
  assume d: "distinct (map env_name env)"
  show "distinct (map env_name (set_env env kv))"
    using d by (auto simp: set_env_def distinct_map intro: inj_on_subset)
  show "env_get (set_env env kv) = (env_get env)(fst kv \<mapsto> snd kv)"
  proof
    fix k
    show "env_get (set_env env kv) k = ((env_get env)(fst kv \<mapsto> snd kv)) k"
      by (induction env) (auto simp: set_env_def map_add_def split: option.splits)
  qed
qed

lemma foldl_set_env:
  "distinct (map env_name env) \<Longrightarrow> distinct (map env_name (foldl set_env env kvs)) \<and> env_get (foldl set_env env kvs) = env_get env ++ map_of (rev kvs)"
proof (induction kvs rule: rev_induct)
  case (snoc kv kvs)
  then show ?case using set_env_get [of "foldl set_env env kvs" kv] by (auto simp: fun_eq_iff map_add_def split: option.splits)
qed simp

lemma set_env_opt_get:
  "distinct (map env_name env) \<Longrightarrow> distinct (map env_name (set_env_opt env k v)) \<and>
     env_get (set_env_opt env k v) = env_get env ++ (case v of None \<Rightarrow> Map.empty | Some u \<Rightarrow> [k \<mapsto> u])"
  using set_env_get [of env "(k, the v)"] by (cases v) (auto simp: set_env_opt_def fun_eq_iff map_add_def)

definition env_sources :: "string table \<Rightarrow> string table \<Rightarrow> PipelineRun \<Rightarrow> string \<Rightarrow> string \<Rightarrow> string option \<Rightarrow> string option \<Rightarrow> string option \<Rightarrow> string \<Rightarrow> string option" where
  "env_sources pe ie run nk nv curl ru rt =
     map_of pe ++ map_of ie ++ map_of (run_env_vars run) ++ map_of (rev (builtins run nk nv))
     ++ (case curl of None \<Rightarrow> Map.empty | Some u \<Rightarrow> [''PIPELINE_CLONE_URL'' \<mapsto> u])
     ++ (case ru of None \<Rightarrow> Map.empty | Some u \<Rightarrow> [''MULI_REGISTRY_URL'' \<mapsto> u])
     ++ (case rt of None \<Rightarrow> Map.empty | Some u \<Rightarrow> [''MULI_REGISTRY_TOKEN'' \<mapsto> u])"

lemma build_env_vars_get:
  assumes ok: "tbl_ok pe" "tbl_ok ie" "tbl_ok (run_env_vars run)"
  shows "distinct (map env_name (build_env_vars pe ie run nk nv curl ru rt))
    \<and> (\<exists>T. tbl_get T = env_sources pe ie run nk nv curl ru rt
       \<and> env_get (build_env_vars pe ie run nk nv curl ru rt) =
           (\<lambda>k. map_option (\<lambda>v. interpolate v (run_env_vars run) T) (env_sources pe ie run nk nv curl ru rt k)))"
proof -
  define A0 where "A0 = map (\<lambda>(k, v). \<lparr>env_name = k, env_value = v\<rparr>) pe"
  define A1 where "A1 = foldl set_env (foldl set_env (foldl set_env A0 ie) (run_env_vars run)) (builtins run nk nv)"
  define A where "A = set_env_opt (set_env_opt (set_env_opt A1 ''PIPELINE_CLONE_URL'' curl) ''MULI_REGISTRY_URL'' ru) ''MULI_REGISTRY_TOKEN'' rt"
  have A0: "distinct (map env_name A0)" "env_get A0 = map_of pe"
    using ok(1) by (simp_all add: A0_def case_prod_unfold comp_def)
  have A1: "distinct (map env_name A1)"
    "env_get A1 = map_of pe ++ map_of ie ++ map_of (run_env_vars run) ++ map_of (rev (builtins run nk nv))"
    unfolding A1_def using A0 ok by (simp_all add: foldl_set_env map_of_rev_ok)
  have A: "distinct (map env_name A)" "env_get A = env_sources pe ie run nk nv curl ru rt"
    unfolding A_def env_sources_def using A1 by (simp_all add: set_env_opt_get)
  have B: "build_env_vars pe ie run nk nv curl ru rt = map (\<lambda>e. e\<lparr>env_value := interpolate (env_value e) (run_env_vars run) (env_table A)\<rparr>) A"
    by (simp add: build_env_vars_def Let_def A_def A1_def A0_def)
  have T: "tbl_get (env_table A) = env_get A"
    unfolding env_table_def map_of_tbl_collect by (rule map_of_rev_ok) (use A(1) in \<open>simp add: comp_def\<close>)
  have "env_get (map (\<lambda>e. e\<lparr>env_value := f (env_value e)\<rparr>) xs) k = map_option f (env_get xs k)" for f xs k
    by (induction xs) auto
  then have "env_get (build_env_vars pe ie run nk nv curl ru rt) =
      (\<lambda>k. map_option (\<lambda>v. interpolate v (run_env_vars run) (env_table A)) (env_sources pe ie run nk nv curl ru rt k))"
    unfolding B A(2) [symmetric] by (intro ext)
  moreover have "distinct (map env_name (build_env_vars pe ie run nk nv curl ru rt))" using A(1) by (simp add: B comp_def)
  ultimately show ?thesis using T A(2) by metis
qed

section \<open>A sample environment\<close>

type_synonym sample_world = "int \<times> StepRun table \<times> Job table"

definition sample_env :: "sample_world DagEnv" where
  "sample_env =
     \<lparr>de_get_step = (\<lambda>t i (c, st, js). Inr (tbl_get st i)),
      de_update_step = (\<lambda>s (c, st, js). (Inr (), (c, tbl_insert (sr_id s) s st, js))),
      de_update_step_state = (\<lambda>t i s (c, st, js). (Inr (), (c, map (\<lambda>(k, v). (k, if k = i then v\<lparr>sr_state := s\<rparr> else v)) st, js))),
      de_update_run = (\<lambda>r w. (Inr (), w)),
      de_submit = (\<lambda>job (c, st, js). (Inr (job_id job), (c, st, tbl_insert (job_id job)
         (job\<lparr>job_state := (if runner_image (job_spec job) = ''bad'' then Failed else Succeeded)\<rparr>) js))),
      de_get_job = (\<lambda>i (c, st, js). Inr (tbl_get js i)),
      de_sleep = (\<lambda>(c, st, js). (c + 2000000000, st, js)),
      de_now = (\<lambda>(c, st, js). c),
      de_uuid = (\<lambda>(c, st, js). ''job'' @ show_nat (length js))\<rparr>"

definition sample_jobdef :: "string \<Rightarrow> string list \<Rightarrow> JobDef" where
  "sample_jobdef img needs =
     \<lparr>jd_image = Some img, jd_needs = needs, jd_commands = [''make''], jd_steps = [], jd_env = [], jd_paths = [],
      jd_cache = None, jd_artifacts = None, jd_resources = None, jd_matrix = None, jd_condition = None,
      jd_failure_strategy = None, jd_timeout = None, jd_release = None, jd_registry = None\<rparr>"

definition sample_def :: PipelineDef where
  "sample_def =
     \<lparr>pd_name = ''ci'', pd_image = None, pd_checkout = \<lparr>CheckoutConfig.submodules = False\<rparr>,
      pd_on = \<lparr>trig_push = None, trig_pull_request = None, trig_manual = True, trig_schedule = []\<rparr>,
      pd_env = [], pd_services = [], pd_secrets = [],
      pd_jobs = [(''b'', sample_jobdef ''bad'' [''a'']), (''a'', sample_jobdef ''good'' [])], pd_steps = [], pd_webhook = []\<rparr>"

definition sample_run :: PipelineRun where
  "sample_run = PipelineRun_new ''r'' 0 ''p'' ''t'' ''repo'' 1 ''sha'' ''refs/heads/main'' (TManual ''me'') []"

definition sample_step_runs :: "StepRun list" where
  "sample_step_runs = [StepRun_new ''1'' 0 ''r'' ''t'' ''b'' Ignore None, StepRun_new ''2'' 0 ''r'' ''t'' ''a'' Stop None]"

definition sample_exec :: "sample_world Exec" where
  "sample_exec = \<lparr>ex_w = (0, map (\<lambda>s. (sr_id s, s)) sample_step_runs, []), ex_run = sample_run, ex_trace = []\<rparr>"

lemma build_job_from_jobdef_fields:
  "job_id (build_job_from_jobdef E run def n d curl ru rt sr w) = de_uuid E w"
  "runner_image (job_spec (build_job_from_jobdef E run def n d curl ru rt sr w)) =
     (case effective_image d (pd_image def) of Some i \<Rightarrow> i | None \<Rightarrow> ''alpine:latest'')"
  by (simp_all add: build_job_from_jobdef_def Job_new_def Let_def resolve_resources_def)

lemma sample_levels: "topological_levels (from_steps [(''b'', [''a'']), (''a'', [])]) = [[''a''], [''b'']]"
  by code_simp

lemma sample_maps: "build_run_maps sample_step_runs [''b'', ''a''] =
  ([(''b'', StepRun_new ''1'' 0 ''r'' ''t'' ''b'' Ignore None), (''a'', StepRun_new ''2'' 0 ''r'' ''t'' ''a'' Stop None)],
   [(''b'', [''b'']), (''a'', [''a''])])"
  by code_simp

lemma wait_for_job_done:
  "de_now E w \<le> deadline \<Longrightarrow> de_get_job E jid w = Inr (Some job) \<Longrightarrow> is_terminal (job_state job) \<Longrightarrow>
    wait_for_job E jid deadline w = Some (Some (job_state job), w)"
  by (subst wait_for_job.simps) simp


lemma sample_env_simps:
  "de_get_step sample_env t i (c, st, js) = Inr (tbl_get st i)"
  "de_update_step sample_env s (c, st, js) = (Inr (), (c, tbl_insert (sr_id s) s st, js))"
  "de_update_run sample_env r w = (Inr (), w)"
  "de_submit sample_env job (c, st, js) = (Inr (job_id job), (c, st, tbl_insert (job_id job)
         (job\<lparr>job_state := (if runner_image (job_spec job) = ''bad'' then Failed else Succeeded)\<rparr>) js))"
  "de_get_job sample_env i (c, st, js) = Inr (tbl_get js i)"
  "de_now sample_env (c, st, js) = c"
  "de_uuid sample_env (c, st, js) = ''job'' @ show_nat (length js)"
  by (simp_all add: sample_env_def)

lemma sample_runs:
  "\<exists>x'. execute sample_env sample_def sample_step_runs None None None sample_exec = Some (Inr RunDegraded, x')
    \<and> ex_trace x' = [Submitted ''a'' ''job0'', Waited ''a'' StepSucceeded, Submitted ''b'' ''job1'', Waited ''b'' StepFailed]"
proof -
  define build where "build = (\<lambda>run orig name w. case (tbl_get (pd_jobs sample_def) orig, tbl_get (fst (build_run_maps sample_step_runs [''b'', ''a''])) name) of
            (Some d, Some sr) \<Rightarrow> Some (build_job_from_jobdef sample_env run sample_def orig d None None None sr w)
          | _ \<Rightarrow> None)"
  have build: "build run ''a'' ''a'' w = Some (build_job_from_jobdef sample_env run sample_def ''a'' (sample_jobdef ''good'' []) None None None (StepRun_new ''2'' 0 ''r'' ''t'' ''a'' Stop None) w)"
   "build run ''b'' ''b'' w = Some (build_job_from_jobdef sample_env run sample_def ''b'' (sample_jobdef ''bad'' [''a'']) None None None (StepRun_new ''1'' 0 ''r'' ''t'' ''b'' Ignore None) w)" for run w
    by (simp_all add: build_def sample_maps sample_def_def)
  have cond: "evaluate_conditions sample_env t sample_step_runs [''b'', ''a''] ctx (\<lambda>n. Option.bind (tbl_get (pd_jobs sample_def) n) jd_condition) x = (Inr (), x)" for t ctx x
    by (simp add: sample_step_runs_def StepRun_new_def sample_def_def sample_jobdef_def)
  have paths: "evaluate_job_paths sample_env t r sample_step_runs [''b'', ''a''] pf x = (Inr (), x)" if "run_trigger r = TManual ''me''" for t r pf x
    using that by (simp add: evaluate_job_paths_def)
  have keys: "tbl_keys (pd_jobs sample_def) = [''b'', ''a'']" "pd_jobs sample_def \<noteq> []"
     "map (\<lambda>(n, d). (n, jd_needs d)) (pd_jobs sample_def) = [(''b'', [''a'']), (''a'', [])]"
    by (simp_all add: sample_def_def sample_jobdef_def)
  obtain x1 where x1: "mark_run_started sample_env sample_exec = (Inr (), x1)" "run_trigger (ex_run x1) = TManual ''me''"
    "ex_w x1 = (0, [(''1'', StepRun_new ''1'' 0 ''r'' ''t'' ''b'' Ignore None), (''2'', StepRun_new ''2'' 0 ''r'' ''t'' ''a'' Stop None)], [])" "ex_trace x1 = []"
    by (simp add: sample_step_runs_def StepRun_new_def mark_run_started_def sample_exec_def call_def sample_env_simps sample_run_def PipelineRun_new_def Let_def)
  have "execute sample_env sample_def sample_step_runs None None None sample_exec =
     run_levels sample_env [(''b'', [''a'']), (''a'', [])] sample_step_runs [''b'', ''a''] (build (ex_run x1)) x1"
    unfolding execute_def execute_jobs_def
    by (simp add: keys x1 Let_def cond paths build_def)
  moreover have digits: "show_nat 0 = ''0''" "show_nat (Suc 0) = ''1''" by code_simp+
  moreover have "\<exists>x'. run_levels sample_env [(''b'', [''a'']), (''a'', [])] sample_step_runs [''b'', ''a''] (build (ex_run x1)) x1 = Some (Inr RunDegraded, x')
    \<and> ex_trace x' = [Submitted ''a'' ''job0'', Waited ''a'' StepSucceeded, Submitted ''b'' ''job1'', Waited ''b'' StepFailed]"
    by (simp add: run_levels_def sample_maps sample_levels x1 sample_env_simps level_run_pairs_def digits runs_of_def submit_run_def
       StepRun_new_def build try_then_def mark_running_def call_def emit_def Let_def record_job_id_def build_job_from_jobdef_fields
       wait_run_def wait_for_job_done failure_message_def record_outcome_def finalize_run_def compute_final_state_def MAX_PIPELINE_DURATION_def
       effective_image_def sample_jobdef_def sample_def_def)
  ultimately show ?thesis by simp
qed

section \<open>Properties\<close>





text \<open>
  C25. The executor returns. If every sleep lets the clock advance by the poll interval, waiting for a job
  ends: with \<open>TimedOut\<close> after the deadline, with the terminal state the job has in the store, or with
  \<open>None\<close> when the job is gone; and the whole run of the pipeline returns.\<close>

theorem execute_terminates:
  "clock_runs E \<Longrightarrow>
     (\<exists>js w'. wait_for_job E jid deadline w = Some (js, w') \<and> wait_post E jid deadline js w')
     \<and> (\<exists>r x'. execute E def srs curl ru rt x = Some (r, x'))"
  using wait_for_job_total [of E jid deadline w] execute_total [of E def srs curl ru rt x] by auto

theorem execute_terminates_witness:
  "clock_runs sample_env \<and> (\<exists>r x'. execute sample_env sample_def sample_step_runs None None None sample_exec = Some (r, x'))"
proof -
  have clock: "clock_runs sample_env" by (auto simp: clock_runs_def sample_env_def POLL_INTERVAL_def)
  show ?thesis using clock execute_terminates [OF clock] by blast
qed

text \<open>
  Precedence of environment variables. The environment of a job has each name once, and its value is
  the interpolated value of the source with the highest priority: the registry variables and the clone
  URL where they are given, then the built-in variables, the run, the job or step, and the pipeline.\<close>

theorem env_vars_precedence:
  assumes "tbl_ok pe" "tbl_ok ie" "tbl_ok (run_env_vars run)"
  shows "distinct (map env_name (build_env_vars pe ie run nk nv curl ru rt))
    \<and> (\<exists>T. tbl_get T = env_sources pe ie run nk nv curl ru rt
       \<and> env_get (build_env_vars pe ie run nk nv curl ru rt) =
           (\<lambda>k. map_option (\<lambda>v. interpolate v (run_env_vars run) T) (env_sources pe ie run nk nv curl ru rt k)))"
  using build_env_vars_get [OF assms] .

theorem env_vars_precedence_witness:
  "env_sources [(''A'', ''1''), (''B'', ''2'')] [(''A'', ''3'')] sample_run ''PIPELINE_JOB_NAME'' ''j'' None None None ''A'' = Some ''3''
   \<and> distinct (map env_name (build_env_vars [(''A'', ''1''), (''B'', ''2'')] [(''A'', ''3'')] sample_run ''PIPELINE_JOB_NAME'' ''j'' None None None))"
  using env_vars_precedence [of "[(''A'', ''1''), (''B'', ''2'')]" "[(''A'', ''3'')]" sample_run "''PIPELINE_JOB_NAME''" "''j''" None None None]
  by (simp add: sample_run_def PipelineRun_new_def env_sources_def builtins_def)

text \<open>
  C21. Least privilege of the registry token. A job that does not ask for \<open>registry: write\<close> is built
  without any influence of the token; when no job of a jobs-mode pipeline asks, the whole run does not
  depend on it; and a job that asks receives it as \<open>MULI_REGISTRY_TOKEN\<close>.\<close>

theorem registry_token_scope:
  assumes "tbl_ok (pd_env def)" "tbl_ok (jd_env d)" "tbl_ok (run_env_vars run)" "find_sub tok ''${{'' = None"
  shows "(jd_registry d \<noteq> Some Write \<longrightarrow>
       build_job_from_jobdef E run def n d curl ru (Some tok) sr w = build_job_from_jobdef E run def n d curl ru None sr w)
    \<and> (jd_registry d = Some Write \<longrightarrow>
       env_get (spec_env_vars (job_spec (build_job_from_jobdef E run def n d curl ru (Some tok) sr w))) ''MULI_REGISTRY_TOKEN'' = Some tok)
    \<and> (pd_jobs def \<noteq> [] \<and> (\<forall>(i, job) \<in> set (pd_jobs def). jd_registry job \<noteq> Some Write) \<longrightarrow>
       execute E def srs curl ru (Some tok) x = execute E def srs curl ru None x)"
proof (intro conjI impI)
  have same: "build_job_from_jobdef E run def n d curl ru (Some tok) sr w = build_job_from_jobdef E run def n d curl ru None sr w"
    if "jd_registry d \<noteq> Some Write" for E run n d sr w
    using that by (simp add: build_job_from_jobdef_def job_registry_token_def)
  then show "build_job_from_jobdef E run def n d curl ru (Some tok) sr w = build_job_from_jobdef E run def n d curl ru None sr w"
    if "jd_registry d \<noteq> Some Write" using that .
  obtain T where "env_get (build_env_vars (pd_env def) (jd_env d) run ''PIPELINE_JOB_NAME'' n None ru (Some tok)) =
      (\<lambda>k. map_option (\<lambda>v. interpolate v (run_env_vars run) T)
        (env_sources (pd_env def) (jd_env d) run ''PIPELINE_JOB_NAME'' n None ru (Some tok) k))"
    using build_env_vars_get [OF assms(1-3)] by blast
  moreover have "interpolate tok (run_env_vars run) T = tok" using assms(4) by (subst interpolate.simps) simp
  ultimately show "env_get (spec_env_vars (job_spec (build_job_from_jobdef E run def n d curl ru (Some tok) sr w))) ''MULI_REGISTRY_TOKEN'' = Some tok"
    if "jd_registry d = Some Write"
    using that by (simp add: build_job_from_jobdef_def job_registry_token_def Job_new_def Let_def resolve_resources_def env_sources_def)
  assume none: "pd_jobs def \<noteq> [] \<and> (\<forall>(i, job) \<in> set (pd_jobs def). jd_registry job \<noteq> Some Write)"
  have "(case (tbl_get (pd_jobs def) orig, s) of (Some d, Some sr) \<Rightarrow> Some (build_job_from_jobdef E run def orig d curl ru (Some tok) sr w) | _ \<Rightarrow> None) =
      (case (tbl_get (pd_jobs def) orig, s) of (Some d, Some sr) \<Rightarrow> Some (build_job_from_jobdef E run def orig d curl ru None sr w) | _ \<Rightarrow> None)" for run orig s w
    using none by (auto split: option.split dest!: map_of_SomeD intro!: same)
  then show "execute E def srs curl ru (Some tok) x = execute E def srs curl ru None x"
    using none by (simp add: execute_def execute_jobs_def)
qed

theorem registry_token_scope_witness:
  "env_get (spec_env_vars (job_spec (build_job_from_jobdef sample_env sample_run sample_def ''p''
       ((sample_jobdef ''good'' [])\<lparr>jd_registry := Some Write\<rparr>) None None (Some ''tok'') (hd sample_step_runs) (ex_w sample_exec))))
     ''MULI_REGISTRY_TOKEN'' = Some ''tok''
   \<and> execute sample_env sample_def sample_step_runs None None (Some ''tok'') sample_exec =
     execute sample_env sample_def sample_step_runs None None None sample_exec"
proof -
  let ?d = "(sample_jobdef ''good'' [])\<lparr>jd_registry := Some Write\<rparr>"
  have ok: "tbl_ok (pd_env sample_def)" "tbl_ok (jd_env ?d)" "tbl_ok (run_env_vars sample_run)" "find_sub ''tok'' ''${{'' = None"
    by (simp_all add: sample_def_def sample_jobdef_def sample_run_def PipelineRun_new_def starts_with_def)
  have "pd_jobs sample_def \<noteq> [] \<and> (\<forall>(i, job) \<in> set (pd_jobs sample_def). jd_registry job \<noteq> Some Write)" "jd_registry ?d = Some Write"
    by (simp_all add: sample_def_def sample_jobdef_def)
  then show ?thesis using registry_token_scope [OF ok, where E = sample_env and n = "''p''" and curl = None and ru = None
      and sr = "hd sample_step_runs" and w = "ex_w sample_exec" and srs = sample_step_runs and x = sample_exec] by blast
qed

end
