(* ===== verification/Git_Access.thy ===== *)
theory Git_Access
  imports Job_Model Error_Display
begin

text \<open>
  Repositories, tokens, keys and collaborators (\<open>muli-core/src/git/model.rs\<close>, \<open>token.rs\<close>), organizations
  (\<open>muli-core/src/org/mod.rs\<close>), their in-memory stores (\<open>muli-store/src/memory/git_*_store.rs\<close>,
  \<open>org_store.rs\<close>), and the repository access check that the HTTP and SSH paths share
  (\<open>muli-core/src/git/access.rs\<close>).

  \<open>char::is_alphanumeric\<close> on characters outside ASCII is the argument \<open>uni\<close> (the Unicode tables).
  Fresh UUIDs and clock readings are arguments. \<open>collaborator_store\<close> is what the access check relies on
  of a collaborator store; it is interpreted on the in-memory store.
\<close>

section \<open>Models\<close>

datatype OwnerType = User | Organization

datatype GitPermission = Pull | Push | Admin

record Repository =
  rp_id :: string
  rp_tenant_id :: string
  rp_namespace :: string
  rp_name :: string
  rp_description :: string
  is_private :: bool
  default_branch :: string
  fork_of :: "string option"
  owner_id :: string
  owner_type :: OwnerType
  rp_created_at :: datetime
  rp_updated_at :: datetime

text \<open>The characters of a string, as their encodings.\<close>

function str_chars :: "string \<Rightarrow> string list" where
  "str_chars s = (if s = [] then [] else (let (ok, n) = utf8_head s in take n s # str_chars (drop n s)))"
  by pat_completeness auto
termination
  by (relation "measure length") (auto simp: utf8_head_decreases)

declare str_chars.simps [simp del]

definition is_alphanumeric :: "(string \<Rightarrow> bool) \<Rightarrow> string \<Rightarrow> bool" where
  "is_alphanumeric uni c = (case c of [a] \<Rightarrow> is_ascii_alphanumeric a | _ \<Rightarrow> uni c)"

definition validate_repo_component :: "(string \<Rightarrow> bool) \<Rightarrow> string \<Rightarrow> string \<Rightarrow> unit result" where
  "validate_repo_component uni v label =
     (if v = [] then Inl (Validation (label @ '' must not be empty''))
      else if contains_sub v ''..'' then Inl (Validation (label @ '' must not contain path traversal (..)''))
      else if CHR ''/'' \<in> set v \<or> CHR 0x5C \<in> set v then Inl (Validation (label @ '' must not contain path separators''))
      else if CHR 0x00 \<in> set v then Inl (Validation (label @ '' must not contain null bytes''))
      else if \<not> list_all (\<lambda>c. is_alphanumeric uni c \<or> c = ''-'' \<or> c = ''_'' \<or> c = ''.'') (str_chars v)
      then Inl (Validation (label @ '' contains invalid characters (allowed: alphanumeric, hyphens, underscores, dots)''))
      else Inr ())"

definition Repository_new :: "(string \<Rightarrow> bool) \<Rightarrow> string \<Rightarrow> datetime \<Rightarrow> string \<Rightarrow> string \<Rightarrow> string \<Rightarrow> string \<Rightarrow> bool \<Rightarrow> Repository result" where
  "Repository_new uni uuid now tenant ns name description private =
     and_then (validate_repo_component uni ns ''namespace'') (\<lambda>_.
     and_then (validate_repo_component uni name ''name'') (\<lambda>_.
       Inr \<lparr>rp_id = uuid, rp_tenant_id = tenant, rp_namespace = ns, rp_name = name, rp_description = description,
            is_private = private, default_branch = ''main'', fork_of = None, owner_id = [], owner_type = User,
            rp_created_at = now, rp_updated_at = now\<rparr>))"

record GitToken =
  tok_id :: string
  tok_tenant_id :: string
  tok_user_id :: "string option"
  tok_repo_id :: "string option"
  token_hash :: string
  tok_prefix :: string
  tok_permissions :: "GitPermission list"
  tok_description :: string
  tok_created_at :: datetime
  expires_at :: "datetime option"
  revoked :: bool

definition GitToken_new :: "string \<Rightarrow> datetime \<Rightarrow> string \<Rightarrow> string \<Rightarrow> string \<Rightarrow> GitPermission list \<Rightarrow> string \<Rightarrow> datetime option \<Rightarrow> GitToken" where
  "GitToken_new uuid now tenant hash pre perms description expires =
     \<lparr>tok_id = uuid, tok_tenant_id = tenant, tok_user_id = None, tok_repo_id = None, token_hash = hash, tok_prefix = pre,
      tok_permissions = perms, tok_description = description, tok_created_at = now, expires_at = expires, revoked = False\<rparr>"

definition is_token_valid :: "datetime \<Rightarrow> bool \<Rightarrow> datetime option \<Rightarrow> bool" where
  "is_token_valid now rvk expires = (if rvk then False else (case expires of Some e \<Rightarrow> now < e | None \<Rightarrow> True))"

definition GitToken_is_valid :: "datetime \<Rightarrow> GitToken \<Rightarrow> bool" where
  "GitToken_is_valid now t = is_token_valid now (revoked t) (expires_at t)"

definition has_permission :: "'p list \<Rightarrow> 'p \<Rightarrow> bool" where
  "has_permission perms required = (required \<in> set perms)"

record SshKey =
  key_id :: string
  key_tenant_id :: string
  key_user_id :: "string option"
  fingerprint :: string
  public_key :: string
  key_title :: string
  key_permissions :: "GitPermission list"
  key_created_at :: datetime

definition SshKey_new :: "string \<Rightarrow> datetime \<Rightarrow> string \<Rightarrow> string \<Rightarrow> string \<Rightarrow> string \<Rightarrow> GitPermission list \<Rightarrow> SshKey" where
  "SshKey_new uuid now tenant fp pk title perms =
     \<lparr>key_id = uuid, key_tenant_id = tenant, key_user_id = None, fingerprint = fp, public_key = pk, key_title = title,
      key_permissions = perms, key_created_at = now\<rparr>"

record RepositoryCollaborator =
  col_id :: string
  col_tenant_id :: string
  col_repo_id :: string
  col_user_id :: string
  col_permissions :: "GitPermission list"
  col_created_at :: datetime

definition RepositoryCollaborator_new :: "string \<Rightarrow> datetime \<Rightarrow> string \<Rightarrow> string \<Rightarrow> string \<Rightarrow> GitPermission list \<Rightarrow> RepositoryCollaborator" where
  "RepositoryCollaborator_new uuid now tenant rid uid perms =
     \<lparr>col_id = uuid, col_tenant_id = tenant, col_repo_id = rid, col_user_id = uid, col_permissions = perms, col_created_at = now\<rparr>"

datatype OrgRole = RoleOwner | RoleAdmin | RoleMember | RoleViewer

record Organization =
  org_id :: string
  org_tenant_id :: string
  handle :: string
  display_name :: string
  org_description :: string
  org_created_at :: datetime

definition Organization_new :: "string \<Rightarrow> datetime \<Rightarrow> string \<Rightarrow> string \<Rightarrow> string \<Rightarrow> string \<Rightarrow> Organization" where
  "Organization_new uuid now tenant h display description =
     \<lparr>org_id = uuid, org_tenant_id = tenant, handle = h, display_name = display, org_description = description,
      org_created_at = now\<rparr>"

record OrgMember =
  mem_id :: string
  mem_org_id :: string
  mem_user_id :: string
  mem_role :: OrgRole
  mem_created_at :: datetime

definition OrgMember_new :: "string \<Rightarrow> datetime \<Rightarrow> string \<Rightarrow> string \<Rightarrow> OrgRole \<Rightarrow> OrgMember" where
  "OrgMember_new uuid now oid uid role =
     \<lparr>mem_id = uuid, mem_org_id = oid, mem_user_id = uid, mem_role = role, mem_created_at = now\<rparr>"

section \<open>In-memory stores\<close>

text \<open>Collaborators: the key of a record is \<open>repo_id:user_id\<close>.\<close>

type_synonym MemoryCollaboratorStore = "RepositoryCollaborator table"

record 's CollaboratorStore =
  cs_upsert :: "RepositoryCollaborator \<Rightarrow> 's \<Rightarrow> string result \<times> 's"
  cs_remove :: "string \<Rightarrow> string \<Rightarrow> 's \<Rightarrow> unit result \<times> 's"
  cs_list :: "string \<Rightarrow> 's \<Rightarrow> RepositoryCollaborator list result"
  cs_get :: "string \<Rightarrow> string \<Rightarrow> 's \<Rightarrow> RepositoryCollaborator option result"

definition collab_key :: "string \<Rightarrow> string \<Rightarrow> string" where
  "collab_key rid uid = rid @ '':'' @ uid"

definition upsert_collaborator :: "RepositoryCollaborator \<Rightarrow> MemoryCollaboratorStore \<Rightarrow> string result \<times> MemoryCollaboratorStore" where
  "upsert_collaborator c s = (Inr (col_id c), tbl_insert (collab_key (col_repo_id c) (col_user_id c)) c s)"

definition remove_collaborator :: "string \<Rightarrow> string \<Rightarrow> MemoryCollaboratorStore \<Rightarrow> unit result \<times> MemoryCollaboratorStore" where
  "remove_collaborator rid uid s = (Inr (), tbl_remove (collab_key rid uid) s)"

definition list_collaborators :: "string \<Rightarrow> MemoryCollaboratorStore \<Rightarrow> RepositoryCollaborator list result" where
  "list_collaborators rid s = Inr (filter (\<lambda>c. col_repo_id c = rid) (tbl_values s))"

definition get_collaborator :: "string \<Rightarrow> string \<Rightarrow> MemoryCollaboratorStore \<Rightarrow> RepositoryCollaborator option result" where
  "get_collaborator rid uid s = Inr (tbl_get s (collab_key rid uid))"

definition memory_collaborator_store :: "MemoryCollaboratorStore CollaboratorStore" where
  "memory_collaborator_store =
     \<lparr>cs_upsert = upsert_collaborator, cs_remove = remove_collaborator, cs_list = list_collaborators, cs_get = get_collaborator\<rparr>"

text \<open>Organizations and their members.\<close>

type_synonym MemoryOrgStore = "Organization table"
type_synonym MemoryOrgMemberStore = "OrgMember table"

definition create_org :: "Organization \<Rightarrow> MemoryOrgStore \<Rightarrow> string result \<times> MemoryOrgStore" where
  "create_org org s =
     (if list_ex (\<lambda>o'. org_tenant_id o' = org_tenant_id org \<and> handle o' = handle org) (tbl_values s)
      then (Inl (Storage (''handle '' @ [CHR 0x27] @ handle org
             @ [CHR 0x27] @ '' already exists in tenant '' @ [CHR 0x27] @ org_tenant_id org @ [CHR 0x27])), s)
      else (Inr (org_id org), tbl_insert (org_id org) org s))"

definition get_org :: "string \<Rightarrow> MemoryOrgStore \<Rightarrow> Organization option result" where
  "get_org oid s = Inr (tbl_get s oid)"

definition get_org_by_handle :: "string \<Rightarrow> string \<Rightarrow> MemoryOrgStore \<Rightarrow> Organization option result" where
  "get_org_by_handle tenant h s = Inr (List.find (\<lambda>o'. org_tenant_id o' = tenant \<and> handle o' = h) (tbl_values s))"

definition delete_org :: "string \<Rightarrow> MemoryOrgStore \<Rightarrow> unit result \<times> MemoryOrgStore" where
  "delete_org oid s =
     (if tbl_contains s oid then (Inr (), tbl_remove oid s) else (Inl (Storage (''org '' @ oid @ '' not found'')), s))"

definition list_orgs :: "string \<Rightarrow> MemoryOrgStore \<Rightarrow> Organization list result" where
  "list_orgs tenant s = Inr (filter (\<lambda>o'. org_tenant_id o' = tenant) (tbl_values s))"

definition member_of :: "string \<Rightarrow> string \<Rightarrow> OrgMember \<Rightarrow> bool" where
  "member_of oid uid m = (mem_org_id m = oid \<and> mem_user_id m = uid)"

definition member_missing :: "string \<Rightarrow> string \<Rightarrow> MuliError" where
  "member_missing oid uid = Storage (''member user_id='' @ uid @ '' not found in org '' @ oid)"

definition add_member :: "OrgMember \<Rightarrow> MemoryOrgMemberStore \<Rightarrow> string result \<times> MemoryOrgMemberStore" where
  "add_member m s =
     (if list_ex (member_of (mem_org_id m) (mem_user_id m)) (tbl_values s)
      then (Inl (Storage (''user '' @ [CHR 0x27] @ mem_user_id m @ [CHR 0x27] @ '' is already a member of org '' @ [CHR 0x27]
             @ mem_org_id m @ [CHR 0x27])), s)
      else (Inr (mem_id m), tbl_insert (mem_id m) m s))"

definition remove_member :: "string \<Rightarrow> string \<Rightarrow> MemoryOrgMemberStore \<Rightarrow> unit result \<times> MemoryOrgMemberStore" where
  "remove_member oid uid s =
     (case List.find (\<lambda>(_, m). member_of oid uid m) s of
        Some (k, _) \<Rightarrow> (Inr (), tbl_remove k s)
      | None \<Rightarrow> (Inl (member_missing oid uid), s))"

definition list_members :: "string \<Rightarrow> MemoryOrgMemberStore \<Rightarrow> OrgMember list result" where
  "list_members oid s = Inr (filter (\<lambda>m. mem_org_id m = oid) (tbl_values s))"

definition get_member :: "string \<Rightarrow> string \<Rightarrow> MemoryOrgMemberStore \<Rightarrow> OrgMember option result" where
  "get_member oid uid s = Inr (List.find (member_of oid uid) (tbl_values s))"

definition update_member_role :: "string \<Rightarrow> string \<Rightarrow> OrgRole \<Rightarrow> MemoryOrgMemberStore \<Rightarrow> unit result \<times> MemoryOrgMemberStore" where
  "update_member_role oid uid role s =
     (case List.find (\<lambda>(_, m). member_of oid uid m) s of
        Some (k, _) \<Rightarrow> (Inr (), (case tbl_get s k of Some m \<Rightarrow> tbl_insert k (m\<lparr>mem_role := role\<rparr>) s | None \<Rightarrow> s))
      | None \<Rightarrow> (Inl (member_missing oid uid), s))"

text \<open>Repositories.\<close>

type_synonym MemoryRepositoryStore = "Repository table"

definition repo_missing :: "string \<Rightarrow> MuliError" where
  "repo_missing rid = Storage (''Repository '' @ rid @ '' not found'')"

definition create_repository :: "Repository \<Rightarrow> MemoryRepositoryStore \<Rightarrow> string result \<times> MemoryRepositoryStore" where
  "create_repository repo s =
     (if tbl_contains s (rp_id repo) then (Inl (Storage (''Repository '' @ rp_id repo @ '' already exists'')), s)
      else (Inr (rp_id repo), tbl_insert (rp_id repo) repo s))"

definition get_repository :: "string \<Rightarrow> MemoryRepositoryStore \<Rightarrow> Repository option result" where
  "get_repository rid s = Inr (tbl_get s rid)"

definition named :: "string \<Rightarrow> string \<Rightarrow> string \<Rightarrow> Repository \<Rightarrow> bool" where
  "named tenant ns name r = (rp_tenant_id r = tenant \<and> rp_namespace r = ns \<and> rp_name r = name)"

definition get_repository_by_name :: "string \<Rightarrow> string \<Rightarrow> string \<Rightarrow> MemoryRepositoryStore \<Rightarrow> Repository option result" where
  "get_repository_by_name tenant ns name s = Inr (List.find (named tenant ns name) (tbl_values s))"

definition list_repositories :: "string \<Rightarrow> MemoryRepositoryStore \<Rightarrow> Repository list result" where
  "list_repositories tenant s = Inr (filter (\<lambda>r. rp_tenant_id r = tenant) (tbl_values s))"

definition delete_repository :: "string \<Rightarrow> MemoryRepositoryStore \<Rightarrow> unit result \<times> MemoryRepositoryStore" where
  "delete_repository rid s = (if tbl_contains s rid then (Inr (), tbl_remove rid s) else (Inl (repo_missing rid), s))"

definition update_repository :: "Repository \<Rightarrow> MemoryRepositoryStore \<Rightarrow> unit result \<times> MemoryRepositoryStore" where
  "update_repository repo s =
     (if tbl_contains s (rp_id repo) then (Inr (), tbl_insert (rp_id repo) repo s) else (Inl (repo_missing (rp_id repo)), s))"

definition list_forks :: "string \<Rightarrow> MemoryRepositoryStore \<Rightarrow> Repository list result" where
  "list_forks parent s = Inr (filter (\<lambda>r. fork_of r = Some parent) (tbl_values s))"

definition transfer_repository :: "datetime \<Rightarrow> string \<Rightarrow> string \<Rightarrow> MemoryRepositoryStore \<Rightarrow> unit result \<times> MemoryRepositoryStore" where
  "transfer_repository now rid ns s =
     (case tbl_get s rid of
        Some r \<Rightarrow> (Inr (), tbl_insert rid (r\<lparr>rp_namespace := ns, rp_updated_at := now\<rparr>) s)
      | None \<Rightarrow> (Inl (repo_missing rid), s))"

definition count_by_tenant :: "string \<Rightarrow> MemoryRepositoryStore \<Rightarrow> nat result" where
  "count_by_tenant tenant s = Inr (length (filter (\<lambda>r. rp_tenant_id r = tenant) (tbl_values s)))"

text \<open>Tokens and SSH keys.\<close>

type_synonym MemoryGitTokenStore = "GitToken table"
type_synonym MemorySshKeyStore = "SshKey table"

definition token_missing :: "string \<Rightarrow> MuliError" where
  "token_missing tid = Storage (''Token '' @ tid @ '' not found'')"

definition create_token :: "GitToken \<Rightarrow> MemoryGitTokenStore \<Rightarrow> string result \<times> MemoryGitTokenStore" where
  "create_token t s =
     (if list_ex (\<lambda>u. tok_prefix u = tok_prefix t) (tbl_values s)
      then (Inl (Storage ''Token with duplicate hash already exists''), s)
      else (Inr (tok_id t), tbl_insert (tok_id t) t s))"

definition get_token_by_prefix :: "datetime \<Rightarrow> string \<Rightarrow> MemoryGitTokenStore \<Rightarrow> GitToken option result" where
  "get_token_by_prefix now pre s = Inr (List.find (\<lambda>t. tok_prefix t = pre \<and> GitToken_is_valid now t) (tbl_values s))"

definition get_token_by_id :: "string \<Rightarrow> MemoryGitTokenStore \<Rightarrow> GitToken option result" where
  "get_token_by_id tid s = Inr (tbl_get s tid)"

definition list_tokens :: "string \<Rightarrow> MemoryGitTokenStore \<Rightarrow> GitToken list result" where
  "list_tokens tenant s = Inr (map (\<lambda>t. t\<lparr>token_hash := []\<rparr>) (filter (\<lambda>t. tok_tenant_id t = tenant) (tbl_values s)))"

definition list_tokens_by_user :: "string \<Rightarrow> string \<Rightarrow> MemoryGitTokenStore \<Rightarrow> GitToken list result" where
  "list_tokens_by_user tenant uid s =
     Inr (map (\<lambda>t. t\<lparr>token_hash := []\<rparr>) (filter (\<lambda>t. tok_tenant_id t = tenant \<and> tok_user_id t = Some uid) (tbl_values s)))"

definition revoke_token :: "string \<Rightarrow> MemoryGitTokenStore \<Rightarrow> unit result \<times> MemoryGitTokenStore" where
  "revoke_token tid s =
     (case tbl_get s tid of None \<Rightarrow> (Inl (token_missing tid), s) | Some t \<Rightarrow> (Inr (), tbl_insert tid (t\<lparr>revoked := True\<rparr>) s))"

definition delete_expired_tokens :: "datetime \<Rightarrow> MemoryGitTokenStore \<Rightarrow> nat result \<times> MemoryGitTokenStore" where
  "delete_expired_tokens now s =
     (let to_remove = map fst (filter (\<lambda>(_, t). case expires_at t of Some e \<Rightarrow> e < now | None \<Rightarrow> False) s)
      in (Inr (length to_remove), foldl (\<lambda>t i. tbl_remove i t) s to_remove))"

definition set_token_expiry :: "string \<Rightarrow> datetime \<Rightarrow> MemoryGitTokenStore \<Rightarrow> unit result \<times> MemoryGitTokenStore" where
  "set_token_expiry tid e s =
     (case tbl_get s tid of None \<Rightarrow> (Inl (token_missing tid), s) | Some t \<Rightarrow> (Inr (), tbl_insert tid (t\<lparr>expires_at := Some e\<rparr>) s))"

definition add_key :: "SshKey \<Rightarrow> MemorySshKeyStore \<Rightarrow> string result \<times> MemorySshKeyStore" where
  "add_key k s =
     (if list_ex (\<lambda>k'. fingerprint k' = fingerprint k) (tbl_values s)
      then (Inl (Storage (''SSH key with fingerprint '' @ fingerprint k @ '' already exists'')), s)
      else (Inr (key_id k), tbl_insert (key_id k) k s))"

definition remove_key :: "string \<Rightarrow> MemorySshKeyStore \<Rightarrow> unit result \<times> MemorySshKeyStore" where
  "remove_key kid s =
     (if tbl_contains s kid then (Inr (), tbl_remove kid s) else (Inl (Storage (''SSH key '' @ kid @ '' not found'')), s))"

definition find_by_fingerprint :: "string \<Rightarrow> MemorySshKeyStore \<Rightarrow> SshKey option result" where
  "find_by_fingerprint fp s = Inr (List.find (\<lambda>k. fingerprint k = fp) (tbl_values s))"

definition find_by_fingerprint_in_tenant :: "string \<Rightarrow> string \<Rightarrow> MemorySshKeyStore \<Rightarrow> SshKey option result" where
  "find_by_fingerprint_in_tenant tenant fp s =
     Inr (List.find (\<lambda>k. key_tenant_id k = tenant \<and> fingerprint k = fp) (tbl_values s))"

definition list_keys :: "string \<Rightarrow> MemorySshKeyStore \<Rightarrow> SshKey list result" where
  "list_keys tenant s = Inr (filter (\<lambda>k. key_tenant_id k = tenant) (tbl_values s))"

definition list_keys_by_user :: "string \<Rightarrow> string \<Rightarrow> MemorySshKeyStore \<Rightarrow> SshKey list result" where
  "list_keys_by_user tenant uid s = Inr (filter (\<lambda>k. key_tenant_id k = tenant \<and> key_user_id k = Some uid) (tbl_values s))"

section \<open>The access check\<close>

datatype RepoAccessVerdict = Allowed | Denied string

fun org_role_allows :: "OrgRole \<Rightarrow> GitPermission \<Rightarrow> bool" where
  "org_role_allows RoleOwner required = True"
| "org_role_allows RoleAdmin required = True"
| "org_role_allows RoleMember required = (required = Pull \<or> required = Push)"
| "org_role_allows RoleViewer required = (required = Pull)"

definition check_repo_access :: "Repository \<Rightarrow> string option \<Rightarrow> GitPermission \<Rightarrow> (string \<Rightarrow> string \<Rightarrow> RepositoryCollaborator option result) \<Rightarrow> OrgMember option \<Rightarrow> RepoAccessVerdict" where
  "check_repo_access repo user_id required get_collab org_membership =
     (let is_write = (required = Push \<or> required = Admin) in
      if \<not> is_private repo \<and> \<not> is_write then Allowed
      else case user_id of None \<Rightarrow> Denied ''access denied''
      | Some uid \<Rightarrow>
        if uid = [] then Denied ''access denied''
        else if owner_id repo \<noteq> [] \<and> owner_id repo = uid then Allowed
        else if owner_type repo = Organization \<and> (case org_membership of Some m \<Rightarrow> org_role_allows (mem_role m) required | None \<Rightarrow> False)
        then Allowed
        else
          let is_collaborator = (case result_ok (get_collab (rp_id repo) uid) of
                Some (Some c) \<Rightarrow> has_permission (col_permissions c) required | _ \<Rightarrow> False)
          in if is_collaborator then Allowed else Denied ''access denied'')"

definition check_repo_access_with_org_lookup :: "Repository \<Rightarrow> string option \<Rightarrow> GitPermission \<Rightarrow> (string \<Rightarrow> string \<Rightarrow> RepositoryCollaborator option result) \<Rightarrow> (string \<Rightarrow> string \<Rightarrow> Organization option result) option \<Rightarrow> (string \<Rightarrow> string \<Rightarrow> OrgMember option result) option \<Rightarrow> string \<Rightarrow> RepoAccessVerdict" where
  "check_repo_access_with_org_lookup repo user_id required get_collab by_handle get_mem tenant =
     (let org_membership =
        (case (user_id, by_handle, get_mem) of
           (Some uid, Some os, Some oms) \<Rightarrow>
             if owner_type repo = Organization \<and> uid \<noteq> []
             then (case os tenant (rp_namespace repo) of
                     Inr (Some org) \<Rightarrow> Option.bind (result_ok (oms (org_id org) uid)) id
                   | _ \<Rightarrow> None)
             else None
         | _ \<Rightarrow> None)
      in check_repo_access repo user_id required get_collab org_membership)"

section \<open>The contract of a collaborator store\<close>

text \<open>Who may do what on a repository, as a set of reasons.\<close>

definition may_access :: "Repository \<Rightarrow> string option \<Rightarrow> GitPermission \<Rightarrow> RepositoryCollaborator option \<Rightarrow> OrgMember option \<Rightarrow> bool" where
  "may_access repo user required collab membership \<longleftrightarrow>
     \<not> is_private repo \<and> required = Pull
     \<or> (\<exists>uid. user = Some uid \<and> uid \<noteq> [] \<and>
          (owner_id repo = uid
           \<or> owner_type repo = Organization \<and> (\<exists>m. membership = Some m \<and> org_role_allows (mem_role m) required)
           \<or> (\<exists>c. collab = Some c \<and> required \<in> set (col_permissions c))))"

lemma check_repo_access_iff:
  "check_repo_access repo user required get membership = Allowed \<longleftrightarrow>
     may_access repo user required (case user of None \<Rightarrow> None | Some uid \<Rightarrow> Option.bind (result_ok (get (rp_id repo) uid)) id) membership"
  by (cases required; cases user; cases "result_ok (get (rp_id repo) (the user))")
    (auto simp: check_repo_access_def may_access_def Let_def has_permission_def split: option.splits if_splits)

locale collaborator_store =
  fixes C :: "'s CollaboratorStore" and view :: "'s \<Rightarrow> string \<Rightarrow> string \<Rightarrow> RepositoryCollaborator option" and id_ok :: "string \<Rightarrow> bool"
  assumes get_ok: "id_ok r \<Longrightarrow> cs_get C r u s = Inr x \<Longrightarrow> x = view s r u"
    and get_total: "\<exists>x. cs_get C r u s = Inr x"
    and upsert_ok: "id_ok (col_repo_id c) \<Longrightarrow> id_ok r \<Longrightarrow> cs_upsert C c s = (Inr i, s') \<Longrightarrow>
      view s' r u = (if r = col_repo_id c \<and> u = col_user_id c then Some c else view s r u)"
    and remove_ok: "id_ok r' \<Longrightarrow> id_ok r \<Longrightarrow> cs_remove C r' u' s = (Inr v, s') \<Longrightarrow>
      view s' r u = (if r = r' \<and> u = u' then None else view s r u)"
begin

lemma check_view:
  assumes "id_ok (rp_id repo)"
  shows "check_repo_access repo (Some uid) required (\<lambda>r u. cs_get C r u s) m = Allowed \<longleftrightarrow>
    may_access repo (Some uid) required (view s (rp_id repo) uid) m"
proof -
  obtain x where x: "cs_get C (rp_id repo) uid s = Inr x" using get_total by blast
  have "x = view s (rp_id repo) uid" by (rule get_ok [OF assms x])
  then show ?thesis using x by (simp add: check_repo_access_iff result_ok_def)
qed

lemma grant:
  assumes "id_ok (rp_id repo)" "cs_upsert C c s = (Inr i, s')" "col_repo_id c = rp_id repo" "uid \<noteq> []"
  shows "check_repo_access repo (Some uid) required (\<lambda>r u. cs_get C r u s') m = Allowed \<longleftrightarrow>
    (if uid = col_user_id c then required \<in> set (col_permissions c) \<or> may_access repo (Some uid) required None m
     else check_repo_access repo (Some uid) required (\<lambda>r u. cs_get C r u s) m = Allowed)"
  unfolding check_view [OF assms(1)]
  using upsert_ok [of c "rp_id repo" s i s' uid] assms by (auto simp: may_access_def)

lemma revoke:
  assumes "id_ok (rp_id repo)" "cs_remove C (rp_id repo) u' s = (Inr v, s')"
  shows "check_repo_access repo (Some uid) required (\<lambda>r u. cs_get C r u s') m = Allowed \<longleftrightarrow>
    (if uid = u' then may_access repo (Some uid) required None m
     else check_repo_access repo (Some uid) required (\<lambda>r u. cs_get C r u s) m = Allowed)"
  unfolding check_view [OF assms(1)]
  using remove_ok [OF assms(1,1), of u' s v s' uid] assms by (auto simp: may_access_def)

end

lemma collab_key_inj: "CHR '':'' \<notin> set r \<Longrightarrow> CHR '':'' \<notin> set r' \<Longrightarrow> collab_key r u = collab_key r' u' \<longleftrightarrow> r = r' \<and> u = u'"
  by (metis collab_key_def append_Cons append_Nil option.inject prod.inject split_once_single(1))

interpretation memc: collaborator_store memory_collaborator_store "\<lambda>s r u. tbl_get s (collab_key r u)" "\<lambda>r. CHR '':'' \<notin> set r"
  by unfold_locales
    (auto simp: memory_collaborator_store_def get_collaborator_def upsert_collaborator_def remove_collaborator_def
      collab_key_inj update_conv' delete_conv')

section \<open>Well-formed stores\<close>

text \<open>A table whose entries are stored under their identifier and are unique in a second key.\<close>

definition keyed :: "('v \<Rightarrow> string) \<Rightarrow> ('v \<Rightarrow> 'k) \<Rightarrow> 'v table \<Rightarrow> bool" where
  "keyed ident key t \<longleftrightarrow> tbl_ok t \<and> (\<forall>(i, v) \<in> set t. ident v = i)
     \<and> (\<forall>(i, v) \<in> set t. \<forall>(j, w) \<in> set t. key v = key w \<longrightarrow> i = j)"

definition orgs_ok :: "MemoryOrgStore \<Rightarrow> bool" where
  "orgs_ok s = keyed org_id (\<lambda>g. (org_tenant_id g, handle g)) s"

definition members_ok :: "MemoryOrgMemberStore \<Rightarrow> bool" where
  "members_ok s = keyed mem_id (\<lambda>m. (mem_org_id m, mem_user_id m)) s"

definition tokens_ok :: "MemoryGitTokenStore \<Rightarrow> bool" where
  "tokens_ok s = keyed tok_id tok_prefix s"

definition keys_ok :: "MemorySshKeyStore \<Rightarrow> bool" where
  "keys_ok s = keyed key_id fingerprint s"

lemma set_tbl_insert: "tbl_ok t \<Longrightarrow> set (tbl_insert k v t) = insert (k, v) {p \<in> set t. fst p \<noteq> k}"
  by (induction t) (auto simp: image_iff)

lemma set_tbl_remove: "set (tbl_remove k t) = {p \<in> set t. fst p \<noteq> k}"
  by (auto simp: AList.delete_eq)

lemma keyed_insert:
  assumes "keyed ident key t" "\<forall>(j, w) \<in> set t. key w = key v \<longrightarrow> j = ident v"
  shows "keyed ident key (tbl_insert (ident v) v t)"
proof -
  have "tbl_ok t" using assms(1) by (simp add: keyed_def)
  then show ?thesis using assms by (auto simp: keyed_def set_tbl_insert)
qed

lemma keyed_subset: "keyed ident key t \<Longrightarrow> tbl_ok t' \<Longrightarrow> set t' \<subseteq> set t \<Longrightarrow> keyed ident key t'"
  unfolding keyed_def by (auto 4 3)

lemma keyed_remove: "keyed ident key t \<Longrightarrow> keyed ident key (tbl_remove k t)"
  by (rule keyed_subset) (auto simp: keyed_def set_tbl_remove)

lemma keyed_remove_all: "keyed ident key t \<Longrightarrow> keyed ident key (foldl (\<lambda>t i. tbl_remove i t) t ks)"
  by (induction ks arbitrary: t) (simp_all add: keyed_remove)

lemma keyed_get: "keyed ident key t \<Longrightarrow> (i, v) \<in> set t \<longleftrightarrow> tbl_get t i = Some v"
  by (auto simp: keyed_def dest: map_of_SomeD)

lemma keyed_unique:
  assumes "keyed ident key t" "(i, v) \<in> set t" "(j, w) \<in> set t" "key v = key w"
  shows "i = j \<and> v = w"
proof -
  have "i = j" using assms unfolding keyed_def by blast
  then show ?thesis using assms(2,3) unfolding keyed_get [OF assms(1)] by simp
qed

lemma keyed_update:
  assumes "keyed ident key t" "tbl_get t i = Some v" "ident v' = ident v" "key v' = key v"
  shows "keyed ident key (tbl_insert i v' t)"
proof -
  have mem: "(i, v) \<in> set t" "ident v = i" using assms by (auto simp: keyed_def dest: map_of_SomeD)
  have "keyed ident key (tbl_insert (ident v') v' t)"
    by (rule keyed_insert [OF assms(1)]) (use assms mem in \<open>auto simp: keyed_def\<close>)
  then show ?thesis using assms(3) mem(2) by simp
qed

lemma keyed_find:
  assumes "keyed ident key t" "(i, v) \<in> set t" "\<And>w. P w \<longleftrightarrow> key w = key v"
  shows "List.find (\<lambda>(_, w). P w) t = Some (i, v)" "List.find P (tbl_values t) = Some v"
proof -
  have uniq: "P w \<Longrightarrow> (j, w) \<in> set t \<Longrightarrow> (j, w) = (i, v)" for j w
  proof -
    assume "P w" "(j, w) \<in> set t"
    then have "j = i" using assms unfolding keyed_def by blast
    then show "(j, w) = (i, v)" using \<open>(j, w) \<in> set t\<close> assms(1,2) by (auto simp: keyed_get)
  qed
  obtain q where q: "List.find (\<lambda>(_, w). P w) t = Some q"
    using assms(2,3) by (cases "List.find (\<lambda>(_, w). P w) t") (auto simp: find_None_iff)
  then have "q \<in> set t" "P (snd q)" by (auto simp: find_Some_iff in_set_conv_nth)
  with uniq [of "snd q" "fst q"] show one: "List.find (\<lambda>(_, w). P w) t = Some (i, v)" using q by simp
  have "List.find P (tbl_values xs) = map_option snd (List.find (\<lambda>(_, w). P w) xs)" for xs :: "(string \<times> 'a) list"
    by (induction xs) auto
  then show "List.find P (tbl_values t) = Some v" using one by simp
qed

lemma keyed_create:
  assumes "keyed ident key t" "\<not> list_ex P (tbl_values t)" "\<And>w. key w = key v \<Longrightarrow> P w"
  shows "keyed ident key (tbl_insert (ident v) v t)"
  by (rule keyed_insert [OF assms(1)]) (use assms(2,3) in \<open>force simp: list_ex_iff\<close>)

lemma org_stores_keep_ok:
  "orgs_ok s \<Longrightarrow> orgs_ok (snd (create_org g s))" "orgs_ok s \<Longrightarrow> orgs_ok (snd (delete_org i s))"
  "members_ok ms \<Longrightarrow> members_ok (snd (add_member m ms))" "members_ok ms \<Longrightarrow> members_ok (snd (remove_member i u ms))"
  "members_ok ms \<Longrightarrow> members_ok (snd (update_member_role i u role ms))"
proof -
  show "orgs_ok s \<Longrightarrow> orgs_ok (snd (create_org g s))"
    unfolding orgs_ok_def create_org_def
    by (auto intro!: keyed_create [where P = "\<lambda>o'. org_tenant_id o' = org_tenant_id g \<and> handle o' = handle g"])
  show "orgs_ok s \<Longrightarrow> orgs_ok (snd (delete_org i s))"
    by (auto simp: orgs_ok_def delete_org_def intro: keyed_remove)
  show "members_ok ms \<Longrightarrow> members_ok (snd (add_member m ms))"
    unfolding members_ok_def add_member_def
    by (auto intro!: keyed_create [where P = "member_of (mem_org_id m) (mem_user_id m)"] simp: member_of_def)
  show "members_ok ms \<Longrightarrow> members_ok (snd (remove_member i u ms))"
    by (auto simp: members_ok_def remove_member_def intro: keyed_remove split: option.split)
  show "members_ok ms \<Longrightarrow> members_ok (snd (update_member_role i u role ms))"
    by (auto simp: members_ok_def update_member_role_def intro: keyed_update split: option.split)
qed

lemma token_stores_keep_ok:
  "tokens_ok s \<Longrightarrow> tokens_ok (snd (create_token t s))" "tokens_ok s \<Longrightarrow> tokens_ok (snd (revoke_token i s))"
  "tokens_ok s \<Longrightarrow> tokens_ok (snd (delete_expired_tokens now s))" "tokens_ok s \<Longrightarrow> tokens_ok (snd (set_token_expiry i e s))"
  "keys_ok ks \<Longrightarrow> keys_ok (snd (add_key k ks))" "keys_ok ks \<Longrightarrow> keys_ok (snd (remove_key i ks))"
proof -
  show "tokens_ok s \<Longrightarrow> tokens_ok (snd (create_token t s))"
    unfolding tokens_ok_def create_token_def by (auto intro!: keyed_create [where P = "\<lambda>u. tok_prefix u = tok_prefix t"])
  show "tokens_ok s \<Longrightarrow> tokens_ok (snd (revoke_token i s))" "tokens_ok s \<Longrightarrow> tokens_ok (snd (set_token_expiry i e s))"
    by (auto simp: tokens_ok_def revoke_token_def set_token_expiry_def intro: keyed_update split: option.split)
  show "tokens_ok s \<Longrightarrow> tokens_ok (snd (delete_expired_tokens now s))"
    by (simp add: tokens_ok_def delete_expired_tokens_def Let_def keyed_remove_all)
  show "keys_ok ks \<Longrightarrow> keys_ok (snd (add_key k ks))"
    unfolding keys_ok_def add_key_def by (auto intro!: keyed_create [where P = "\<lambda>u. fingerprint u = fingerprint k"])
  show "keys_ok ks \<Longrightarrow> keys_ok (snd (remove_key i ks))"
    by (auto simp: keys_ok_def remove_key_def intro: keyed_remove)
qed

lemma get_member_iff:
  assumes "members_ok ms"
  shows "get_member oid uid ms = Inr (Some m) \<longleftrightarrow> m \<in> set (tbl_values ms) \<and> member_of oid uid m"
proof
  assume "get_member oid uid ms = Inr (Some m)"
  then show "m \<in> set (tbl_values ms) \<and> member_of oid uid m" by (auto simp: get_member_def find_Some_iff)
next
  assume m: "m \<in> set (tbl_values ms) \<and> member_of oid uid m"
  then obtain i where "(i, m) \<in> set ms" by auto
  then show "get_member oid uid ms = Inr (Some m)"
    unfolding get_member_def using assms m
    by (subst keyed_find(2) [of mem_id "\<lambda>m. (mem_org_id m, mem_user_id m)" ms i m]) (auto simp: members_ok_def member_of_def)
qed

lemma get_org_by_handle_iff:
  assumes "orgs_ok gs"
  shows "get_org_by_handle t h gs = Inr (Some g) \<longleftrightarrow> g \<in> set (tbl_values gs) \<and> org_tenant_id g = t \<and> handle g = h"
proof
  assume "get_org_by_handle t h gs = Inr (Some g)"
  then show "g \<in> set (tbl_values gs) \<and> org_tenant_id g = t \<and> handle g = h" by (auto simp: get_org_by_handle_def find_Some_iff)
next
  assume g: "g \<in> set (tbl_values gs) \<and> org_tenant_id g = t \<and> handle g = h"
  then obtain i where "(i, g) \<in> set gs" by auto
  then show "get_org_by_handle t h gs = Inr (Some g)"
    unfolding get_org_by_handle_def using assms g
    by (subst keyed_find(2) [of org_id "\<lambda>g. (org_tenant_id g, handle g)" gs i g]) (auto simp: orgs_ok_def)
qed

text \<open>A user who is neither the owner nor a collaborator of a private repository of an organization.\<close>

definition only_org_access :: "Repository \<Rightarrow> string \<Rightarrow> MemoryCollaboratorStore \<Rightarrow> bool" where
  "only_org_access repo uid cs \<longleftrightarrow> is_private repo \<and> owner_type repo = Organization \<and> uid \<noteq> [] \<and> owner_id repo \<noteq> uid
     \<and> tbl_get cs (collab_key (rp_id repo) uid) = None"

definition org_access :: "Repository \<Rightarrow> string \<Rightarrow> GitPermission \<Rightarrow> MemoryCollaboratorStore \<Rightarrow> MemoryOrgStore \<Rightarrow> MemoryOrgMemberStore \<Rightarrow> string \<Rightarrow> RepoAccessVerdict" where
  "org_access repo uid required cs gs ms tenant =
     check_repo_access_with_org_lookup repo (Some uid) required (\<lambda>r u. get_collaborator r u cs)
       (Some (\<lambda>t h. get_org_by_handle t h gs)) (Some (\<lambda>i u. get_member i u ms)) tenant"

lemma org_access_iff:
  assumes "only_org_access repo uid cs" "orgs_ok gs" "members_ok ms"
  shows "org_access repo uid required cs gs ms tenant = Allowed \<longleftrightarrow>
    (\<exists>g \<in> set (tbl_values gs). org_tenant_id g = tenant \<and> handle g = rp_namespace repo
       \<and> (\<exists>m \<in> set (tbl_values ms). member_of (org_id g) uid m \<and> org_role_allows (mem_role m) required))"
proof -
  obtain og where og: "get_org_by_handle tenant (rp_namespace repo) gs = Inr og" by (simp add: get_org_by_handle_def)
  have g: "og = Some g \<longleftrightarrow> g \<in> set (tbl_values gs) \<and> org_tenant_id g = tenant \<and> handle g = rp_namespace repo" for g
    using get_org_by_handle_iff [OF assms(2), of tenant "rp_namespace repo" g] og by simp
  have mem: "(case get_member i uid ms of Inr (Some m) \<Rightarrow> P m | _ \<Rightarrow> False) \<longleftrightarrow> (\<exists>m \<in> set (tbl_values ms). member_of i uid m \<and> P m)" for i P
  proof -
    obtain om where om: "get_member i uid ms = Inr om" by (simp add: get_member_def)
    have iff: "(m \<in> set (tbl_values ms) \<and> member_of i uid m) \<longleftrightarrow> om = Some m" for m
      using get_member_iff [OF assms(3), of i uid m] om by simp
    show ?thesis unfolding Bex_def conj_assoc [symmetric] iff om by (cases om) auto
  qed
  show ?thesis
  proof (cases og)
    case None
    then show ?thesis using g assms(1) og
      by (auto simp: org_access_def check_repo_access_with_org_lookup_def check_repo_access_iff only_org_access_def may_access_def
          get_collaborator_def result_ok_def)
  next
    case (Some g')
    have one: "(\<exists>g \<in> set (tbl_values gs). org_tenant_id g = tenant \<and> handle g = rp_namespace repo \<and> Q g) \<longleftrightarrow> Q g'" for Q
      using g Some by (metis option.inject)
    have "org_access repo uid required cs gs ms tenant = Allowed \<longleftrightarrow>
        (case get_member (org_id g') uid ms of Inr (Some m) \<Rightarrow> org_role_allows (mem_role m) required | _ \<Rightarrow> False)"
      using Some assms(1) og
      by (auto simp: org_access_def check_repo_access_with_org_lookup_def check_repo_access_iff only_org_access_def may_access_def
          get_collaborator_def result_ok_def get_member_def split: option.splits)
    then show ?thesis unfolding one mem .
  qed
qed

lemma remove_member_gone:
  assumes "members_ok ms" "remove_member oid uid ms = (Inr u, ms')" "m \<in> set (tbl_values ms')"
  shows "\<not> member_of oid uid m"
proof
  assume mo: "member_of oid uid m"
  obtain k w where f: "List.find (\<lambda>(_, m). member_of oid uid m) ms = Some (k, w)" "ms' = tbl_remove k ms"
    using assms(2) by (auto simp: remove_member_def split: option.splits)
  have kw: "(k, w) \<in> set ms" "member_of oid uid w" using f(1) by (auto simp: find_Some_iff in_set_conv_nth)
  obtain i where i: "(i, m) \<in> set ms" "i \<noteq> k" using assms(3) f(2) by (auto simp: set_tbl_remove)
  then show False using kw mo assms(1) by (auto simp: members_ok_def keyed_def member_of_def)
qed

lemma update_member_role_set:
  assumes "members_ok ms" "update_member_role oid uid role ms = (Inr u, ms')"
  shows "(\<exists>m \<in> set (tbl_values ms'). member_of oid uid m \<and> P m) \<longleftrightarrow>
    (\<exists>m \<in> set (tbl_values ms). member_of oid uid m \<and> P (m\<lparr>mem_role := role\<rparr>))"
    and "\<exists>m \<in> set (tbl_values ms). member_of oid uid m"
proof -
  obtain k w where f: "List.find (\<lambda>(_, m). member_of oid uid m) ms = Some (k, w)"
    using assms(2) by (auto simp: update_member_role_def split: option.splits)
  have kw: "(k, w) \<in> set ms" "member_of oid uid w" using f by (auto simp: find_Some_iff in_set_conv_nth)
  have get: "tbl_get ms k = Some w" using kw(1) assms(1) by (simp add: members_ok_def keyed_get)
  have ok: "tbl_ok ms" using assms(1) by (simp add: members_ok_def keyed_def)
  have set': "set ms' = insert (k, w\<lparr>mem_role := role\<rparr>) {p \<in> set ms. fst p \<noteq> k}"
  proof -
    have ms': "ms' = tbl_insert k (w\<lparr>mem_role := role\<rparr>) ms" using assms(2) f get by (auto simp: update_member_role_def)
    show ?thesis unfolding ms' by (rule set_tbl_insert [OF ok])
  qed
  have uniq: "(i, m) \<in> set ms \<Longrightarrow> member_of oid uid m \<Longrightarrow> i = k \<and> m = w" for i m
    using keyed_unique [OF assms(1) [unfolded members_ok_def], of i m k w] kw by (simp add: member_of_def)
  have val: "m \<in> set (tbl_values ms) \<Longrightarrow> member_of oid uid m \<Longrightarrow> m = w" for m using uniq by auto
  have w: "w \<in> set (tbl_values ms)" using kw(1) by force
  then show "\<exists>m \<in> set (tbl_values ms). member_of oid uid m" using kw(2) by blast
  have "(\<exists>m \<in> set (tbl_values ms'). member_of oid uid m \<and> P m) \<longleftrightarrow> P (w\<lparr>mem_role := role\<rparr>)"
    using uniq kw(2) by (auto simp: set' member_of_def)
  moreover have "(\<exists>m \<in> set (tbl_values ms). member_of oid uid m \<and> P (m\<lparr>mem_role := role\<rparr>)) \<longleftrightarrow> P (w\<lparr>mem_role := role\<rparr>)"
    using val w kw(2) by blast
  ultimately show "(\<exists>m \<in> set (tbl_values ms'). member_of oid uid m \<and> P m) \<longleftrightarrow>
    (\<exists>m \<in> set (tbl_values ms). member_of oid uid m \<and> P (m\<lparr>mem_role := role\<rparr>))" by simp
qed

section \<open>Properties\<close>

text \<open>
  C5. Grants and revocations take effect. After a collaborator is stored for a repository, that user may do
  exactly what the stored permissions and the other rules allow; after the collaborator is removed, only
  what the other rules allow; and nobody else's access changes.\<close>

theorem collaborator_grant_revoke:
  assumes "CHR '':'' \<notin> set (rp_id repo)" "uid \<noteq> []" "col_repo_id c = rp_id repo"
    and "upsert_collaborator c s = (Inr i, s1)" "remove_collaborator (rp_id repo) u' s = (Inr v, s2)"
  shows "(check_repo_access repo (Some uid) required (\<lambda>r u. get_collaborator r u s1) m = Allowed \<longleftrightarrow>
      (if uid = col_user_id c then required \<in> set (col_permissions c) \<or> may_access repo (Some uid) required None m
       else check_repo_access repo (Some uid) required (\<lambda>r u. get_collaborator r u s) m = Allowed))
    \<and> (check_repo_access repo (Some uid) required (\<lambda>r u. get_collaborator r u s2) m = Allowed \<longleftrightarrow>
      (if uid = u' then may_access repo (Some uid) required None m
       else check_repo_access repo (Some uid) required (\<lambda>r u. get_collaborator r u s) m = Allowed))"
  using memc.grant [of repo c s i s1 uid required m] memc.revoke [of repo u' s v s2 uid required m] assms
  by (simp add: memory_collaborator_store_def)

definition sample_repo :: Repository where
  "sample_repo = \<lparr>rp_id = ''r1'', rp_tenant_id = ''t'', rp_namespace = ''acme'', rp_name = ''secret'', rp_description = [],
     is_private = True, default_branch = ''main'', fork_of = None, owner_id = ''alice'', owner_type = Organization,
     rp_created_at = 0, rp_updated_at = 0\<rparr>"

theorem collaborator_grant_revoke_witness:
  "check_repo_access sample_repo (Some ''bob'') Push
     (\<lambda>r u. get_collaborator r u (snd (upsert_collaborator (RepositoryCollaborator_new ''c'' 0 ''t'' ''r1'' ''bob'' [Push]) []))) None = Allowed
   \<and> check_repo_access sample_repo (Some ''bob'') Push
     (\<lambda>r u. get_collaborator r u (snd (remove_collaborator ''r1'' ''bob'' []))) None \<noteq> Allowed"
  using collaborator_grant_revoke [of sample_repo "''bob''" "RepositoryCollaborator_new ''c'' 0 ''t'' ''r1'' ''bob'' [Push]" "[]" "''c''"
      "[(collab_key ''r1'' ''bob'', RepositoryCollaborator_new ''c'' 0 ''t'' ''r1'' ''bob'' [Push])]" "''bob''" "()" "[]" Push None]
  by (simp add: sample_repo_def RepositoryCollaborator_new_def upsert_collaborator_def remove_collaborator_def may_access_def)


definition sample_member :: OrgMember where
  "sample_member = OrgMember_new ''m'' 0 ''o'' ''bob'' RoleViewer"

definition sample_org :: Organization where
  "sample_org = Organization_new ''o'' 0 ''t'' ''acme'' [] []"


text \<open>
  Well-formed stores. Every operation of the in-memory organization, membership, token and key stores
  keeps the entries under their identifiers and unique in their second key: the handle within a tenant, the
  user within an organization, the token prefix, the key fingerprint.\<close>

theorem git_stores_well_formed:
  "(orgs_ok gs \<longrightarrow> orgs_ok (snd (create_org g gs)) \<and> orgs_ok (snd (delete_org i gs)))
   \<and> (members_ok ms \<longrightarrow> members_ok (snd (add_member m ms)) \<and> members_ok (snd (remove_member i u ms))
        \<and> members_ok (snd (update_member_role i u role ms)))
   \<and> (tokens_ok ts \<longrightarrow> tokens_ok (snd (create_token t ts)) \<and> tokens_ok (snd (revoke_token i ts))
        \<and> tokens_ok (snd (delete_expired_tokens now ts)) \<and> tokens_ok (snd (set_token_expiry i e ts)))
   \<and> (keys_ok ks \<longrightarrow> keys_ok (snd (add_key k ks)) \<and> keys_ok (snd (remove_key i ks)))"
  by (simp add: org_stores_keep_ok token_stores_keep_ok)

theorem git_stores_well_formed_witness:
  "members_ok [(''m'', sample_member)] \<and> members_ok (snd (add_member (sample_member\<lparr>mem_id := ''n''\<rparr>) [(''m'', sample_member)]))
   \<and> members_ok (snd (update_member_role ''o'' ''bob'' RoleAdmin [(''m'', sample_member)]))"
proof -
  have "members_ok [(''m'', sample_member)]" by (simp add: members_ok_def keyed_def sample_member_def OrgMember_new_def)
  then show ?thesis using git_stores_well_formed [where ms = "[(''m'', sample_member)]"] by blast
qed

end
