(* ===== verification/Git_Repos.thy ===== *)
theory Git_Repos
  imports Git_Access
begin

text \<open>
  Repositories as records and as directories: the filesystem storage
  (\<open>muli-git/src/storage/filesystem.rs\<close>), the interfaces \<open>RepositoryStore\<close> and \<open>GitStorage\<close>
  (\<open>muli-core/src/traits/git.rs\<close>) as records of operations with their contracts, and the domain service
  that keeps both in step (\<open>muli-core/src/service/repository.rs\<close>).

  The state of the file system is the table of the repository directories with their contents. Which
  system calls and git commands fail is an argument (\<open>FsCalls\<close>); a call that fails has no effect.
\<close>

record 's RepositoryStore =
  rs_create :: "Repository \<Rightarrow> 's \<Rightarrow> string result \<times> 's"
  rs_get :: "string \<Rightarrow> 's \<Rightarrow> Repository option result"
  rs_get_by_name :: "string \<Rightarrow> string \<Rightarrow> string \<Rightarrow> 's \<Rightarrow> Repository option result"
  rs_list :: "string \<Rightarrow> 's \<Rightarrow> Repository list result"
  rs_delete :: "string \<Rightarrow> 's \<Rightarrow> unit result \<times> 's"
  rs_update :: "Repository \<Rightarrow> 's \<Rightarrow> unit result \<times> 's"
  rs_list_forks :: "string \<Rightarrow> 's \<Rightarrow> Repository list result"
  rs_transfer :: "datetime \<Rightarrow> string \<Rightarrow> string \<Rightarrow> 's \<Rightarrow> unit result \<times> 's"
  rs_count_by_tenant :: "string \<Rightarrow> 's \<Rightarrow> nat result"

record 'g GitStorage =
  gs_init :: "string \<Rightarrow> string \<Rightarrow> string \<Rightarrow> 'g \<Rightarrow> string result \<times> 'g"
  gs_delete :: "string \<Rightarrow> string \<Rightarrow> string \<Rightarrow> 'g \<Rightarrow> unit result \<times> 'g"
  gs_fork :: "string \<Rightarrow> string \<Rightarrow> string \<Rightarrow> string \<Rightarrow> string \<Rightarrow> string \<Rightarrow> 'g \<Rightarrow> unit result \<times> 'g"
  gs_transfer :: "string \<Rightarrow> string \<Rightarrow> string \<Rightarrow> string \<Rightarrow> 'g \<Rightarrow> unit result \<times> 'g"
  gs_repo_path :: "string \<Rightarrow> string \<Rightarrow> string \<Rightarrow> string"

definition memory_repository_store :: "MemoryRepositoryStore RepositoryStore" where
  "memory_repository_store = \<lparr>rs_create = create_repository, rs_get = get_repository,
     rs_get_by_name = get_repository_by_name, rs_list = list_repositories, rs_delete = delete_repository,
     rs_update = update_repository, rs_list_forks = list_forks, rs_transfer = transfer_repository,
     rs_count_by_tenant = count_by_tenant\<rparr>"

section \<open>Filesystem storage\<close>

datatype GitStorageError = Io string | AlreadyExists string | RepoNotFound string | GitCommand string

fun GitStorageError_to_string :: "GitStorageError \<Rightarrow> string" where
  "GitStorageError_to_string (Io e) = ''IO error: '' @ e"
| "GitStorageError_to_string (AlreadyExists p) = ''repository already exists: '' @ p"
| "GitStorageError_to_string (RepoNotFound p) = ''repository not found: '' @ p"
| "GitStorageError_to_string (GitCommand m) = ''git command failed: '' @ m"

record FsCalls =
  fs_create_dir_all :: "string \<Rightarrow> string option"
  fs_git_init :: "string \<Rightarrow> GitStorageError option"
  fs_remove_dir_all :: "string \<Rightarrow> string option"
  fs_git_clone :: "string \<Rightarrow> string \<Rightarrow> GitStorageError option"
  fs_rename :: "string \<Rightarrow> string \<Rightarrow> string option"

type_synonym GitFs = "string table"

text \<open>\<open>PathBuf::join\<close>: an absolute component replaces the path.\<close>

definition path_join :: "string \<Rightarrow> string \<Rightarrow> string" where
  "path_join p c =
     (if starts_with c ''/'' then c else if p = [] \<or> ends_with p ''/'' then p @ c else p @ ''/'' @ c)"

definition path_parent :: "string \<Rightarrow> string" where
  "path_parent p = rev (tl (dropWhile (\<lambda>c. c \<noteq> CHR ''/'') (rev p)))"

definition repo_path :: "string \<Rightarrow> string \<Rightarrow> string \<Rightarrow> string \<Rightarrow> string" where
  "repo_path base tenant ns name = path_join (path_join (path_join base tenant) ns) (name @ ''.git'')"

definition init_repo :: "string \<Rightarrow> FsCalls \<Rightarrow> string \<Rightarrow> string \<Rightarrow> string \<Rightarrow> GitFs \<Rightarrow> (GitStorageError + string) \<times> GitFs" where
  "init_repo base F tenant ns name fs =
     (let path = repo_path base tenant ns name in
      if tbl_contains fs path then (Inr path, fs)
      else case fs_create_dir_all F path of Some e \<Rightarrow> (Inl (Io e), fs)
      | None \<Rightarrow> let fs1 = tbl_insert path [] fs in
          case fs_git_init F path of Some e \<Rightarrow> (Inl e, fs1) | None \<Rightarrow> (Inr path, fs1))"

definition delete_repo :: "string \<Rightarrow> FsCalls \<Rightarrow> string \<Rightarrow> string \<Rightarrow> string \<Rightarrow> GitFs \<Rightarrow> (GitStorageError + unit) \<times> GitFs" where
  "delete_repo base F tenant ns name fs =
     (let path = repo_path base tenant ns name in
      if \<not> tbl_contains fs path then (Inl (RepoNotFound path), fs)
      else case fs_remove_dir_all F path of Some e \<Rightarrow> (Inl (Io e), fs) | None \<Rightarrow> (Inr (), tbl_remove path fs))"

definition fork_repo :: "string \<Rightarrow> FsCalls \<Rightarrow> string \<Rightarrow> string \<Rightarrow> string \<Rightarrow> string \<Rightarrow> string \<Rightarrow> string \<Rightarrow> GitFs \<Rightarrow> (GitStorageError + string) \<times> GitFs" where
  "fork_repo base F st sn sname dt dn dname fs =
     (let src = repo_path base st sn sname; dst = repo_path base dt dn dname in
      case tbl_get fs src of None \<Rightarrow> (Inl (RepoNotFound src), fs)
      | Some content \<Rightarrow>
        if tbl_contains fs dst then (Inl (AlreadyExists dst), fs)
        else case fs_create_dir_all F (path_parent dst) of Some e \<Rightarrow> (Inl (Io e), fs)
        | None \<Rightarrow> case fs_git_clone F src dst of Some e \<Rightarrow> (Inl e, fs) | None \<Rightarrow> (Inr dst, tbl_insert dst content fs))"

definition transfer_repo :: "string \<Rightarrow> FsCalls \<Rightarrow> string \<Rightarrow> string \<Rightarrow> string \<Rightarrow> string \<Rightarrow> GitFs \<Rightarrow> (GitStorageError + unit) \<times> GitFs" where
  "transfer_repo base F tenant ns name new_ns fs =
     (let src = repo_path base tenant ns name; dst = repo_path base tenant new_ns name in
      case tbl_get fs src of None \<Rightarrow> (Inl (RepoNotFound src), fs)
      | Some content \<Rightarrow>
        if tbl_contains fs dst then (Inl (AlreadyExists dst), fs)
        else case fs_create_dir_all F (path_parent dst) of Some e \<Rightarrow> (Inl (Io e), fs)
        | None \<Rightarrow> case fs_rename F src dst of Some e \<Rightarrow> (Inl (Io e), fs)
          | None \<Rightarrow> (Inr (), tbl_insert dst content (tbl_remove src fs)))"

definition storage_result :: "(GitStorageError + 'a) \<times> GitFs \<Rightarrow> ('a \<Rightarrow> 'b) \<Rightarrow> 'b result \<times> GitFs" where
  "storage_result r f = (case r of (Inl e, fs) \<Rightarrow> (Inl (Storage (GitStorageError_to_string e)), fs) | (Inr x, fs) \<Rightarrow> (Inr (f x), fs))"

definition filesystem_storage :: "string \<Rightarrow> FsCalls \<Rightarrow> GitFs GitStorage" where
  "filesystem_storage base F =
     \<lparr>gs_init = (\<lambda>t ns n fs. storage_result (init_repo base F t ns n fs) id),
      gs_delete = (\<lambda>t ns n fs. storage_result (delete_repo base F t ns n fs) id),
      gs_fork = (\<lambda>st sn s dt dn d fs. storage_result (fork_repo base F st sn s dt dn d fs) (\<lambda>_. ())),
      gs_transfer = (\<lambda>t ns n new_ns fs. storage_result (transfer_repo base F t ns n new_ns fs) id),
      gs_repo_path = repo_path base\<rparr>"

text \<open>
  Tags and release notes. What \<open>git describe\<close> and \<open>git log\<close> answer is an argument: their exit status and
  trimmed output, or the failure to start. The tags of all repositories are a table from the git directory and
  the tag name to the commit; \<open>dbg\<close> stands for the \<open>Debug\<close> rendering of a string.\<close>

type_synonym GitTags = "((string \<times> string) \<times> string) list"

definition existing_git_dir :: "string \<Rightarrow> string \<Rightarrow> string \<Rightarrow> string \<Rightarrow> GitFs \<Rightarrow> GitStorageError + string" where
  "existing_git_dir base tenant ns name fs =
     (let path = repo_path base tenant ns name in if tbl_contains fs path then Inr path else Inl (RepoNotFound path))"

definition validate_tag_name :: "(string \<Rightarrow> string) \<Rightarrow> string \<Rightarrow> GitStorageError + unit" where
  "validate_tag_name dbg tag =
     (if tag = [] \<or> starts_with tag ''-'' \<or> contains_sub tag ''..'' \<or> list_ex (contains_sub tag) white_space
      then Inl (GitCommand (''invalid tag name: '' @ dbg tag)) else Inr ())"

definition create_tag :: "string \<Rightarrow> (string \<Rightarrow> string) \<Rightarrow> (string \<Rightarrow> string \<Rightarrow> string \<Rightarrow> GitStorageError option) \<Rightarrow> string \<Rightarrow> string \<Rightarrow> string \<Rightarrow> string \<Rightarrow> string \<Rightarrow> GitFs \<Rightarrow> GitTags \<Rightarrow> (GitStorageError + unit) \<times> GitTags" where
  "create_tag base dbg git_tag tenant ns name tag sha fs tags =
     (case validate_tag_name dbg tag of Inl e \<Rightarrow> (Inl e, tags)
      | Inr _ \<Rightarrow> case existing_git_dir base tenant ns name fs of Inl e \<Rightarrow> (Inl e, tags)
      | Inr git_dir \<Rightarrow>
        if map_of tags (git_dir, tag) \<noteq> None then (Inr (), tags)
        else case git_tag git_dir tag sha of Some e \<Rightarrow> (Inl e, tags)
        | None \<Rightarrow> (Inr (), AList.update (git_dir, tag) sha tags))"

record GitOutput =
  go_success :: bool
  go_stdout :: string
  go_stderr :: string

definition log_since_previous_tag :: "string \<Rightarrow> (string \<Rightarrow> string \<Rightarrow> string \<Rightarrow> string + GitOutput) \<Rightarrow> (string \<Rightarrow> string \<Rightarrow> string + GitOutput) \<Rightarrow> string \<Rightarrow> string \<Rightarrow> string \<Rightarrow> string \<Rightarrow> string \<Rightarrow> GitFs \<Rightarrow> GitStorageError + string" where
  "log_since_previous_tag base git_describe git_log tenant ns name tag sha fs =
     (case existing_git_dir base tenant ns name fs of Inl e \<Rightarrow> Inl e
      | Inr git_dir \<Rightarrow> case git_describe git_dir tag sha of Inl e \<Rightarrow> Inl (Io e)
      | Inr prev \<Rightarrow>
        let prev_tag = trim (go_stdout prev);
            range = (if go_success prev \<and> prev_tag \<noteq> [] then prev_tag @ ''..'' @ sha else sha) in
        case git_log git_dir range of Inl e \<Rightarrow> Inl (Io e)
        | Inr out \<Rightarrow>
          if \<not> go_success out then Inl (GitCommand (''git log '' @ range @ '' failed: '' @ trim (go_stderr out)))
          else Inr (trim (go_stdout out)))"

section \<open>The repository service\<close>

definition service_create :: "'s RepositoryStore \<Rightarrow> 'g GitStorage \<Rightarrow> (string \<Rightarrow> bool) \<Rightarrow> string \<Rightarrow> datetime \<Rightarrow> string \<Rightarrow> string \<Rightarrow> string \<Rightarrow> string \<Rightarrow> bool \<Rightarrow> 's \<times> 'g \<Rightarrow> Repository result \<times> 's \<times> 'g" where
  "service_create S G uni uuid now tenant ns name description private st =
     (case st of (s, g) \<Rightarrow>
      case rs_get_by_name S tenant ns name s of Inl e \<Rightarrow> (Inl e, s, g)
      | Inr (Some _) \<Rightarrow> (Inl (Conflict ''repository already exists''), s, g)
      | Inr None \<Rightarrow>
        case Repository_new uni uuid now tenant ns name description private of Inl e \<Rightarrow> (Inl e, s, g)
        | Inr repo \<Rightarrow>
          case rs_create S repo s of (Inl e, s1) \<Rightarrow> (Inl e, s1, g)
          | (Inr _, s1) \<Rightarrow>
            case gs_init G tenant ns name g of
              (Inl e, g1) \<Rightarrow> (Inl e, snd (rs_delete S (rp_id repo) s1), g1)
            | (Inr _, g1) \<Rightarrow> (Inr repo, s1, g1))"

definition service_delete :: "'s RepositoryStore \<Rightarrow> 'g GitStorage \<Rightarrow> string \<Rightarrow> string \<Rightarrow> string \<Rightarrow> 's \<times> 'g \<Rightarrow> unit result \<times> 's \<times> 'g" where
  "service_delete S G tenant ns name st =
     (case st of (s, g) \<Rightarrow>
      case rs_get_by_name S tenant ns name s of Inl e \<Rightarrow> (Inl e, s, g)
      | Inr None \<Rightarrow> (Inl (NotFound ''repository not found''), s, g)
      | Inr (Some repo) \<Rightarrow>
        case rs_delete S (rp_id repo) s of (Inl e, s1) \<Rightarrow> (Inl e, s1, g)
        | (Inr _, s1) \<Rightarrow> (Inr (), s1, snd (gs_delete G tenant ns name g)))"

definition service_fork :: "'s RepositoryStore \<Rightarrow> 'g GitStorage \<Rightarrow> (string \<Rightarrow> bool) \<Rightarrow> string \<Rightarrow> datetime \<Rightarrow> string \<Rightarrow> string \<Rightarrow> string \<Rightarrow> string \<Rightarrow> string \<Rightarrow> 's \<times> 'g \<Rightarrow> Repository result \<times> 's \<times> 'g" where
  "service_fork S G uni uuid now tenant src_ns src_name dst_ns dst_name st =
     (case st of (s, g) \<Rightarrow>
      case rs_get_by_name S tenant src_ns src_name s of Inl e \<Rightarrow> (Inl e, s, g)
      | Inr None \<Rightarrow> (Inl (NotFound ''source repository not found''), s, g)
      | Inr (Some source) \<Rightarrow>
        case gs_fork G tenant src_ns src_name tenant dst_ns dst_name g of (Inl e, g1) \<Rightarrow> (Inl e, s, g1)
        | (Inr _, g1) \<Rightarrow>
          case Repository_new uni uuid now tenant dst_ns dst_name (rp_description source) (is_private source) of
            Inl e \<Rightarrow> (Inl e, s, g1)
          | Inr repo \<Rightarrow>
            let forked = repo\<lparr>fork_of := Some (rp_id source)\<rparr> in
            case rs_create S forked s of
              (Inl e, s1) \<Rightarrow> (Inl e, s1, snd (gs_delete G tenant dst_ns dst_name g1))
            | (Inr _, s1) \<Rightarrow> (Inr forked, s1, g1))"

definition service_transfer :: "'s RepositoryStore \<Rightarrow> 'g GitStorage \<Rightarrow> datetime \<Rightarrow> string \<Rightarrow> string \<Rightarrow> string \<Rightarrow> string \<Rightarrow> 's \<times> 'g \<Rightarrow> Repository result \<times> 's \<times> 'g" where
  "service_transfer S G now tenant ns name new_ns st =
     (case st of (s, g) \<Rightarrow>
      case rs_get_by_name S tenant ns name s of Inl e \<Rightarrow> (Inl e, s, g)
      | Inr None \<Rightarrow> (Inl (NotFound ''repository not found''), s, g)
      | Inr (Some repo) \<Rightarrow>
        if rp_namespace repo = new_ns then (Inl (Validation ''new_namespace is same as current namespace''), s, g)
        else case gs_transfer G tenant ns name new_ns g of (Inl e, g1) \<Rightarrow> (Inl e, s, g1)
        | (Inr _, g1) \<Rightarrow>
          case rs_transfer S now (rp_id repo) new_ns s of
            (Inl e, s1) \<Rightarrow> (Inl e, s1, snd (gs_transfer G tenant new_ns name ns g1))
          | (Inr _, s1) \<Rightarrow> (Inr (repo\<lparr>rp_namespace := new_ns\<rparr>), s1, g1))"

section \<open>Contracts\<close>

locale repository_store =
  fixes S :: "'s RepositoryStore" and s_inv :: "'s \<Rightarrow> bool" and lookup :: "'s \<Rightarrow> string \<Rightarrow> Repository option"
  assumes by_name_Some: "s_inv s \<Longrightarrow> rs_get_by_name S t ns n s = Inr (Some r) \<Longrightarrow> lookup s (rp_id r) = Some r \<and> named t ns n r"
    and by_name_None: "s_inv s \<Longrightarrow> rs_get_by_name S t ns n s = Inr None \<Longrightarrow> lookup s i = Some r \<Longrightarrow> \<not> named t ns n r"
    and create_ok: "s_inv s \<Longrightarrow> rs_create S r s = (Inr i, s') \<Longrightarrow> s_inv s' \<and> lookup s (rp_id r) = None \<and> lookup s' = (lookup s)(rp_id r \<mapsto> r)"
    and create_err: "s_inv s \<Longrightarrow> rs_create S r s = (Inl e, s') \<Longrightarrow> s_inv s' \<and> lookup s' = lookup s"
    and delete_ok: "s_inv s \<Longrightarrow> lookup s i \<noteq> None \<Longrightarrow> \<exists>s'. rs_delete S i s = (Inr (), s') \<and> s_inv s' \<and> lookup s' = (lookup s)(i := None)"
    and transfer_ok: "s_inv s \<Longrightarrow> rs_transfer S now i ns s = (Inr u, s') \<Longrightarrow>
      s_inv s' \<and> (\<exists>r. lookup s i = Some r \<and> lookup s' = (lookup s)(i \<mapsto> r\<lparr>rp_namespace := ns, rp_updated_at := now\<rparr>))"
    and transfer_err: "s_inv s \<Longrightarrow> rs_transfer S now i ns s = (Inl e, s') \<Longrightarrow> s_inv s' \<and> lookup s' = lookup s"

locale git_storage =
  fixes G :: "'g GitStorage" and content :: "'g \<Rightarrow> string \<Rightarrow> string option" and path :: "string \<Rightarrow> string \<Rightarrow> string \<Rightarrow> string"
  assumes fork_ok: "gs_fork G st sn s dt dn d g = (Inr u, g') \<Longrightarrow>
      content g (path st sn s) \<noteq> None \<and> content g (path dt dn d) = None \<and> content g' = (content g)(path dt dn d := content g (path st sn s))"
    and fork_err: "gs_fork G st sn s dt dn d g = (Inl e, g') \<Longrightarrow> content g' = content g"
    and transfer_dir_ok: "gs_transfer G t ns n new_ns g = (Inr v, g') \<Longrightarrow>
      content g (path t ns n) \<noteq> None \<and> content g (path t new_ns n) = None
      \<and> content g' = (content g)(path t ns n := None, path t new_ns n := content g (path t ns n))"
    and transfer_dir_err: "gs_transfer G t ns n new_ns g = (Inl e, g') \<Longrightarrow> content g' = content g"
    and delete_dir: "content (snd (gs_delete G t ns n g)) \<in> {content g, (content g)(path t ns n := None)}"

text \<open>A storage whose cleanups succeed.\<close>

locale reliable_git_storage = git_storage +
  assumes transfer_total: "content g (path t ns n) \<noteq> None \<Longrightarrow> content g (path t new_ns n) = None \<Longrightarrow> \<exists>g'. gs_transfer G t ns n new_ns g = (Inr (), g')"
    and delete_total: "content g (path t ns n) \<noteq> None \<Longrightarrow> content (snd (gs_delete G t ns n g)) = (content g)(path t ns n := None)"


text \<open>The service on any store and any storage that keep these contracts.\<close>

locale repository_service = repository_store S s_inv lookup + reliable_git_storage G content path
  for S :: "'s RepositoryStore" and s_inv lookup and G :: "'g GitStorage" and content path
begin

lemma create_undone:
  assumes "s_inv s" "service_create S G uni uuid now t ns n d p (s, g) = (Inl e, s', g')"
  shows "s_inv s' \<and> lookup s' = lookup s"
proof -
  have undo: "s_inv (snd (rs_delete S (rp_id r) s1)) \<and> lookup (snd (rs_delete S (rp_id r) s1)) = lookup s"
    if "rs_create S r s = (Inr i, s1)" for r i s1
  proof -
    note c = create_ok [OF assms(1) that]
    then obtain s2 where "rs_delete S (rp_id r) s1 = (Inr (), s2)" "s_inv s2" "lookup s2 = (lookup s1)(rp_id r := None)"
      using delete_ok [of s1 "rp_id r"] by auto
    then show ?thesis using c by (simp add: fun_upd_idem)
  qed
  show ?thesis
    using assms create_err [OF assms(1)] undo
    by (auto simp: service_create_def split: sum.splits option.splits prod.splits)
qed

lemma create_done:
  assumes "s_inv s" "service_create S G uni uuid now t ns n d p (s, g) = (Inr r, s', g')"
  shows "s_inv s' \<and> lookup s' = (lookup s)(rp_id r \<mapsto> r) \<and> lookup s (rp_id r) = None \<and> named t ns n r
    \<and> (\<forall>i q. lookup s i = Some q \<longrightarrow> \<not> named t ns n q)"
proof -
  from assms(2) obtain i where st: "rs_get_by_name S t ns n s = Inr None" "Repository_new uni uuid now t ns n d p = Inr r"
      "rs_create S r s = (Inr i, s')"
    by (auto simp: service_create_def split: sum.splits option.splits prod.splits)
  have "named t ns n r" using st(2) by (auto simp: Repository_new_def named_def and_then_def split: sum.splits)
  then show ?thesis using create_ok [OF assms(1) st(3)] by_name_None [OF assms(1) st(1)] by blast
qed

lemma delete_undone:
  assumes "s_inv s" "service_delete S G t ns n (s, g) = (Inl e, s', g')"
  shows "s' = s \<and> g' = g"
proof (cases "rs_get_by_name S t ns n s")
  case (Inr ro)
  show ?thesis
  proof (cases ro)
    case (Some r)
    then obtain s1 where "rs_delete S (rp_id r) s = (Inr (), s1)"
      using by_name_Some [OF assms(1)] delete_ok [OF assms(1), of "rp_id r"] Inr by fastforce
    then show ?thesis using assms(2) Inr Some by (simp add: service_delete_def)
  qed (use assms(2) Inr in \<open>simp add: service_delete_def\<close>)
qed (use assms(2) in \<open>simp add: service_delete_def\<close>)

lemma delete_done:
  assumes "s_inv s" "service_delete S G t ns n (s, g) = (Inr u, s', g')"
  shows "\<exists>r. lookup s (rp_id r) = Some r \<and> named t ns n r \<and> s_inv s' \<and> lookup s' = (lookup s)(rp_id r := None)
    \<and> content g' \<in> {content g, (content g)(path t ns n := None)} \<and> (content g (path t ns n) \<noteq> None \<longrightarrow> content g' (path t ns n) = None)"
proof -
  from assms(2) obtain r where r: "rs_get_by_name S t ns n s = Inr (Some r)" and d: "rs_delete S (rp_id r) s = (Inr (), s')"
      and g': "g' = snd (gs_delete G t ns n g)"
    by (auto simp: service_delete_def split: sum.splits option.splits prod.splits)
  note found = by_name_Some [OF assms(1) r]
  then have "s_inv s' \<and> lookup s' = (lookup s)(rp_id r := None)"
    using delete_ok [OF assms(1), of "rp_id r"] d by auto
  then show ?thesis using found delete_dir [of t ns n g] delete_total [of g t ns n] unfolding g' by (metis fun_upd_same)
qed

lemma fork_undone:
  assumes "s_inv s" "service_fork S G uni uuid now t sn sname dn dname (s, g) = (Inl e, s', g')"
  shows "s_inv s' \<and> lookup s' = lookup s \<and>
    (content g' = content g \<or>
     (\<exists>d p. Repository_new uni uuid now t dn dname d p = Inl e) \<and> content g (path t dn dname) = None
       \<and> content g' = (content g)(path t dn dname := content g (path t sn sname)) \<and> content g (path t sn sname) \<noteq> None)"
proof -
  consider "s' = s" "content g' = content g"
    | u d p where "s' = s" "gs_fork G t sn sname t dn dname g = (Inr u, g')" "Repository_new uni uuid now t dn dname d p = Inl e"
    | u r g1 where "gs_fork G t sn sname t dn dname g = (Inr u, g1)" "rs_create S r s = (Inl e, s')"
        "g' = snd (gs_delete G t dn dname g1)"
    using assms(2) fork_err [of t sn sname t dn dname g]
    by (auto simp: service_fork_def Let_def split: sum.splits option.splits prod.splits)
  then show ?thesis
  proof cases
    case 3
    have f: "content g (path t sn sname) \<noteq> None" "content g (path t dn dname) = None"
        "content g1 = (content g)(path t dn dname := content g (path t sn sname))"
      using fork_ok [OF 3(1)] by auto
    then have "content g' = (content g1)(path t dn dname := None)" using delete_total [of g1 t dn dname] 3(3) by simp
    then show ?thesis using create_err [OF assms(1) 3(2)] f by (simp add: fun_upd_idem)
  qed (use assms(1) fork_ok in \<open>simp, blast\<close>)
qed

lemma fork_done:
  assumes "s_inv s" "service_fork S G uni uuid now t sn sname dn dname (s, g) = (Inr r, s', g')"
  shows "s_inv s' \<and> lookup s' = (lookup s)(rp_id r \<mapsto> r) \<and> named t dn dname r
    \<and> (\<exists>src. lookup s (rp_id src) = Some src \<and> named t sn sname src \<and> fork_of r = Some (rp_id src) \<and> is_private r = is_private src)
    \<and> content g (path t dn dname) = None \<and> content g' = (content g)(path t dn dname := content g (path t sn sname))"
proof -
  from assms(2) obtain src u q i where st: "rs_get_by_name S t sn sname s = Inr (Some src)"
      "gs_fork G t sn sname t dn dname g = (Inr u, g')"
      "Repository_new uni uuid now t dn dname (rp_description src) (is_private src) = Inr q"
      "rs_create S r s = (Inr i, s')" "r = q\<lparr>fork_of := Some (rp_id src)\<rparr>"
    by (auto simp: service_fork_def Let_def split: sum.splits option.splits prod.splits)
  have "named t dn dname r" "is_private r = is_private src" "fork_of r = Some (rp_id src)"
    using st(3,5) by (auto simp: Repository_new_def named_def and_then_def split: sum.splits)
  then show ?thesis using create_ok [OF assms(1) st(4)] by_name_Some [OF assms(1) st(1)] fork_ok [OF st(2)] by blast
qed

lemma transfer_undone:
  assumes "s_inv s" "service_transfer S G now t ns n new_ns (s, g) = (Inl e, s', g')"
  shows "s_inv s' \<and> lookup s' = lookup s \<and> content g' = content g"
proof -
  consider "s' = s" "content g' = content g"
    | u and r :: Repository and g1 where "gs_transfer G t ns n new_ns g = (Inr u, g1)" "rs_transfer S now (rp_id r) new_ns s = (Inl e, s')"
        "g' = snd (gs_transfer G t new_ns n ns g1)"
    using assms(2) transfer_dir_err [of t ns n new_ns g]
    by (auto simp: service_transfer_def split: sum.splits option.splits prod.splits if_splits)
  then show ?thesis
  proof cases
    case 2
    let ?a = "path t ns n" and ?b = "path t new_ns n"
    have f: "content g ?a \<noteq> None" "content g ?b = None" "content g1 = (content g)(?a := None, ?b := content g ?a)"
      using transfer_dir_ok [OF 2(1)] by auto
    then have "?a \<noteq> ?b" by auto
    then obtain g2 where g2: "gs_transfer G t new_ns n ns g1 = (Inr (), g2)"
      using transfer_total [of g1 t new_ns n ns] f by auto
    have "content g2 = (content g1)(?b := None, ?a := content g1 ?b)" using transfer_dir_ok [OF g2] by simp
    then have "content g2 = content g" using f \<open>?a \<noteq> ?b\<close> by (auto simp: fun_eq_iff)
    then show ?thesis using transfer_err [OF assms(1) 2(2)] 2(3) g2 by simp
  qed (use assms(1) in simp)
qed

lemma transfer_done:
  assumes "s_inv s" "service_transfer S G now t ns n new_ns (s, g) = (Inr r, s', g')"
  shows "s_inv s' \<and> ns \<noteq> new_ns \<and> lookup s' = (lookup s)(rp_id r \<mapsto> r\<lparr>rp_updated_at := now\<rparr>) \<and> named t new_ns n r
    \<and> content g (path t new_ns n) = None
    \<and> content g' = (content g)(path t ns n := None, path t new_ns n := content g (path t ns n))"
proof -
  from assms(2) obtain q u v where st: "rs_get_by_name S t ns n s = Inr (Some q)" "rp_namespace q \<noteq> new_ns"
      "gs_transfer G t ns n new_ns g = (Inr u, g')" "rs_transfer S now (rp_id q) new_ns s = (Inr v, s')"
      "r = q\<lparr>rp_namespace := new_ns\<rparr>"
    by (auto simp: service_transfer_def split: sum.splits option.splits prod.splits if_splits)
  note q = by_name_Some [OF assms(1) st(1)]
  have "lookup s' = (lookup s)(rp_id q \<mapsto> q\<lparr>rp_namespace := new_ns, rp_updated_at := now\<rparr>)" "s_inv s'"
    using transfer_ok [OF assms(1) st(4)] q by auto
  then show ?thesis using q st(2,5) transfer_dir_ok [OF st(3)] by (auto simp: named_def)
qed

end


section \<open>The in-memory store and the filesystem storage keep the contracts\<close>

definition repos_ok :: "MemoryRepositoryStore \<Rightarrow> bool" where
  "repos_ok s = keyed rp_id rp_id s"

lemma find_named: "repos_ok s \<Longrightarrow> List.find (named t ns n) (tbl_values s) = Some r \<Longrightarrow> tbl_get s (rp_id r) = Some r \<and> named t ns n r"
proof -
  assume ok: "repos_ok s" and f: "List.find (named t ns n) (tbl_values s) = Some r"
  then have "r \<in> set (tbl_values s)" "named t ns n r" by (auto simp: find_Some_iff)
  then obtain i where "(i, r) \<in> set s" by auto
  moreover then have "rp_id r = i" using ok by (auto simp: repos_ok_def keyed_def)
  ultimately show ?thesis using ok \<open>named t ns n r\<close> by (simp add: repos_ok_def keyed_get)
qed

lemma find_no_named: "List.find (named t ns n) (tbl_values s) = None \<Longrightarrow> tbl_get s i = Some r \<Longrightarrow> \<not> named t ns n r"
  by (force simp: find_None_iff dest: map_of_SomeD)

lemma repos_ok_insert: "repos_ok s \<Longrightarrow> rp_id r = i \<Longrightarrow> repos_ok (tbl_insert i r s)"
  unfolding repos_ok_def using keyed_insert [of rp_id rp_id s r] by (force simp: keyed_def)

lemma repos_ok_id: "repos_ok s \<Longrightarrow> tbl_get s i = Some r \<Longrightarrow> rp_id r = i"
  by (auto simp: repos_ok_def keyed_def dest: map_of_SomeD)

interpretation memr: repository_store memory_repository_store repos_ok tbl_get
proof
  fix s s' :: MemoryRepositoryStore and t ns n i now and r :: Repository and e and u :: unit and j
  assume ok: "repos_ok s"
  show "rs_get_by_name memory_repository_store t ns n s = Inr (Some r) \<Longrightarrow> tbl_get s (rp_id r) = Some r \<and> named t ns n r"
    using find_named [OF ok] by (simp add: memory_repository_store_def get_repository_by_name_def)
  show "rs_get_by_name memory_repository_store t ns n s = Inr None \<Longrightarrow> tbl_get s i = Some r \<Longrightarrow> \<not> named t ns n r"
    using find_no_named by (simp add: memory_repository_store_def get_repository_by_name_def)
  show "rs_create memory_repository_store r s = (Inr j, s') \<Longrightarrow>
      repos_ok s' \<and> tbl_get s (rp_id r) = None \<and> tbl_get s' = (tbl_get s)(rp_id r \<mapsto> r)"
    using repos_ok_insert [OF ok, of r "rp_id r"]
    by (auto simp: memory_repository_store_def create_repository_def update_conv' split: if_splits)
  show "rs_create memory_repository_store r s = (Inl e, s') \<Longrightarrow> repos_ok s' \<and> tbl_get s' = tbl_get s"
    using ok by (auto simp: memory_repository_store_def create_repository_def split: if_splits)
  show "tbl_get s i \<noteq> None \<Longrightarrow>
      \<exists>s'. rs_delete memory_repository_store i s = (Inr (), s') \<and> repos_ok s' \<and> tbl_get s' = (tbl_get s)(i := None)"
    using ok by (auto simp: memory_repository_store_def delete_repository_def repos_ok_def keyed_remove delete_conv')
  show "rs_transfer memory_repository_store now i ns s = (Inr u, s') \<Longrightarrow> repos_ok s' \<and>
      (\<exists>r. tbl_get s i = Some r \<and> tbl_get s' = (tbl_get s)(i \<mapsto> r\<lparr>rp_namespace := ns, rp_updated_at := now\<rparr>))"
    using ok by (auto simp: memory_repository_store_def transfer_repository_def update_conv' repos_ok_id
        intro!: repos_ok_insert split: option.splits)
  show "rs_transfer memory_repository_store now i ns s = (Inl e, s') \<Longrightarrow> repos_ok s' \<and> tbl_get s' = tbl_get s"
    using ok by (auto simp: memory_repository_store_def transfer_repository_def split: option.splits)
qed

lemmas storage_defs = filesystem_storage_def storage_result_def fork_repo_def transfer_repo_def delete_repo_def Let_def

interpretation fsg: git_storage "filesystem_storage base F" tbl_get "repo_path base" for base F
  by unfold_locales
    (auto simp: storage_defs update_conv' delete_conv' split: option.splits if_splits prod.splits sum.splits)

text \<open>The calls of \<open>F\<close> with removing, renaming and creating a parent directory never failing.\<close>

definition reliable_calls :: "FsCalls \<Rightarrow> FsCalls" where
  "reliable_calls F = F\<lparr>fs_create_dir_all := \<lambda>_. None, fs_remove_dir_all := \<lambda>_. None, fs_rename := \<lambda>_ _. None\<rparr>"

interpretation rfsg: reliable_git_storage "filesystem_storage base (reliable_calls F)" tbl_get "repo_path base" for base F
  by unfold_locales
    (auto simp: storage_defs reliable_calls_def delete_conv' split: option.splits)

interpretation memrfs: repository_service memory_repository_store repos_ok tbl_get "filesystem_storage base (reliable_calls F)" tbl_get "repo_path base" for base F
  by unfold_locales


lemma create_tag_twice:
  "create_tag base dbg git_tag t ns n tag sha fs tags = (Inr (), tags') \<Longrightarrow>
     create_tag base dbg git_tag' t ns n tag sha' fs tags' = (Inr (), tags')"
  by (auto simp: create_tag_def update_conv' split: sum.splits option.splits if_splits)

lemma service_of_store:
  "repository_store S s_inv lookup \<Longrightarrow>
     repository_service S s_inv lookup (filesystem_storage base (reliable_calls F)) tbl_get (repo_path base)"
  by (rule repository_service.intro [OF _ rfsg.reliable_git_storage_axioms])


text \<open>A store whose transfers fail, as a database may.\<close>

definition failing_store :: "MemoryRepositoryStore RepositoryStore" where
  "failing_store = memory_repository_store\<lparr>rs_transfer := \<lambda>_ _ _ s. (Inl (Storage ''database is locked''), s)\<rparr>"

interpretation failing: repository_store failing_store repos_ok tbl_get
proof
  have eqs: "rs_get_by_name failing_store = rs_get_by_name memory_repository_store"
      "rs_create failing_store = rs_create memory_repository_store" "rs_delete failing_store = rs_delete memory_repository_store"
    by (simp_all add: failing_store_def)
  fix s s' :: MemoryRepositoryStore and r :: Repository and t ns n i e
  assume ok: "repos_ok s"
  show "rs_get_by_name failing_store t ns n s = Inr (Some r) \<Longrightarrow> tbl_get s (rp_id r) = Some r \<and> named t ns n r"
    unfolding eqs by (rule memr.by_name_Some [OF ok])
  show "rs_get_by_name failing_store t ns n s = Inr None \<Longrightarrow> tbl_get s i = Some r \<Longrightarrow> \<not> named t ns n r"
    unfolding eqs by (rule memr.by_name_None [OF ok])
  show "rs_create failing_store r s = (Inr i, s') \<Longrightarrow>
      repos_ok s' \<and> tbl_get s (rp_id r) = None \<and> tbl_get s' = (tbl_get s)(rp_id r \<mapsto> r)"
    unfolding eqs by (rule memr.create_ok [OF ok])
  show "rs_create failing_store r s = (Inl e, s') \<Longrightarrow> repos_ok s' \<and> tbl_get s' = tbl_get s"
    unfolding eqs by (rule memr.create_err [OF ok])
  show "tbl_get s i \<noteq> None \<Longrightarrow> \<exists>s'. rs_delete failing_store i s = (Inr (), s') \<and> repos_ok s' \<and> tbl_get s' = (tbl_get s)(i := None)"
    unfolding eqs by (rule memr.delete_ok [OF ok])
qed (simp_all add: failing_store_def)

definition all_calls_succeed :: FsCalls where
  "all_calls_succeed = \<lparr>fs_create_dir_all = \<lambda>_. None, fs_git_init = \<lambda>_. None, fs_remove_dir_all = \<lambda>_. None,
     fs_git_clone = \<lambda>_ _. None, fs_rename = \<lambda>_ _. None\<rparr>"

definition sample_storage :: "GitFs GitStorage" where
  "sample_storage = filesystem_storage ''/srv'' (reliable_calls all_calls_succeed)"

lemmas sample_storage_defs = sample_storage_def reliable_calls_def all_calls_succeed_def storage_defs path_join_def repo_path_def
  starts_with_def ends_with_def


end
