(* ===== verification/Git_Http.thy ===== *)
theory Git_Http
  imports Git_Repos
begin

text \<open>
  The HTTP front of the git service: extracting a token from the \<open>Authorization\<close> header
  (\<open>muli-core/src/auth.rs\<close>, \<open>token_hash.rs\<close>), the tenant and authentication middlewares
  (\<open>muli-git/src/tenant.rs\<close>, \<open>auth.rs\<close>), the helpers and the repository, fork and token endpoints of the
  REST API (\<open>muli-git/src/api/\<close>) and the router that composes them.

  Parameters: the base64 decoder, the Argon2 verification, the percent-decoding of path segments by the
  router, the clock and the UUIDs. A header is absent also when its value is not visible ASCII. A response is
  its status with the error message or the repository that is rendered.
\<close>

section \<open>Tokens of a request\<close>

definition ascii_lower :: "char \<Rightarrow> char" where
  "ascii_lower c = (if 65 \<le> (of_char c :: nat) \<and> (of_char c :: nat) \<le> 90 then char_of ((of_char c :: nat) + 32) else c)"

definition eq_ignore_ascii_case :: "string \<Rightarrow> string \<Rightarrow> bool" where
  "eq_ignore_ascii_case a b = (map ascii_lower a = map ascii_lower b)"

definition extract_bearer_token :: "string option \<Rightarrow> string option" where
  "extract_bearer_token authorization =
     Option.bind authorization (\<lambda>v.
       if 7 < length v \<and> eq_ignore_ascii_case (take 7 v) ''Bearer '' then Some (drop 7 v) else None)"

definition extract_basic_auth_token :: "(string \<Rightarrow> string option) \<Rightarrow> string option \<Rightarrow> string option" where
  "extract_basic_auth_token decode authorization =
     Option.bind authorization (\<lambda>header.
       if 6 < length header \<and> eq_ignore_ascii_case (take 6 header) ''Basic '' then
         Option.bind (decode (drop 6 header)) (\<lambda>decoded.
           if \<not> valid_utf8 decoded then None
           else case split_once decoded '':'' of None \<Rightarrow> None
           | Some (_, token) \<Rightarrow> if token = [] then None else Some token)
       else None)"

definition extract_raw_token :: "string option \<Rightarrow> string option" where
  "extract_raw_token authorization =
     Option.bind authorization (\<lambda>v.
       if 7 \<le> length v \<and> eq_ignore_ascii_case (take 7 v) ''bearer '' then None
       else if 6 \<le> length v \<and> eq_ignore_ascii_case (take 6 v) ''basic '' then None
       else Some (trim v))"

definition extract_any_token :: "(string \<Rightarrow> string option) \<Rightarrow> string option \<Rightarrow> string option" where
  "extract_any_token decode authorization =
     (case extract_bearer_token authorization of Some token \<Rightarrow> Some token
      | None \<Rightarrow> (case extract_basic_auth_token decode authorization of Some token \<Rightarrow> Some token
                | None \<Rightarrow> extract_raw_token authorization))"

definition TOKEN_PREFIX_LEN :: nat where
  "TOKEN_PREFIX_LEN = 16"

definition token_prefix :: "string \<Rightarrow> string" where
  "token_prefix plaintext = concat (take TOKEN_PREFIX_LEN (str_chars plaintext))"

section \<open>Tenants\<close>

record TenantConfig =
  base_domain :: string
  default_tenant :: "string option"

datatype HttpResponse =
    Error_response nat string
  | Status nat
  | Repo_response nat Repository
  | Repos_response "Repository list"
  | Token_response string "GitPermission list"

definition validate_tenant_slug :: "string \<Rightarrow> bool" where
  "validate_tenant_slug slug =
     (if slug = [] \<or> 63 < length slug then False
      else if starts_with slug ''-'' \<or> ends_with slug ''-'' then False
      else list_all (\<lambda>b. is_ascii_alphanumeric b \<or> b = CHR ''-'') slug)"

definition extract_tenant_slug :: "string \<Rightarrow> string \<Rightarrow> string option" where
  "extract_tenant_slug host domain =
     (let host_no_port = hd (split_char CHR '':'' host) in
      case strip_suffix host_no_port (''.'' @ domain) of None \<Rightarrow> None
      | Some slug \<Rightarrow> if slug \<noteq> [] \<and> CHR ''.'' \<notin> set slug then Some slug else None)"

definition is_tenant_optional_path :: "string \<Rightarrow> bool" where
  "is_tenant_optional_path path = (path = ''/-/health'')"

text \<open>The response, or the tenant context that is handed on.\<close>

definition tenant_middleware :: "TenantConfig option \<Rightarrow> string \<Rightarrow> string option \<Rightarrow> HttpResponse + string option" where
  "tenant_middleware config path host =
     (if is_tenant_optional_path path then Inr None
      else case config of None \<Rightarrow> Inl (Status 500)
      | Some c \<Rightarrow>
        case (case extract_tenant_slug (case host of None \<Rightarrow> [] | Some h \<Rightarrow> h) (base_domain c) of
                Some s \<Rightarrow> Some s | None \<Rightarrow> default_tenant c) of
          None \<Rightarrow> Inl (Error_response 400 ''missing or invalid tenant subdomain'')
        | Some slug \<Rightarrow> if \<not> validate_tenant_slug slug then Inl (Error_response 400 ''invalid tenant slug'') else Inr (Some slug))"

section \<open>Helpers of the API\<close>

definition strip_git_suffix :: "string \<Rightarrow> string" where
  "strip_git_suffix name = (case strip_suffix name ''.git'' of Some n \<Rightarrow> n | None \<Rightarrow> name)"

fun domain_err_to_http :: "MuliError \<Rightarrow> HttpResponse" where
  "domain_err_to_http (NotFound msg) = Error_response 404 msg"
| "domain_err_to_http (Conflict msg) = Error_response 409 msg"
| "domain_err_to_http (Validation msg) = Error_response 400 msg"
| "domain_err_to_http (PermissionDenied msg) = Error_response 403 msg"
| "domain_err_to_http _ = Error_response 500 ''internal error''"

definition git_validate_path_component :: "string \<Rightarrow> bool" where
  "git_validate_path_component s \<longleftrightarrow> s \<noteq> [] \<and> length s \<le> 255 \<and> s \<noteq> ''..'' \<and> s \<noteq> ''.''
     \<and> CHR ''/'' \<notin> set s \<and> CHR 0x5C \<notin> set s \<and> CHR 0x00 \<notin> set s \<and> \<not> contains_sub s ''..''
     \<and> \<not> starts_with s ''-'' \<and> \<not> ends_with s ''-'' \<and> \<not> list_ex (\<lambda>w. contains_sub s w) white_space"

definition validate_ref_name :: "string \<Rightarrow> bool" where
  "validate_ref_name name \<longleftrightarrow> name \<noteq> [] \<and> length name \<le> 255 \<and> \<not> starts_with name ''.'' \<and> \<not> starts_with name ''-''
     \<and> \<not> ends_with name ''.'' \<and> \<not> ends_with name ''.lock''
     \<and> \<not> list_ex (contains_sub name) [''..'', ''~'', ''^'', '':'', ''?'', ''*'', ''['', [CHR 0x5C], [CHR 0x00], [CHR ''@'', CHR 0x7B]]
     \<and> \<not> list_ex (\<lambda>c. (of_char c :: nat) < 32 \<or> (of_char c :: nat) = 127 \<or> c = CHR '' '') name"

definition resolve_repo :: "'s RepositoryStore \<Rightarrow> string \<Rightarrow> string \<Rightarrow> string \<Rightarrow> 's \<Rightarrow> HttpResponse + Repository" where
  "resolve_repo S tenant ns raw s =
     (case rs_get_by_name S tenant ns (strip_git_suffix raw) s of
        Inr (Some repo) \<Rightarrow> Inr repo
      | Inr None \<Rightarrow> Inl (Error_response 404 ''repository not found'')
      | Inl _ \<Rightarrow> Inl (Error_response 500 ''internal error''))"

definition resolve_repo_full :: "'s RepositoryStore \<Rightarrow> 'g GitStorage \<Rightarrow> string \<Rightarrow> string \<Rightarrow> string \<Rightarrow> 's \<Rightarrow> HttpResponse + string \<times> string \<times> string" where
  "resolve_repo_full S G tenant ns raw s =
     (let repo_name = strip_git_suffix raw in
      case resolve_repo S tenant ns raw s of Inl r \<Rightarrow> Inl r
      | Inr repo \<Rightarrow> Inr (rp_id repo, repo_name, gs_repo_path G tenant ns repo_name))"

section \<open>Authentication\<close>

datatype Method = GET | HEAD | POST | PUT | PATCH | DELETE | OtherMethod string

record 't GitTokenStore =
  gt_create :: "GitToken \<Rightarrow> 't \<Rightarrow> string result \<times> 't"
  gt_by_prefix :: "datetime \<Rightarrow> string \<Rightarrow> 't \<Rightarrow> GitToken option result"
  gt_by_id :: "string \<Rightarrow> 't \<Rightarrow> GitToken option result"
  gt_list :: "string \<Rightarrow> 't \<Rightarrow> GitToken list result"
  gt_list_by_user :: "string \<Rightarrow> string \<Rightarrow> 't \<Rightarrow> GitToken list result"
  gt_revoke :: "string \<Rightarrow> 't \<Rightarrow> unit result \<times> 't"
  gt_delete_expired :: "datetime \<Rightarrow> 't \<Rightarrow> nat result \<times> 't"
  gt_set_expiry :: "string \<Rightarrow> datetime \<Rightarrow> 't \<Rightarrow> unit result \<times> 't"

definition memory_token_store :: "MemoryGitTokenStore GitTokenStore" where
  "memory_token_store = \<lparr>gt_create = create_token, gt_by_prefix = get_token_by_prefix, gt_by_id = get_token_by_id,
     gt_list = list_tokens, gt_list_by_user = list_tokens_by_user, gt_revoke = revoke_token,
     gt_delete_expired = delete_expired_tokens, gt_set_expiry = set_token_expiry\<rparr>"

text \<open>The configured stores; the collaborator and organization stores by their lookups.\<close>

record ('s, 't) GitAuth =
  ga_tokens :: "'t GitTokenStore"
  ga_repos :: "'s RepositoryStore option"
  ga_collaborators :: "(string \<Rightarrow> string \<Rightarrow> RepositoryCollaborator option result) option"
  ga_orgs :: "(string \<Rightarrow> string \<Rightarrow> Organization option result) option"
  ga_members :: "(string \<Rightarrow> string \<Rightarrow> OrgMember option result) option"
  anonymous_pull :: bool

definition GitAuth_new :: "'t GitTokenStore \<Rightarrow> ('s, 't) GitAuth" where
  "GitAuth_new T = \<lparr>ga_tokens = T, ga_repos = None, ga_collaborators = None, ga_orgs = None, ga_members = None, anonymous_pull = False\<rparr>"

definition required_permission :: "Method \<Rightarrow> string \<Rightarrow> string option \<Rightarrow> GitPermission" where
  "required_permission method path query =
     (if ends_with path ''/info/refs'' then
        (if contains_sub (case query of None \<Rightarrow> [] | Some q \<Rightarrow> q) ''git-receive-pack'' then Push else Pull)
      else if ends_with path ''/git-receive-pack'' then Push
      else if ends_with path ''/git-upload-pack'' then Pull
      else (case method of GET \<Rightarrow> Pull | HEAD \<Rightarrow> Pull | DELETE \<Rightarrow> Admin | _ \<Rightarrow> Push))"

text \<open>\<open>str::splitn\<close> on a character, and \<open>str::trim_end_matches\<close> on a text, which strips it repeatedly.\<close>

fun splitn :: "nat \<Rightarrow> char \<Rightarrow> string \<Rightarrow> string list" where
  "splitn 0 c s = []"
| "splitn (Suc 0) c s = [s]"
| "splitn (Suc (Suc n)) c s = (case split_once s [c] of None \<Rightarrow> [s] | Some (a, b) \<Rightarrow> a # splitn (Suc n) c b)"

function trim_end_text :: "string \<Rightarrow> string \<Rightarrow> string" where
  "trim_end_text p s = (if p = [] then s else (case strip_suffix s p of None \<Rightarrow> s | Some r \<Rightarrow> trim_end_text p r))"
  by pat_completeness auto
termination
  by (relation "measure (\<lambda>(p, s). length s)") (auto simp: strip_suffix_Some)

declare trim_end_text.simps [simp del]

definition extract_repo_from_path :: "string \<Rightarrow> (string \<times> string) option" where
  "extract_repo_from_path path =
     (case (case strip_prefix path ''/api/v1/repos/'' of None \<Rightarrow> None
            | Some rest \<Rightarrow> (case splitn 3 CHR ''/'' rest of a # b # _ \<Rightarrow> Some (a, b) | _ \<Rightarrow> None)) of
        Some r \<Rightarrow> Some r
      | None \<Rightarrow> (case splitn 3 CHR ''/'' (dropWhile (\<lambda>c. c = CHR ''/'') path) of
                  a # b # _ \<Rightarrow> Some (a, trim_end_text ''.git'' b) | _ \<Rightarrow> None))"

definition unauthorized_response :: HttpResponse where
  "unauthorized_response = Error_response 401 ''authentication required''"

definition forbidden_response :: "string \<Rightarrow> HttpResponse" where
  "forbidden_response msg = Error_response 403 msg"

text \<open>The token that matches the plaintext of the request.\<close>

definition verified_token :: "(string \<Rightarrow> string \<Rightarrow> bool) \<Rightarrow> 't GitTokenStore \<Rightarrow> datetime \<Rightarrow> string \<Rightarrow> 't \<Rightarrow> GitToken option" where
  "verified_token verify T now plaintext ts =
     (case gt_by_prefix T now (token_prefix plaintext) ts of
        Inr (Some t) \<Rightarrow> if verify plaintext (token_hash t) then Some t else None
      | _ \<Rightarrow> None)"

definition authenticate :: "(string \<Rightarrow> string option) \<Rightarrow> (string \<Rightarrow> string \<Rightarrow> bool) \<Rightarrow> datetime \<Rightarrow> ('s, 't) GitAuth \<Rightarrow> string option \<Rightarrow> Method \<Rightarrow> string \<Rightarrow> string option \<Rightarrow> string option \<Rightarrow> 't \<Rightarrow> HttpResponse + GitToken option" where
  "authenticate decode verify now A ctx method path query authorization ts =
     (if anonymous_pull A \<and> method \<in> {GET, HEAD} then
        Inr (Option.bind (extract_any_token decode authorization) (\<lambda>p. verified_token verify (ga_tokens A) now p ts))
      else case extract_any_token decode authorization of None \<Rightarrow> Inl unauthorized_response
      | Some plaintext \<Rightarrow>
        case verified_token verify (ga_tokens A) now plaintext ts of None \<Rightarrow> Inl unauthorized_response
        | Some token \<Rightarrow>
          if \<not> GitToken_is_valid now token then Inl unauthorized_response
          else if (case ctx of None \<Rightarrow> False | Some tenant \<Rightarrow> tok_tenant_id token \<noteq> tenant)
          then Inl (forbidden_response ''token does not belong to this tenant'')
          else if \<not> has_permission (tok_permissions token) (required_permission method path query)
          then Inl (forbidden_response ''insufficient permissions'')
          else Inr (Some token))"

definition token_user :: "GitToken option \<Rightarrow> string option" where
  "token_user token = Option.bind (Option.bind token tok_user_id) (\<lambda>uid. if uid = [] then None else Some uid)"

text \<open>The response, or the authenticated user that is handed on.\<close>

definition auth_middleware :: "(string \<Rightarrow> string option) \<Rightarrow> (string \<Rightarrow> string \<Rightarrow> bool) \<Rightarrow> datetime \<Rightarrow> ('s, 't) GitAuth option \<Rightarrow> string option \<Rightarrow> Method \<Rightarrow> string \<Rightarrow> string option \<Rightarrow> string option \<Rightarrow> 's \<Rightarrow> 't \<Rightarrow> HttpResponse + string option" where
  "auth_middleware decode verify now auth ctx method path query authorization s ts =
     (if path = ''/-/health'' then Inr None
      else case auth of None \<Rightarrow> Inr None
      | Some A \<Rightarrow>
        case authenticate decode verify now A ctx method path query authorization ts of Inl r \<Rightarrow> Inl r
        | Inr token \<Rightarrow>
          let tenant = (case ctx of None \<Rightarrow> [] | Some t \<Rightarrow> t);
              verdict =
                (case (ga_repos A, ga_collaborators A, extract_repo_from_path path) of
                   (Some S, Some get_collab, Some (ns, name)) \<Rightarrow>
                     if tenant = [] then Allowed
                     else (case rs_get_by_name S tenant ns name s of
                       Inr (Some repo) \<Rightarrow>
                         let required = required_permission method path query in
                         if required = Pull \<and> Option.bind token tok_repo_id = Some (rp_id repo) then Allowed
                         else check_repo_access_with_org_lookup repo (Option.bind token tok_user_id) required get_collab
                                (ga_orgs A) (ga_members A) tenant
                     | _ \<Rightarrow> Allowed)
                 | _ \<Rightarrow> Allowed)
          in case verdict of Denied reason \<Rightarrow> Inl (forbidden_response reason) | Allowed \<Rightarrow> Inr (token_user token))"

section \<open>Endpoints\<close>

record ('s, 'g, 't) GitState =
  gst_repos :: 's
  gst_dirs :: 'g
  gst_tokens :: 't

record ('s, 'g, 't) GitApp =
  app_repos :: "'s RepositoryStore"
  app_storage :: "'g GitStorage"
  app_tokens :: "'t GitTokenStore"
  app_tenant :: TenantConfig
  app_auth :: "('s, 't) GitAuth option"

text \<open>What the environment supplies while a request is served.\<close>

record HttpEnv =
  env_base64 :: "string \<Rightarrow> string option"
  env_verify :: "string \<Rightarrow> string \<Rightarrow> bool"
  env_percent_decode :: "string \<Rightarrow> string"
  env_alphanumeric :: "string \<Rightarrow> bool"
  env_now :: datetime
  env_uuid :: string

definition service_response :: "nat \<Rightarrow> Repository result \<times> 's \<times> 'g \<Rightarrow> ('s, 'g, 't) GitState \<Rightarrow> HttpResponse \<times> ('s, 'g, 't) GitState" where
  "service_response status r st =
     (case r of (Inr repo, s, g) \<Rightarrow> (Repo_response status repo, st\<lparr>gst_repos := s, gst_dirs := g\<rparr>)
      | (Inl e, s, g) \<Rightarrow> (domain_err_to_http e, st\<lparr>gst_repos := s, gst_dirs := g\<rparr>))"

definition api_create_repo :: "('s, 'g, 't) GitApp \<Rightarrow> HttpEnv \<Rightarrow> string \<Rightarrow> string \<Rightarrow> string \<Rightarrow> string option \<Rightarrow> bool option \<Rightarrow> ('s, 'g, 't) GitState \<Rightarrow> HttpResponse \<times> ('s, 'g, 't) GitState" where
  "api_create_repo app env tenant ns name description private st =
     (if \<not> git_validate_path_component ns \<or> \<not> git_validate_path_component name then (Error_response 400 ''invalid namespace or name'', st)
      else service_response 201
        (service_create (app_repos app) (app_storage app) (env_alphanumeric env) (env_uuid env) (env_now env) tenant ns name
           (case description of None \<Rightarrow> [] | Some d \<Rightarrow> d) (case private of None \<Rightarrow> False | Some p \<Rightarrow> p) (gst_repos st, gst_dirs st)) st)"

definition api_delete_repo :: "('s, 'g, 't) GitApp \<Rightarrow> string \<Rightarrow> string \<Rightarrow> string \<Rightarrow> ('s, 'g, 't) GitState \<Rightarrow> HttpResponse \<times> ('s, 'g, 't) GitState" where
  "api_delete_repo app tenant ns name st =
     (case service_delete (app_repos app) (app_storage app) tenant ns name (gst_repos st, gst_dirs st) of
        (Inr _, s, g) \<Rightarrow> (Status 204, st\<lparr>gst_repos := s, gst_dirs := g\<rparr>)
      | (Inl e, s, g) \<Rightarrow> (domain_err_to_http e, st\<lparr>gst_repos := s, gst_dirs := g\<rparr>))"

definition api_transfer_repo :: "('s, 'g, 't) GitApp \<Rightarrow> HttpEnv \<Rightarrow> string \<Rightarrow> string \<Rightarrow> string \<Rightarrow> string \<Rightarrow> ('s, 'g, 't) GitState \<Rightarrow> HttpResponse \<times> ('s, 'g, 't) GitState" where
  "api_transfer_repo app env tenant ns raw new_ns st =
     (let name = (case strip_suffix raw ''.git'' of Some n \<Rightarrow> n | None \<Rightarrow> raw) in
      if \<not> git_validate_path_component new_ns then (Error_response 400 ''invalid new_namespace'', st)
      else service_response 200
        (service_transfer (app_repos app) (app_storage app) (env_now env) tenant ns name new_ns (gst_repos st, gst_dirs st)) st)"

definition api_list_repos :: "('s, 'g, 't) GitApp \<Rightarrow> string \<Rightarrow> ('s, 'g, 't) GitState \<Rightarrow> HttpResponse" where
  "api_list_repos app tenant st =
     (case rs_list (app_repos app) tenant (gst_repos st) of
        Inr repos \<Rightarrow> Repos_response repos | Inl _ \<Rightarrow> Error_response 500 ''failed to list repositories'')"

definition api_fork_repo :: "('s, 'g, 't) GitApp \<Rightarrow> HttpEnv \<Rightarrow> string \<Rightarrow> string \<Rightarrow> string \<Rightarrow> string \<Rightarrow> string option \<Rightarrow> ('s, 'g, 't) GitState \<Rightarrow> HttpResponse \<times> ('s, 'g, 't) GitState" where
  "api_fork_repo app env tenant ns raw dest_ns dest_name_opt st =
     (let dest_name = (case dest_name_opt of Some n \<Rightarrow> n | None \<Rightarrow> strip_git_suffix raw) in
      if \<not> git_validate_path_component dest_ns \<or> \<not> git_validate_path_component dest_name
      then (Error_response 400 ''invalid destination namespace or name'', st)
      else service_response 201
        (service_fork (app_repos app) (app_storage app) (env_alphanumeric env) (env_uuid env) (env_now env) tenant ns
           (strip_git_suffix raw) dest_ns dest_name (gst_repos st, gst_dirs st)) st)"

definition parse_permission :: "string \<Rightarrow> GitPermission option" where
  "parse_permission p =
     (if p = ''pull'' then Some Pull else if p = ''push'' then Some Push else if p = ''admin'' then Some Admin else None)"

definition api_create_token :: "('s, 'g, 't) GitApp \<Rightarrow> HttpEnv \<Rightarrow> string \<Rightarrow> string \<Rightarrow> string \<Rightarrow> string \<Rightarrow> string list \<Rightarrow> ('s, 'g, 't) GitState \<Rightarrow> HttpResponse \<times> ('s, 'g, 't) GitState" where
  "api_create_token app env tenant hash pre description requested st =
     (let parsed = List.map_filter parse_permission requested;
          permissions = (if parsed = [] then [Pull, Push] else parsed);
          token = GitToken_new (env_uuid env) (env_now env) tenant hash pre permissions description None in
      case gt_create (app_tokens app) token (gst_tokens st) of
        (Inl _, t) \<Rightarrow> (Status 500, st\<lparr>gst_tokens := t\<rparr>)
      | (Inr tid, t) \<Rightarrow> (Token_response tid permissions, st\<lparr>gst_tokens := t\<rparr>))"

definition api_revoke_token :: "('s, 'g, 't) GitApp \<Rightarrow> string \<Rightarrow> string \<Rightarrow> ('s, 'g, 't) GitState \<Rightarrow> HttpResponse \<times> ('s, 'g, 't) GitState" where
  "api_revoke_token app tenant tid st =
     (case gt_by_id (app_tokens app) tid (gst_tokens st) of Inl _ \<Rightarrow> (Status 500, st)
      | Inr token \<Rightarrow>
        if \<not> (case token of Some t \<Rightarrow> tok_tenant_id t = tenant | None \<Rightarrow> False) then (Status 404, st)
        else (case gt_revoke (app_tokens app) tid (gst_tokens st) of
                (Inl _, t) \<Rightarrow> (Status 500, st\<lparr>gst_tokens := t\<rparr>)
              | (Inr _, t) \<Rightarrow> (Status 204, st\<lparr>gst_tokens := t\<rparr>)))"

text \<open>
  The router, on the routes of the endpoints above. The body of a request is the value the JSON reader
  returns; a body of another kind is rejected by the reader. A route parameter is a non-empty path
  segment, percent-decoded. Everything else is the answer of the remaining routes, an argument.\<close>

datatype Body =
    NoBody
  | CreateRepoRequest string string "string option" "bool option"
  | TransferRepoRequest string
  | ForkRequest string "string option"
  | CreateTokenRequest string string string "string list"

record GitRequest =
  req_method :: Method
  req_path :: string
  req_query :: "string option"
  req_host :: "string option"
  req_authorization :: "string option"
  req_body :: Body

type_synonym ('s, 'g, 't) handler = "string \<Rightarrow> string option \<Rightarrow> GitRequest \<Rightarrow> ('s, 'g, 't) GitState \<Rightarrow> HttpResponse \<times> ('s, 'g, 't) GitState"

definition segments :: "string \<Rightarrow> string list" where
  "segments path = split_char CHR ''/'' path"

definition route :: "('s, 'g, 't) GitApp \<Rightarrow> HttpEnv \<Rightarrow> ('s, 'g, 't) handler \<Rightarrow> ('s, 'g, 't) handler" where
  "route app env others tenant user req st =
     (let pd = env_percent_decode env; segs = segments (req_path req); mt = req_method req in
      if take 3 segs = [[], ''api'', ''v1''] \<and> [] \<notin> set (drop 3 segs) then
        (case (drop 3 segs, mt, req_body req) of
           ([a], POST, CreateRepoRequest ns name d p) \<Rightarrow>
             if a = ''repos'' then api_create_repo app env tenant ns name d p st else others tenant user req st
         | ([a], GET, _) \<Rightarrow>
             if a = ''repos'' then (api_list_repos app tenant st, st) else others tenant user req st
         | ([a], POST, CreateTokenRequest hash pre d ps) \<Rightarrow>
             if a = ''tokens'' then api_create_token app env tenant hash pre d ps st else others tenant user req st
         | ([a, tid], DELETE, _) \<Rightarrow>
             if a = ''tokens'' then api_revoke_token app tenant (pd tid) st else others tenant user req st
         | ([a, ns, raw], DELETE, _) \<Rightarrow>
             if a = ''repos'' then api_delete_repo app tenant (pd ns) (pd raw) st else others tenant user req st
         | ([a, ns, raw, op], POST, TransferRepoRequest new_ns) \<Rightarrow>
             if a = ''repos'' \<and> op = ''transfer'' then api_transfer_repo app env tenant (pd ns) (pd raw) new_ns st
             else others tenant user req st
         | ([a, ns, raw, op], POST, ForkRequest dns dn) \<Rightarrow>
             if a = ''repos'' \<and> op = ''forks'' then api_fork_repo app env tenant (pd ns) (pd raw) dns dn st
             else others tenant user req st
         | _ \<Rightarrow> others tenant user req st)
      else others tenant user req st)"

definition git_router :: "('s, 'g, 't) GitApp \<Rightarrow> HttpEnv \<Rightarrow> ('s, 'g, 't) handler \<Rightarrow> GitRequest \<Rightarrow> ('s, 'g, 't) GitState \<Rightarrow> HttpResponse \<times> ('s, 'g, 't) GitState" where
  "git_router app env others req st =
     (if req_path req = ''/-/health'' then (if req_method req \<in> {GET, HEAD} then Status 200 else Status 405, st)
      else case tenant_middleware (Some (app_tenant app)) (req_path req) (req_host req) of
        Inl r \<Rightarrow> (r, st)
      | Inr None \<Rightarrow> (Status 500, st)
      | Inr (Some tenant) \<Rightarrow>
        case auth_middleware (env_base64 env) (env_verify env) (env_now env) (app_auth app) (Some tenant) (req_method req)
               (req_path req) (req_query req) (req_authorization req) (gst_repos st) (gst_tokens st) of
          Inl r \<Rightarrow> (r, st)
        | Inr user \<Rightarrow> route app env others tenant user req st)"

section \<open>The repository that is checked\<close>

lemma split_slash: "(c :: char) \<notin> set a \<Longrightarrow> c \<notin> set b \<Longrightarrow> a @ c # u = b @ c # v \<longleftrightarrow> a = b \<and> u = v"
proof
  assume no: "c \<notin> set a" "c \<notin> set b" and eq: "a @ c # u = b @ c # v"
  have "Some (a, u) = Some (b, v)"
    unfolding split_once_single(1) [OF no(1), symmetric] split_once_single(1) [OF no(2), symmetric] eq ..
  then show "a = b \<and> u = v" by simp
qed simp

lemma splitn_three:
  "CHR ''/'' \<notin> set a \<Longrightarrow> CHR ''/'' \<notin> set b \<Longrightarrow> splitn 3 CHR ''/'' (a @ CHR ''/'' # b) = [a, b]"
  "CHR ''/'' \<notin> set a \<Longrightarrow> CHR ''/'' \<notin> set b \<Longrightarrow> splitn 3 CHR ''/'' (a @ CHR ''/'' # b @ CHR ''/'' # c) = [a, b, c]"
  by (simp_all add: numeral_3_eq_3 split_once_single)

lemma trim_git_once: "\<not> ends_with raw ''.git.git'' \<Longrightarrow> trim_end_text ''.git'' raw = strip_git_suffix raw"
proof -
  assume no: "\<not> ends_with raw ''.git.git''"
  have "strip_suffix r ''.git'' = None" if "strip_suffix raw ''.git'' = Some r" for r
  proof (rule ccontr)
    assume "strip_suffix r ''.git'' \<noteq> None"
    then obtain q where "r = q @ ''.git''" by (auto simp: strip_suffix_Some)
    then have "raw = q @ ''.git.git''" using that by (simp add: strip_suffix_Some)
    then show False using no by (simp add: ends_with_suffix suffix_def)
  qed
  then show ?thesis by (auto simp: trim_end_text.simps strip_git_suffix_def split: option.split)
qed

text \<open>The paths under which the endpoints address the repository \<open>raw\<close> of the namespace \<open>ns\<close>.\<close>

definition smart_ops :: "string set" where
  "smart_ops = {''info/refs'', ''git-upload-pack'', ''git-receive-pack''}"

definition smart_path :: "string \<Rightarrow> string \<Rightarrow> string \<Rightarrow> string" where
  "smart_path ns raw op = ''/'' @ ns @ ''/'' @ raw @ ''/'' @ op"

definition rest_path :: "string \<Rightarrow> string \<Rightarrow> string \<Rightarrow> string" where
  "rest_path ns raw rest = ''/api/v1/repos/'' @ ns @ ''/'' @ raw @ (if rest = [] then [] else ''/'' @ rest)"

lemma extract_smart:
  assumes "ns \<noteq> []" "CHR ''/'' \<notin> set ns" "CHR ''/'' \<notin> set raw" "op \<in> smart_ops"
  shows "extract_repo_from_path (smart_path ns raw op) = Some (ns, trim_end_text ''.git'' raw)"
proof -
  have "strip_prefix (smart_path ns raw op) ''/api/v1/repos/'' = None"
  proof (rule ccontr)
    assume "strip_prefix (smart_path ns raw op) ''/api/v1/repos/'' \<noteq> None"
    then obtain r where "ns @ CHR ''/'' # raw @ CHR ''/'' # op = ''api'' @ CHR ''/'' # ''v1'' @ CHR ''/'' # ''repos/'' @ r"
      by (auto simp: strip_prefix_Some smart_path_def)
    then have "raw @ CHR ''/'' # op = ''v1'' @ CHR ''/'' # ''repos/'' @ r"
      by (subst (asm) split_slash) (use assms in auto)
    then have "op = ''repos/'' @ r" by (subst (asm) split_slash) (use assms in auto)
    then show False using assms(4) by (auto simp: smart_ops_def)
  qed
  moreover have "dropWhile (\<lambda>c. c = CHR ''/'') (smart_path ns raw op) = ns @ CHR ''/'' # raw @ CHR ''/'' # op"
    using assms(1,2) by (cases ns) (auto simp: smart_path_def)
  ultimately show ?thesis using splitn_three(2) [OF assms(2,3), of op] by (simp add: extract_repo_from_path_def)
qed

lemma extract_rest:
  assumes "CHR ''/'' \<notin> set ns" "CHR ''/'' \<notin> set raw"
  shows "extract_repo_from_path (rest_path ns raw rest) = Some (ns, raw)"
proof -
  have "strip_prefix (rest_path ns raw rest) ''/api/v1/repos/'' = Some (ns @ ''/'' @ raw @ (if rest = [] then [] else ''/'' @ rest))"
    by (simp add: strip_prefix_Some rest_path_def)
  then show ?thesis using splitn_three [OF assms] by (simp add: extract_repo_from_path_def)
qed

lemma smart_required:
  "required_permission m (smart_path ns raw ''git-receive-pack'') q = Push"
  "required_permission m (smart_path ns raw ''git-upload-pack'') q = Pull"
  by (auto simp: required_permission_def smart_path_def ends_with_def starts_with_def)

text \<open>Who may act on a repository: with a verified, valid token of the tenant that has the permission (or
  anonymously, where reads may be), by a token of this repository or by the access check.\<close>

definition request_token :: "(string \<Rightarrow> string option) \<Rightarrow> (string \<Rightarrow> string \<Rightarrow> bool) \<Rightarrow> datetime \<Rightarrow> ('s, 't) GitAuth \<Rightarrow> string option \<Rightarrow> 't \<Rightarrow> GitToken option" where
  "request_token decode verify now A authorization ts =
     Option.bind (extract_any_token decode authorization) (\<lambda>p. verified_token verify (ga_tokens A) now p ts)"

definition token_admits :: "datetime \<Rightarrow> string \<Rightarrow> GitPermission \<Rightarrow> GitToken \<Rightarrow> bool" where
  "token_admits now tenant required t \<longleftrightarrow> GitToken_is_valid now t \<and> tok_tenant_id t = tenant \<and> required \<in> set (tok_permissions t)"

definition entitled :: "datetime \<Rightarrow> ('s, 't) GitAuth \<Rightarrow> (string \<Rightarrow> string \<Rightarrow> RepositoryCollaborator option result) \<Rightarrow> string \<Rightarrow> Method \<Rightarrow> GitPermission \<Rightarrow> GitToken option \<Rightarrow> Repository \<Rightarrow> bool" where
  "entitled now A get_collab tenant method required tok repo \<longleftrightarrow>
     (anonymous_pull A \<and> method \<in> {GET, HEAD} \<or> (\<exists>t. tok = Some t \<and> token_admits now tenant required t))
     \<and> (required = Pull \<and> Option.bind tok tok_repo_id = Some (rp_id repo)
        \<or> check_repo_access_with_org_lookup repo (Option.bind tok tok_user_id) required get_collab (ga_orgs A) (ga_members A) tenant = Allowed)"

lemma authenticate_iff:
  "authenticate decode verify now A (Some tenant) m path q authz ts = Inr tok \<longleftrightarrow>
     tok = request_token decode verify now A authz ts
     \<and> (anonymous_pull A \<and> m \<in> {GET, HEAD} \<or> (\<exists>t. tok = Some t \<and> token_admits now tenant (required_permission m path q) t))"
  by (auto simp: authenticate_def request_token_def token_admits_def has_permission_def split: option.splits)

lemma auth_middleware_iff:
  assumes "ga_repos A = Some S" "ga_collaborators A = Some C" "tenant \<noteq> []" "path \<noteq> ''/-/health''"
    and "extract_repo_from_path path = Some (ns, name)" "rs_get_by_name S tenant ns name s = Inr (Some repo)"
  shows "(\<exists>user. auth_middleware decode verify now (Some A) (Some tenant) m path q authz s ts = Inr user) \<longleftrightarrow>
    entitled now A C tenant m (required_permission m path q) (request_token decode verify now A authz ts) repo"
proof (cases "authenticate decode verify now A (Some tenant) m path q authz ts")
  case (Inl r)
  then have "\<not> (anonymous_pull A \<and> m \<in> {GET, HEAD} \<or>
      (\<exists>t. request_token decode verify now A authz ts = Some t \<and> token_admits now tenant (required_permission m path q) t))"
    using authenticate_iff [of decode verify now A tenant m path q authz ts] by auto
  then show ?thesis using assms(4) Inl by (simp add: auth_middleware_def entitled_def)
next
  case (Inr tok)
  note st = iffD1 [OF authenticate_iff Inr]
  then show ?thesis
    using assms Inr by (auto simp: auth_middleware_def entitled_def Let_def split: RepoAccessVerdict.splits)
qed

lemma paths_not_health:
  assumes "ns \<noteq> []" "CHR ''/'' \<notin> set ns" "CHR ''/'' \<notin> set raw"
  shows "smart_path ns raw op \<noteq> ''/-/health''" "rest_path ns raw rest \<noteq> ''/-/health''"
proof
  assume "smart_path ns raw op = ''/-/health''"
  then have "ns @ CHR ''/'' # raw @ CHR ''/'' # op = ''-'' @ CHR ''/'' # ''health''" by (simp add: smart_path_def)
  then have "raw @ CHR ''/'' # op = ''health''" by (subst (asm) split_slash) (use assms in auto)
  then have "CHR ''/'' \<in> set ''health''" by (metis in_set_conv_decomp)
  then show False by simp
qed (simp add: rest_path_def)

lemma strip_git_id: "\<not> ends_with raw ''.git'' \<Longrightarrow> strip_git_suffix raw = raw"
  by (simp add: strip_git_suffix_def strip_suffix_def)

lemma segments_rest:
  "CHR ''/'' \<notin> set ns \<Longrightarrow> CHR ''/'' \<notin> set raw \<Longrightarrow> CHR ''/'' \<notin> set op \<Longrightarrow> op \<noteq> [] \<Longrightarrow>
     segments (rest_path ns raw op) = [[], ''api'', ''v1'', ''repos'', ns, raw, op]"
  using split_char_append [of "CHR ''/''" ns "raw @ ''/'' @ op"] split_char_append [of "CHR ''/''" raw op]
  by (simp add: segments_def rest_path_def split_char_no_sep)

lemma auth_unknown_repo:
  assumes "extract_repo_from_path path = Some (ns, name)" "ga_repos A = Some S" "rs_get_by_name S tenant ns name s = Inr None"
    and "path \<noteq> ''/-/health''" "request_token decode verify now A authz ts = Some t" "token_admits now tenant (required_permission m path q) t"
  shows "auth_middleware decode verify now (Some A) (Some tenant) m path q authz s ts = Inr (token_user (Some t))"
proof -
  have "authenticate decode verify now A (Some tenant) m path q authz ts = Inr (Some t)"
    using assms(5,6) authenticate_iff [of decode verify now A tenant m path q authz ts "Some t"] by simp
  then show ?thesis using assms(1-4) by (simp add: auth_middleware_def split: option.split)
qed

lemma router_reaches:
  assumes "tenant_middleware (Some (app_tenant app)) (req_path req) (req_host req) = Inr (Some tenant)" "req_path req \<noteq> ''/-/health''"
    and "auth_middleware (env_base64 env) (env_verify env) (env_now env) (app_auth app) (Some tenant) (req_method req)
      (req_path req) (req_query req) (req_authorization req) (gst_repos st) (gst_tokens st) = Inr user"
  shows "git_router app env others req st = route app env others tenant user req st"
  using assms by (simp add: git_router_def)

lemma tenant_of_host:
  "extract_tenant_slug host (base_domain c) = Some tenant \<Longrightarrow> validate_tenant_slug tenant \<Longrightarrow> path \<noteq> ''/-/health'' \<Longrightarrow>
     tenant_middleware (Some c) path (Some host) = Inr (Some tenant)"
  by (simp add: tenant_middleware_def is_tenant_optional_path_def)

section \<open>Concrete requests\<close>

definition sample_token :: "string \<Rightarrow> GitPermission list \<Rightarrow> GitToken" where
  "sample_token user perms = (GitToken_new user 0 ''t'' user user perms [] None)\<lparr>tok_user_id := Some user\<rparr>"

definition sample_git_auth :: "(MemoryRepositoryStore, MemoryGitTokenStore) GitAuth" where
  "sample_git_auth = (GitAuth_new memory_token_store)\<lparr>ga_repos := Some memory_repository_store,
     ga_collaborators := Some (\<lambda>r u. get_collaborator r u [])\<rparr>"

definition sample_app :: "(MemoryRepositoryStore, GitFs, MemoryGitTokenStore) GitApp" where
  "sample_app = \<lparr>app_repos = memory_repository_store, app_storage = sample_storage, app_tokens = memory_token_store,
     app_tenant = \<lparr>base_domain = ''x.y'', default_tenant = None\<rparr>, app_auth = Some sample_git_auth\<rparr>"

definition sample_http_env :: HttpEnv where
  "sample_http_env = \<lparr>env_base64 = \<lambda>_. None, env_verify = (=), env_percent_decode = id, env_alphanumeric = \<lambda>_. False,
     env_now = 5, env_uuid = ''u''\<rparr>"

definition sample_git_state :: "Repository \<Rightarrow> (MemoryRepositoryStore, GitFs, MemoryGitTokenStore) GitState" where
  "sample_git_state r = \<lparr>gst_repos = [(''r1'', r)], gst_dirs = [(''/srv/t/acme/secret.git'', ''objects'')],
     gst_tokens = [(''bob'', sample_token ''bob'' [Push]), (''eve'', sample_token ''eve'' [Pull])]\<rparr>"

definition not_found :: "(MemoryRepositoryStore, GitFs, MemoryGitTokenStore) handler" where
  "not_found tenant user req st = (Status 404, st)"

lemma str_chars_ascii: "list_all (\<lambda>c. byte c < 128) s \<Longrightarrow> str_chars s = map (\<lambda>c. [c]) s"
proof (induction s)
  case (Cons c s)
  then have "utf8_head (c # s) = (True, 1)" by (simp add: utf8_head_def byte_at_def Let_def)
  then show ?case using Cons by (simp add: str_chars.simps [of "c # s"])
qed (simp add: str_chars.simps)

lemma token_prefix_ascii: "list_all (\<lambda>c. byte c < 128) s \<Longrightarrow> length s \<le> 16 \<Longrightarrow> token_prefix s = s"
  by (simp add: token_prefix_def TOKEN_PREFIX_LEN_def str_chars_ascii)

lemma sample_request_tokens:
  "request_token (env_base64 sample_http_env) (env_verify sample_http_env) (env_now sample_http_env) sample_git_auth (Some ''Bearer bob'')
     (gst_tokens (sample_git_state r)) = Some (sample_token ''bob'' [Push])"
  "request_token (env_base64 sample_http_env) (env_verify sample_http_env) (env_now sample_http_env) sample_git_auth (Some ''Bearer eve'')
     (gst_tokens (sample_git_state r)) = Some (sample_token ''eve'' [Pull])"
  by (simp_all add: request_token_def sample_http_env_def sample_git_auth_def sample_git_state_def extract_any_token_def extract_bearer_token_def
      eq_ignore_ascii_case_def ascii_lower_def token_prefix_ascii
      verified_token_def GitAuth_new_def memory_token_store_def get_token_by_prefix_def sample_token_def GitToken_new_def
      GitToken_is_valid_def is_token_valid_def)

lemma sample_stores:
  "app_repos sample_app = memory_repository_store" "app_auth sample_app = Some sample_git_auth"
  "ga_repos sample_git_auth = Some memory_repository_store"
  "ga_collaborators sample_git_auth = Some (\<lambda>r u. get_collaborator r u [])"
  by (simp_all add: sample_app_def sample_git_auth_def)

lemma sample_tenant: "extract_tenant_slug ''t.x.y'' (base_domain (app_tenant sample_app)) = Some ''t''" "validate_tenant_slug ''t''"
  by (simp_all add: extract_tenant_slug_def sample_app_def strip_suffix_def ends_with_def starts_with_def validate_tenant_slug_def
      is_ascii_alphanumeric_def is_ascii_alphabetic_def)

lemma sample_admits:
  "token_admits (env_now sample_http_env) ''t'' Push (sample_token ''bob'' [Push])"
  "token_admits (env_now sample_http_env) ''t'' Pull (sample_token ''eve'' [Pull])"
  by (simp_all add: token_admits_def sample_token_def GitToken_new_def GitToken_is_valid_def is_token_valid_def)

lemma sample_lookup:
  "rs_get_by_name memory_repository_store ''t'' ''acme'' ''secret'' [(''r1'', sample_repo)] = Inr (Some sample_repo)"
  "rs_get_by_name memory_repository_store ''t'' ''acme'' (''secret'' @ ''.git'') [(''r1'', sample_repo)] = Inr None"
  by (simp_all add: memory_repository_store_def get_repository_by_name_def named_def sample_repo_def)

section \<open>Properties\<close>



text \<open>
  C17. Two ways around the checks. A token of the tenant with the push permission, whoever owns it, transfers any
  repository of the tenant, private ones included, when the name in the path carries the suffix \<open>.git\<close>: the
  middleware looks for a repository with the suffix in its name, finds none and skips the access check, and
  the endpoint strips the suffix. And a token with only the pull permission reaches the endpoint that
  writes a file of a public repository when the path of the file ends in \<open>/info/refs\<close>, because the
  required permission is read off the end of the path of any route.\<close>

theorem git_http_escalation:
  assumes "app_auth app = Some A" "ga_repos A = Some (app_repos app)" "ga_collaborators A = Some C"
    and "extract_tenant_slug host (base_domain (app_tenant app)) = Some tenant" "validate_tenant_slug tenant"
    and "ns \<noteq> []" "CHR ''/'' \<notin> set ns" "CHR ''/'' \<notin> set n" "env_percent_decode env ns = ns"
    and "env_percent_decode env (n @ ''.git'') = n @ ''.git''"
    and "rs_get_by_name (app_repos app) tenant ns (n @ ''.git'') (gst_repos st) = Inr None"
    and "request_token (env_base64 env) (env_verify env) (env_now env) A push_authz (gst_tokens st) = Some pusher"
    and "token_admits (env_now env) tenant Push pusher"
    and "request_token (env_base64 env) (env_verify env) (env_now env) A pull_authz (gst_tokens st) = Some puller"
    and "token_admits (env_now env) tenant Pull puller"
    and "rs_get_by_name (app_repos app) tenant ns n (gst_repos st) = Inr (Some repo)"
  shows "(git_validate_path_component new_ns \<longrightarrow>
      git_router app env others \<lparr>req_method = POST, req_path = rest_path ns (n @ ''.git'') ''transfer'', req_query = q, req_host = Some host,
          req_authorization = push_authz, req_body = TransferRepoRequest new_ns\<rparr> st
      = service_response 200 (service_transfer (app_repos app) (app_storage app) (env_now env) tenant ns n new_ns (gst_repos st, gst_dirs st)) st)
    \<and> (\<not> is_private repo \<longrightarrow>
      auth_middleware (env_base64 env) (env_verify env) (env_now env) (app_auth app) (Some tenant) POST
        (rest_path ns n (''contents/'' @ dir @ ''/info/refs'')) None pull_authz (gst_repos st) (gst_tokens st) = Inr (token_user (Some puller)))"
proof (intro conjI impI)
  let ?p = "rest_path ns (n @ ''.git'') ''transfer''"
  let ?req = "\<lparr>req_method = POST, req_path = ?p, req_query = q, req_host = Some host,
          req_authorization = push_authz, req_body = TransferRepoRequest new_ns\<rparr>"
  assume "git_validate_path_component new_ns"
  have raw: "CHR ''/'' \<notin> set (n @ ''.git'')" using assms(8) by simp
  have nh: "?p \<noteq> ''/-/health''" by (rule paths_not_health(2) [OF assms(6,7) raw])
  have "required_permission POST ?p q = Push"
    by (simp add: required_permission_def rest_path_def ends_with_def starts_with_def)
  then have "auth_middleware (env_base64 env) (env_verify env) (env_now env) (app_auth app) (Some tenant) POST ?p q push_authz
      (gst_repos st) (gst_tokens st) = Inr (token_user (Some pusher))"
    unfolding assms(1)
    using auth_unknown_repo [OF extract_rest [OF assms(7) raw] assms(2,11) nh assms(12)] assms(13) by simp
  then have "git_router app env others ?req st = route app env others tenant (token_user (Some pusher)) ?req st"
    using tenant_of_host [OF assms(4,5) nh] nh by (intro router_reaches) simp_all
  also have "\<dots> = api_transfer_repo app env tenant ns (n @ ''.git'') new_ns st"
    using segments_rest [OF assms(7) raw, of "''transfer''"] assms(6,9,10) by (simp add: route_def)
  finally show "git_router app env others ?req st
      = service_response 200 (service_transfer (app_repos app) (app_storage app) (env_now env) tenant ns n new_ns (gst_repos st, gst_dirs st)) st"
    using \<open>git_validate_path_component new_ns\<close> by (simp add: api_transfer_repo_def strip_suffix_Some [THEN iffD2])
next
  let ?p = "rest_path ns n (''contents/'' @ dir @ ''/info/refs'')"
  assume pub: "\<not> is_private repo"
  have nh: "?p \<noteq> ''/-/health''" by (rule paths_not_health(2) [OF assms(6-8)])
  have pull: "required_permission POST ?p None = Pull"
    by (simp add: required_permission_def rest_path_def ends_with_def starts_with_def contains_sub_def)
  have au: "authenticate (env_base64 env) (env_verify env) (env_now env) A (Some tenant) POST ?p None pull_authz (gst_tokens st) = Inr (Some puller)"
    using authenticate_iff [of "env_base64 env" "env_verify env" "env_now env" A tenant POST ?p None pull_authz "gst_tokens st" "Some puller"]
      assms(14,15) pull by simp
  have "check_repo_access_with_org_lookup repo (tok_user_id puller) Pull C (ga_orgs A) (ga_members A) tenant = Allowed"
    using pub by (simp add: check_repo_access_with_org_lookup_def check_repo_access_def Let_def)
  then show "auth_middleware (env_base64 env) (env_verify env) (env_now env) (app_auth app) (Some tenant) POST ?p None pull_authz
      (gst_repos st) (gst_tokens st) = Inr (token_user (Some puller))"
    using assms(1-3,16) nh extract_rest [OF assms(7,8)] pull au by (simp add: auth_middleware_def Let_def)
qed

theorem git_http_escalation_witness:
  "check_repo_access sample_repo (Some ''bob'') Push (\<lambda>r u. get_collaborator r u []) None \<noteq> Allowed
   \<and> (\<exists>st'. git_router sample_app sample_http_env not_found \<lparr>req_method = POST, req_path = rest_path ''acme'' (''secret'' @ ''.git'') ''transfer'',
          req_query = None, req_host = Some ''t.x.y'', req_authorization = Some ''Bearer bob'', req_body = TransferRepoRequest ''bobs''\<rparr>
          (sample_git_state sample_repo) = (Repo_response 200 (sample_repo\<lparr>rp_namespace := ''bobs''\<rparr>), st'))"
proof -
  have st: "gst_repos (sample_git_state sample_repo) = [(''r1'', sample_repo)]" by (simp add: sample_git_state_def)
  have pd: "env_percent_decode sample_http_env x = x" for x by (simp add: sample_http_env_def)
  have ok: "git_validate_path_component ''bobs''"
    by (simp add: git_validate_path_component_def white_space_def contains_sub_def starts_with_def ends_with_def)
  have "git_router sample_app sample_http_env not_found \<lparr>req_method = POST, req_path = rest_path ''acme'' (''secret'' @ ''.git'') ''transfer'',
        req_query = None, req_host = Some ''t.x.y'', req_authorization = Some ''Bearer bob'', req_body = TransferRepoRequest ''bobs''\<rparr>
        (sample_git_state sample_repo)
      = service_response 200 (service_transfer memory_repository_store (app_storage sample_app) (env_now sample_http_env) ''t'' ''acme'' ''secret'' ''bobs''
          (gst_repos (sample_git_state sample_repo), gst_dirs (sample_git_state sample_repo))) (sample_git_state sample_repo)"
    using git_http_escalation [where app = sample_app and A = sample_git_auth and C = "\<lambda>r u. get_collaborator r u []" and host = "''t.x.y''" and
        tenant = "''t''" and ns = "''acme''" and n = "''secret''" and env = sample_http_env and st = "sample_git_state sample_repo" and
        push_authz = "Some ''Bearer bob''" and pusher = "sample_token ''bob'' [Push]" and pull_authz = "Some ''Bearer eve''" and
        puller = "sample_token ''eve'' [Pull]" and repo = sample_repo and new_ns = "''bobs''" and q = None and others = not_found,
        OF _ _ _ sample_tenant _ _ _ pd pd _ sample_request_tokens(1) sample_admits(1) sample_request_tokens(2) sample_admits(2)]
      sample_lookup ok unfolding sample_stores st by simp
  moreover have "\<exists>st'. service_response 200 (service_transfer memory_repository_store (app_storage sample_app) (env_now sample_http_env) ''t'' ''acme'' ''secret'' ''bobs''
          (gst_repos (sample_git_state sample_repo), gst_dirs (sample_git_state sample_repo))) (sample_git_state sample_repo)
      = (Repo_response 200 (sample_repo\<lparr>rp_namespace := ''bobs''\<rparr>), st')"
    using sample_lookup(1)
    by (simp add: service_response_def service_transfer_def st sample_app_def sample_git_state_def sample_storage_defs
        memory_repository_store_def transfer_repository_def get_repository_by_name_def named_def sample_repo_def)
  ultimately show ?thesis
    by (simp add: check_repo_access_def sample_repo_def get_collaborator_def result_ok_def)
qed

end
