(* ===== verification/Tenant_Quota.thy ===== *)
theory Tenant_Quota
  imports Job_Model "HOL-Library.Word"
begin

text \<open>
  Storage quotas of tenants: the quota record (\<open>muli-core/src/registry/model.rs\<close>), its in-memory store on
  64-bit words (\<open>muli-store/src/memory/tenant_quota_store.rs\<close>) and its SQLite store, whose statements are
  read as operations on a table of rows with integer columns
  (\<open>muli-store/src/sqlite/tenant_quota_store.rs\<close>). Both keep one contract on amounts below \<open>2 ^ 63\<close>. SQLite
  calls themselves are taken not to fail.
\<close>

record TenantQuota =
  qt_tenant_id :: string
  max_storage_bytes :: "64 word"
  current_usage_bytes :: "64 word"

definition TenantQuota_new :: "string \<Rightarrow> 64 word \<Rightarrow> TenantQuota" where
  "TenantQuota_new tenant m = \<lparr>qt_tenant_id = tenant, max_storage_bytes = m, current_usage_bytes = 0\<rparr>"

text \<open>\<open>u64::saturating_add\<close> and \<open>saturating_sub\<close>.\<close>

definition sat_add :: "64 word \<Rightarrow> 64 word \<Rightarrow> 64 word" where
  "sat_add a b = (if a + b < a then -1 else a + b)"

definition sat_sub :: "64 word \<Rightarrow> 64 word \<Rightarrow> 64 word" where
  "sat_sub a b = (if a < b then 0 else a - b)"

definition would_exceed :: "64 word \<Rightarrow> TenantQuota \<Rightarrow> bool" where
  "would_exceed bytes q = (max_storage_bytes q < sat_add (current_usage_bytes q) bytes)"

definition remaining_bytes :: "TenantQuota \<Rightarrow> 64 word" where
  "remaining_bytes q = sat_sub (max_storage_bytes q) (current_usage_bytes q)"

record 's TenantQuotaStore =
  qs_get :: "string \<Rightarrow> 's \<Rightarrow> TenantQuota option"
  qs_set :: "string \<Rightarrow> 64 word \<Rightarrow> 's \<Rightarrow> 's"
  qs_update :: "string \<Rightarrow> 64 word \<Rightarrow> 's \<Rightarrow> 's"
  qs_adjust :: "string \<Rightarrow> int \<Rightarrow> 's \<Rightarrow> 's"
  qs_reserve :: "string \<Rightarrow> 64 word \<Rightarrow> 's \<Rightarrow> bool \<times> 's"

section \<open>In memory\<close>

type_synonym MemoryTenantQuotaStore = "TenantQuota table"

definition get_quota :: "string \<Rightarrow> MemoryTenantQuotaStore \<Rightarrow> TenantQuota option" where
  "get_quota tenant s = tbl_get s tenant"

definition set_quota :: "string \<Rightarrow> 64 word \<Rightarrow> MemoryTenantQuotaStore \<Rightarrow> MemoryTenantQuotaStore" where
  "set_quota tenant m s =
     (case tbl_get s tenant of Some q \<Rightarrow> tbl_insert tenant (q\<lparr>max_storage_bytes := m\<rparr>) s
      | None \<Rightarrow> tbl_insert tenant (TenantQuota_new tenant m) s)"

text \<open>The entry of a tenant, inserted without a limit if there is none.\<close>

definition quota_entry :: "string \<Rightarrow> MemoryTenantQuotaStore \<Rightarrow> TenantQuota" where
  "quota_entry tenant s = (case tbl_get s tenant of Some q \<Rightarrow> q | None \<Rightarrow> TenantQuota_new tenant 0)"

definition update_usage :: "string \<Rightarrow> 64 word \<Rightarrow> MemoryTenantQuotaStore \<Rightarrow> MemoryTenantQuotaStore" where
  "update_usage tenant n s = tbl_insert tenant ((quota_entry tenant s)\<lparr>current_usage_bytes := n\<rparr>) s"

text \<open>The addition is that of \<open>i64\<close>, which wraps; the result is clamped at zero and read as \<open>u64\<close>.\<close>

definition adjust_usage :: "string \<Rightarrow> int \<Rightarrow> MemoryTenantQuotaStore \<Rightarrow> MemoryTenantQuotaStore" where
  "adjust_usage tenant delta s =
     (let q = quota_entry tenant s; sum = current_usage_bytes q + word_of_int delta in
      tbl_insert tenant (q\<lparr>current_usage_bytes := (if sint sum < 0 then 0 else sum)\<rparr>) s)"

definition try_reserve :: "string \<Rightarrow> 64 word \<Rightarrow> MemoryTenantQuotaStore \<Rightarrow> bool \<times> MemoryTenantQuotaStore" where
  "try_reserve tenant n s =
     (let q = quota_entry tenant s; s1 = tbl_insert tenant q s in
      if 0 < max_storage_bytes q \<and> max_storage_bytes q < sat_add (current_usage_bytes q) n then (False, s1)
      else (True, tbl_insert tenant (q\<lparr>current_usage_bytes := sat_add (current_usage_bytes q) n\<rparr>) s1))"

definition memory_quota_store :: "MemoryTenantQuotaStore TenantQuotaStore" where
  "memory_quota_store = \<lparr>qs_get = get_quota, qs_set = set_quota, qs_update = update_usage, qs_adjust = adjust_usage,
     qs_reserve = try_reserve\<rparr>"

section \<open>In SQLite\<close>

text \<open>A row has the columns \<open>max_storage_bytes\<close> and \<open>current_usage_bytes\<close>; the key is the tenant.\<close>

type_synonym QuotaRows = "(int \<times> int) table"

definition as_i64 :: "64 word \<Rightarrow> int" where
  "as_i64 w = sint w"

definition sqlite_get_quota :: "string \<Rightarrow> QuotaRows \<Rightarrow> TenantQuota option" where
  "sqlite_get_quota tenant rows =
     map_option (\<lambda>(m, c). \<lparr>qt_tenant_id = tenant, max_storage_bytes = word_of_int m, current_usage_bytes = word_of_int c\<rparr>)
       (tbl_get rows tenant)"

definition sqlite_set_quota :: "string \<Rightarrow> 64 word \<Rightarrow> QuotaRows \<Rightarrow> QuotaRows" where
  "sqlite_set_quota tenant m rows =
     (case tbl_get rows tenant of None \<Rightarrow> tbl_insert tenant (as_i64 m, 0) rows
      | Some (_, c) \<Rightarrow> tbl_insert tenant (as_i64 m, c) rows)"

definition sqlite_update_usage :: "string \<Rightarrow> 64 word \<Rightarrow> QuotaRows \<Rightarrow> QuotaRows" where
  "sqlite_update_usage tenant n rows =
     (case tbl_get rows tenant of None \<Rightarrow> tbl_insert tenant (0, as_i64 n) rows
      | Some (m, _) \<Rightarrow> tbl_insert tenant (m, as_i64 n) rows)"

definition sqlite_adjust_usage :: "string \<Rightarrow> int \<Rightarrow> QuotaRows \<Rightarrow> QuotaRows" where
  "sqlite_adjust_usage tenant delta rows =
     (case tbl_get rows tenant of None \<Rightarrow> tbl_insert tenant (0, max 0 delta) rows
      | Some (m, c) \<Rightarrow> tbl_insert tenant (m, max 0 (c + delta)) rows)"

definition sqlite_try_reserve :: "string \<Rightarrow> 64 word \<Rightarrow> QuotaRows \<Rightarrow> bool \<times> QuotaRows" where
  "sqlite_try_reserve tenant n rows =
     (let additional = as_i64 n in
      case tbl_get rows tenant of None \<Rightarrow> (True, tbl_insert tenant (0, additional) rows)
      | Some (m, c) \<Rightarrow>
        if m = 0 \<or> c + additional \<le> m then (True, tbl_insert tenant (m, c + additional) rows) else (False, rows))"

definition sqlite_quota_store :: "QuotaRows TenantQuotaStore" where
  "sqlite_quota_store = \<lparr>qs_get = sqlite_get_quota, qs_set = sqlite_set_quota, qs_update = sqlite_update_usage,
     qs_adjust = sqlite_adjust_usage, qs_reserve = sqlite_try_reserve\<rparr>"

section \<open>The contract\<close>

text \<open>The limit and the usage of a tenant as naturals; a tenant without an entry has neither.\<close>

definition limit_of :: "(nat \<times> nat) option \<Rightarrow> nat" where
  "limit_of v = (case v of None \<Rightarrow> 0 | Some (m, _) \<Rightarrow> m)"

definition usage_of :: "(nat \<times> nat) option \<Rightarrow> nat" where
  "usage_of v = (case v of None \<Rightarrow> 0 | Some (_, c) \<Rightarrow> c)"

definition fits :: "nat \<Rightarrow> nat \<Rightarrow> bool" where
  "fits m n \<longleftrightarrow> m = 0 \<or> n \<le> m"

definition to_quota :: "string \<Rightarrow> nat \<times> nat \<Rightarrow> TenantQuota" where
  "to_quota t v = \<lparr>qt_tenant_id = t, max_storage_bytes = of_nat (fst v), current_usage_bytes = of_nat (snd v)\<rparr>"

text \<open>Sequences of operations, on a store and on the naturals.\<close>

datatype QuotaOp = SetQuota string "64 word" | UpdateUsage string "64 word" | AdjustUsage string int | TryReserve string "64 word"

fun run_op :: "'s TenantQuotaStore \<Rightarrow> QuotaOp \<Rightarrow> 's \<Rightarrow> bool \<times> 's" where
  "run_op Q (SetQuota t m) s = (True, qs_set Q t m s)"
| "run_op Q (UpdateUsage t n) s = (True, qs_update Q t n s)"
| "run_op Q (AdjustUsage t d) s = (True, qs_adjust Q t d s)"
| "run_op Q (TryReserve t n) s = qs_reserve Q t n s"

fun run_ops :: "(QuotaOp \<Rightarrow> 's \<Rightarrow> bool \<times> 's) \<Rightarrow> QuotaOp list \<Rightarrow> 's \<Rightarrow> bool list \<times> 's" where
  "run_ops f [] s = ([], s)"
| "run_ops f (op # ops) s = (case f op s of (b, s1) \<Rightarrow> (case run_ops f ops s1 of (bs, s2) \<Rightarrow> (b # bs, s2)))"

type_synonym quota_view = "string \<Rightarrow> (nat \<times> nat) option"

fun spec_op :: "QuotaOp \<Rightarrow> quota_view \<Rightarrow> bool \<times> quota_view" where
  "spec_op (SetQuota t m) v = (True, v(t \<mapsto> (unat m, usage_of (v t))))"
| "spec_op (UpdateUsage t n) v = (True, v(t \<mapsto> (limit_of (v t), unat n)))"
| "spec_op (AdjustUsage t d) v = (True, v(t \<mapsto> (limit_of (v t), nat (int (usage_of (v t)) + d))))"
| "spec_op (TryReserve t n) v =
     (let total = usage_of (v t) + unat n in
      if fits (limit_of (v t)) total then (True, v(t \<mapsto> (limit_of (v t), total))) else (False, v))"

fun small_op :: "QuotaOp \<Rightarrow> quota_view \<Rightarrow> bool" where
  "small_op (SetQuota t m) v \<longleftrightarrow> unat m < 2 ^ 63"
| "small_op (UpdateUsage t n) v \<longleftrightarrow> unat n < 2 ^ 63"
| "small_op (AdjustUsage t d) v \<longleftrightarrow> - (2 ^ 63) \<le> d \<and> int (usage_of (v t)) + d < 2 ^ 63"
| "small_op (TryReserve t n) v \<longleftrightarrow> usage_of (v t) + unat n < 2 ^ 63"

fun small_ops :: "QuotaOp list \<Rightarrow> quota_view \<Rightarrow> bool" where
  "small_ops [] v \<longleftrightarrow> True"
| "small_ops (op # ops) v \<longleftrightarrow> small_op op v \<and> small_ops ops (snd (spec_op op v))"

locale quota_store =
  fixes Q :: "'s TenantQuotaStore" and q_inv :: "'s \<Rightarrow> bool" and view :: "'s \<Rightarrow> quota_view"
  assumes get_view: "q_inv s \<Longrightarrow> qs_get Q t s = map_option (to_quota t) (view s t)"
    and set_view: "q_inv s \<Longrightarrow> unat m < 2 ^ 63 \<Longrightarrow> q_inv (qs_set Q t m s) \<and> view (qs_set Q t m s) = (view s)(t \<mapsto> (unat m, usage_of (view s t)))"
    and update_view: "q_inv s \<Longrightarrow> unat n < 2 ^ 63 \<Longrightarrow> q_inv (qs_update Q t n s) \<and> view (qs_update Q t n s) = (view s)(t \<mapsto> (limit_of (view s t), unat n))"
    and adjust_view: "q_inv s \<Longrightarrow> - (2 ^ 63) \<le> d \<Longrightarrow> int (usage_of (view s t)) + d < 2 ^ 63 \<Longrightarrow>
      q_inv (qs_adjust Q t d s) \<and> view (qs_adjust Q t d s) = (view s)(t \<mapsto> (limit_of (view s t), nat (int (usage_of (view s t)) + d)))"
    and reserve_view: "q_inv s \<Longrightarrow> usage_of (view s t) + unat n < 2 ^ 63 \<Longrightarrow> qs_reserve Q t n s = (ok, s') \<Longrightarrow>
      q_inv s' \<and> ok = fits (limit_of (view s t)) (usage_of (view s t) + unat n)
      \<and> view s' = (if ok then (view s)(t \<mapsto> (limit_of (view s t), usage_of (view s t) + unat n)) else view s)"
begin

lemma run_op_spec:
  assumes "q_inv s" "small_op op (view s)" "run_op Q op s = (b, s')"
  shows "q_inv s' \<and> spec_op op (view s) = (b, view s')"
proof (cases op)
  case (TryReserve t n)
  then show ?thesis using assms reserve_view [of s t n b s'] by (auto simp: Let_def)
qed (use assms set_view update_view adjust_view in auto)

lemma run_ops_spec:
  "q_inv s \<Longrightarrow> small_ops ops (view s) \<Longrightarrow> run_ops (run_op Q) ops s = (bs, s') \<Longrightarrow>
     q_inv s' \<and> run_ops spec_op ops (view s) = (bs, view s')"
proof (induction ops arbitrary: s bs)
  case (Cons op ops)
  obtain b s1 where b: "run_op Q op s = (b, s1)" by (cases "run_op Q op s")
  obtain cs where cs: "run_ops (run_op Q) ops s1 = (cs, s')" "bs = b # cs"
    using Cons.prems(3) b by (auto split: prod.splits)
  have "q_inv s1" "spec_op op (view s) = (b, view s1)"
    using run_op_spec [of s op b s1] Cons.prems(1,2) b by auto
  then show ?case using Cons.IH [of s1 cs] Cons.prems(2) cs by simp
qed simp

end

section \<open>Both stores keep the contract\<close>

definition quota_pair :: "TenantQuota \<Rightarrow> nat \<times> nat" where
  "quota_pair q = (unat (max_storage_bytes q), unat (current_usage_bytes q))"

definition quotas_ok :: "MemoryTenantQuotaStore \<Rightarrow> bool" where
  "quotas_ok s \<longleftrightarrow> (\<forall>t q. tbl_get s t = Some q \<longrightarrow> qt_tenant_id q = t \<and> unat (current_usage_bytes q) < 2 ^ 63)"

definition rows_ok :: "QuotaRows \<Rightarrow> bool" where
  "rows_ok rows \<longleftrightarrow> (\<forall>t m c. tbl_get rows t = Some (m, c) \<longrightarrow> 0 \<le> m \<and> m < 2 ^ 63 \<and> 0 \<le> c \<and> c < 2 ^ 63)"

lemma sint_in_range: "- (2 ^ 63) \<le> x \<Longrightarrow> x < 2 ^ 63 \<Longrightarrow> sint (word_of_int x :: 64 word) = x"
  by (simp add: sint_sbintrunc' signed_take_bit_int_eq_self)

lemma as_i64_small:
  assumes "unat w < 2 ^ 63"
  shows "as_i64 w = int (unat w)"
proof -
  have "int (unat w) < int (2 ^ 63)" using assms by (simp only: of_nat_less_iff)
  then have "int (unat w) < 2 ^ 63" by (simp only: of_nat_power of_nat_numeral)
  moreover have "- (2 ^ 63) \<le> int (unat w)" by (rule order.trans [of _ 0]) simp_all
  ultimately have "sint (word_of_int (int (unat w)) :: 64 word) = int (unat w)" by (intro sint_in_range)
  then show ?thesis by (simp add: as_i64_def)
qed

lemma unat_word_of_int_small:
  assumes "0 \<le> x" "x < 2 ^ 63"
  shows "unat (word_of_int x :: 64 word) = nat x"
proof -
  have "x mod 2 ^ 64 = x" using assms by (intro mod_pos_pos_trivial) simp_all
  then show ?thesis by (simp add: unat_eq_nat_uint uint_word_of_int)
qed

lemma sat_add_small: "unat a + unat b < 2 ^ 63 \<Longrightarrow> unat (sat_add a b) = unat a + unat b"
proof -
  assume "unat a + unat b < 2 ^ 63"
  then have "unat (a + b) = unat a + unat b" by (subst unat_add_lem [symmetric]) simp
  then show ?thesis by (simp add: sat_add_def word_less_nat_alt)
qed

lemma quotas_ok_insert:
  "quotas_ok s \<Longrightarrow> qt_tenant_id q = t \<Longrightarrow> unat (current_usage_bytes q) < 2 ^ 63 \<Longrightarrow> quotas_ok (tbl_insert t q s)"
  unfolding quotas_ok_def by (simp add: update_conv')

lemma quota_entry_view:
  assumes "quotas_ok s"
  shows "qt_tenant_id (quota_entry t s) = t" "unat (max_storage_bytes (quota_entry t s)) = limit_of (map_option quota_pair (tbl_get s t))"
    "unat (current_usage_bytes (quota_entry t s)) = usage_of (map_option quota_pair (tbl_get s t))"
    "unat (current_usage_bytes (quota_entry t s)) < 2 ^ 63"
  using assms by (auto simp: quota_entry_def quotas_ok_def limit_of_def usage_of_def quota_pair_def TenantQuota_new_def split: option.split)

lemma adjust_sum:
  assumes "unat (c :: 64 word) < 2 ^ 63" "- (2 ^ 63) \<le> d" "int (unat c) + d < 2 ^ 63"
  shows "unat (if sint (c + word_of_int d) < 0 then 0 else c + word_of_int d) = nat (int (unat c) + d)"
proof -
  have c: "c + word_of_int d = word_of_int (int (unat c) + d)" by (simp add: word_of_int_hom_syms)
  have s: "sint (c + word_of_int d) = int (unat c) + d" unfolding c by (rule sint_in_range) (use assms(2,3) in linarith)+
  show ?thesis
  proof (cases "int (unat c) + d < 0")
    case False
    then have "unat (c + word_of_int d) = nat (int (unat c) + d)"
      unfolding c by (intro unat_word_of_int_small) (use assms(3) in linarith)+
    then show ?thesis unfolding s using False by (simp only: if_False)
  qed (simp only: s, simp)
qed

interpretation memq: quota_store memory_quota_store quotas_ok "\<lambda>s t. map_option quota_pair (tbl_get s t)"
proof
  fix s s' :: MemoryTenantQuotaStore and t and m n :: "64 word" and d and ok
  assume inv: "quotas_ok s"
  let ?v = "\<lambda>s t. map_option quota_pair (tbl_get s t)"
  note entry = quota_entry_view [OF inv, of t]
  show "qs_get memory_quota_store t s = map_option (to_quota t) (?v s t)"
    using inv by (cases "tbl_get s t") (auto simp: memory_quota_store_def get_quota_def quotas_ok_def to_quota_def quota_pair_def)
  show "unat m < 2 ^ 63 \<Longrightarrow> quotas_ok (qs_set memory_quota_store t m s)
      \<and> ?v (qs_set memory_quota_store t m s) = (?v s)(t \<mapsto> (unat m, usage_of (?v s t)))"
    using inv by (auto simp: memory_quota_store_def set_quota_def quotas_ok_def update_conv' usage_of_def quota_pair_def
        TenantQuota_new_def fun_eq_iff split: option.split)
  show "unat n < 2 ^ 63 \<Longrightarrow> quotas_ok (qs_update memory_quota_store t n s)
      \<and> ?v (qs_update memory_quota_store t n s) = (?v s)(t \<mapsto> (limit_of (?v s t), unat n))"
    using quotas_ok_insert [OF inv, of "(quota_entry t s)\<lparr>current_usage_bytes := n\<rparr>" t] entry(1,2)
    by (auto simp: memory_quota_store_def update_usage_def update_conv' quota_pair_def fun_eq_iff)
  show "- (2 ^ 63) \<le> d \<Longrightarrow> int (usage_of (?v s t)) + d < 2 ^ 63 \<Longrightarrow> quotas_ok (qs_adjust memory_quota_store t d s)
      \<and> ?v (qs_adjust memory_quota_store t d s) = (?v s)(t \<mapsto> (limit_of (?v s t), nat (int (usage_of (?v s t)) + d)))"
    proof -
    assume d: "- (2 ^ 63) \<le> d" "int (usage_of (?v s t)) + d < 2 ^ 63"
    let ?c = "current_usage_bytes (quota_entry t s)" and ?q = "quota_entry t s"
    define c where "c = (if sint (?c + word_of_int d) < 0 then 0 else ?c + word_of_int d)"
    have sum: "unat c = nat (int (usage_of (?v s t)) + d)"
      unfolding entry(3) [symmetric] c_def by (rule adjust_sum [OF entry(4)]) (use d entry(3) in simp_all)
    have "nat (int (usage_of (?v s t)) + d) < 2 ^ 63" using d(2) by (simp add: nat_less_iff)
    then have "quotas_ok (tbl_insert t (?q\<lparr>current_usage_bytes := c\<rparr>) s)"
      using quotas_ok_insert [OF inv, of "?q\<lparr>current_usage_bytes := c\<rparr>" t] entry(1) sum by simp
    moreover have "qs_adjust memory_quota_store t d s = tbl_insert t (?q\<lparr>current_usage_bytes := c\<rparr>) s"
      by (simp add: memory_quota_store_def adjust_usage_def Let_def c_def)
    ultimately show ?thesis using entry(2) sum by (simp add: update_conv' fun_eq_iff quota_pair_def)
  qed
  show "usage_of (?v s t) + unat n < 2 ^ 63 \<Longrightarrow> qs_reserve memory_quota_store t n s = (ok, s') \<Longrightarrow>
      quotas_ok s' \<and> ok = fits (limit_of (?v s t)) (usage_of (?v s t) + unat n)
      \<and> ?v s' = (if ok then (?v s)(t \<mapsto> (limit_of (?v s t), usage_of (?v s t) + unat n)) else ?v s)"
    proof -
    assume small: "usage_of (?v s t) + unat n < 2 ^ 63" and r: "qs_reserve memory_quota_store t n s = (ok, s')"
    let ?q = "quota_entry t s"
    have sum: "unat (sat_add (current_usage_bytes ?q) n) = usage_of (?v s t) + unat n"
      using sat_add_small [of "current_usage_bytes ?q" n] small entry(3) by simp
    have ok: "ok = fits (limit_of (?v s t)) (usage_of (?v s t) + unat n)"
      using r sum entry(2)
      by (auto simp: memory_quota_store_def try_reserve_def Let_def fits_def word_less_nat_alt split: if_splits)
    show ?thesis
    proof (cases ok)
      case True
      then have "s' = tbl_insert t (?q\<lparr>current_usage_bytes := sat_add (current_usage_bytes ?q) n\<rparr>) (tbl_insert t ?q s)"
        using r by (auto simp: memory_quota_store_def try_reserve_def Let_def split: if_splits)
      then show ?thesis
        using quotas_ok_insert [OF quotas_ok_insert [OF inv entry(1,4)], of "?q\<lparr>current_usage_bytes := sat_add (current_usage_bytes ?q) n\<rparr>" t]
          entry(1,2) sum small True ok by (simp add: update_conv' quota_pair_def fun_eq_iff)
    next
      case False
      then have "s' = tbl_insert t ?q s" "0 < max_storage_bytes ?q"
        using r by (auto simp: memory_quota_store_def try_reserve_def Let_def split: if_splits)
      moreover then have "tbl_get s t = Some ?q" by (auto simp: quota_entry_def TenantQuota_new_def split: option.splits)
      ultimately show ?thesis using quotas_ok_insert [OF inv entry(1,4)] ok False by (simp add: update_conv' fun_eq_iff)
    qed
  qed
qed

definition row_pair :: "int \<times> int \<Rightarrow> nat \<times> nat" where
  "row_pair r = (nat (fst r), nat (snd r))"

lemma rows_ok_insert:
  "rows_ok s \<Longrightarrow> 0 \<le> m \<Longrightarrow> m < 2 ^ 63 \<Longrightarrow> 0 \<le> c \<Longrightarrow> c < 2 ^ 63 \<Longrightarrow> rows_ok (tbl_insert t (m, c) s)"
  unfolding rows_ok_def by (simp add: update_conv')

lemma nat_bound: "n < 2 ^ 63 \<Longrightarrow> int n < 2 ^ 63"
proof -
  assume "n < 2 ^ 63"
  then have "int n < int (2 ^ 63)" by (simp only: of_nat_less_iff)
  then show ?thesis by (simp only: of_nat_power of_nat_numeral)
qed

interpretation sqlq: quota_store sqlite_quota_store rows_ok "\<lambda>s t. map_option row_pair (tbl_get s t)"
proof
  fix s s' :: QuotaRows and t and m n :: "64 word" and d and ok
  assume inv: "rows_ok s"
  let ?v = "\<lambda>s t. map_option row_pair (tbl_get s t)"
  have row: "0 \<le> a \<and> a < 2 ^ 63 \<and> 0 \<le> b \<and> b < 2 ^ 63" if "tbl_get s t = Some (a, b)" for a b
    using inv that unfolding rows_ok_def by blast
  show "qs_get sqlite_quota_store t s = map_option (to_quota t) (?v s t)"
    using row by (cases "tbl_get s t") (auto simp: sqlite_quota_store_def sqlite_get_quota_def to_quota_def row_pair_def)
  show "unat m < 2 ^ 63 \<Longrightarrow> rows_ok (qs_set sqlite_quota_store t m s)
      \<and> ?v (qs_set sqlite_quota_store t m s) = (?v s)(t \<mapsto> (unat m, usage_of (?v s t)))"
    using row rows_ok_insert [OF inv] as_i64_small [of m] nat_bound [of "unat m"]
    by (cases "tbl_get s t")
      (auto simp: sqlite_quota_store_def sqlite_set_quota_def update_conv' usage_of_def row_pair_def fun_eq_iff)
  show "unat n < 2 ^ 63 \<Longrightarrow> rows_ok (qs_update sqlite_quota_store t n s)
      \<and> ?v (qs_update sqlite_quota_store t n s) = (?v s)(t \<mapsto> (limit_of (?v s t), unat n))"
    using row rows_ok_insert [OF inv] as_i64_small [of n] nat_bound [of "unat n"]
    by (cases "tbl_get s t")
      (auto simp: sqlite_quota_store_def sqlite_update_usage_def update_conv' limit_of_def row_pair_def fun_eq_iff)
  show "- (2 ^ 63) \<le> d \<Longrightarrow> int (usage_of (?v s t)) + d < 2 ^ 63 \<Longrightarrow> rows_ok (qs_adjust sqlite_quota_store t d s)
      \<and> ?v (qs_adjust sqlite_quota_store t d s) = (?v s)(t \<mapsto> (limit_of (?v s t), nat (int (usage_of (?v s t)) + d)))"
    using row rows_ok_insert [OF inv]
    by (cases "tbl_get s t")
      (auto simp: sqlite_quota_store_def sqlite_adjust_usage_def update_conv' limit_of_def usage_of_def row_pair_def fun_eq_iff max_def)
  show "usage_of (?v s t) + unat n < 2 ^ 63 \<Longrightarrow> qs_reserve sqlite_quota_store t n s = (ok, s') \<Longrightarrow>
      rows_ok s' \<and> ok = fits (limit_of (?v s t)) (usage_of (?v s t) + unat n)
      \<and> ?v s' = (if ok then (?v s)(t \<mapsto> (limit_of (?v s t), usage_of (?v s t) + unat n)) else ?v s)"
  proof -
    assume small: "usage_of (?v s t) + unat n < 2 ^ 63" and r: "qs_reserve sqlite_quota_store t n s = (ok, s')"
    then have n: "as_i64 n = int (unat n)" by (intro as_i64_small) linarith
    show ?thesis
    proof (cases "tbl_get s t")
      case None
      then show ?thesis
        using r n rows_ok_insert [OF inv, of 0 "int (unat n)" t] nat_bound [OF small]
        by (auto simp: sqlite_quota_store_def sqlite_try_reserve_def limit_of_def usage_of_def fits_def row_pair_def update_conv' fun_eq_iff)
    next
      case (Some p)
      obtain a b where p: "p = (a, b)" by (cases p)
      note ab = row [OF Some [unfolded p]]
      have total: "int (nat b + unat n) = b + int (unat n)" using ab by simp
      then have bound: "b + int (unat n) < 2 ^ 63" using nat_bound [OF small] Some p by (simp add: usage_of_def row_pair_def)
      have fit: "fits (nat a) (nat b + unat n) \<longleftrightarrow> a = 0 \<or> b + int (unat n) \<le> a"
        using ab total unfolding fits_def by linarith
      then show ?thesis
        using r n Some p inv ab bound rows_ok_insert [OF inv, of a "b + int (unat n)" t]
        by (auto simp: sqlite_quota_store_def sqlite_try_reserve_def limit_of_def usage_of_def row_pair_def update_conv' fun_eq_iff
            nat_add_distrib split: if_splits)
    qed
  qed
qed

section \<open>Properties\<close>

text \<open>Reservations and releases.\<close>

fun only_reserves :: "QuotaOp \<Rightarrow> bool" where
  "only_reserves (TryReserve t n) = True"
| "only_reserves (AdjustUsage t d) = (d \<le> 0)"
| "only_reserves _ = False"

lemma spec_keeps_fit:
  "list_all only_reserves ops \<Longrightarrow> fits (limit_of (v t)) (usage_of (v t)) \<Longrightarrow> run_ops spec_op ops v = (bs, v') \<Longrightarrow>
     limit_of (v' t) = limit_of (v t) \<and> fits (limit_of (v' t)) (usage_of (v' t)) \<and> (v t \<noteq> None \<longrightarrow> v' t \<noteq> None)"
proof (induction ops arbitrary: v bs)
  case (Cons op ops)
  obtain b w where w: "spec_op op v = (b, w)" by (cases "spec_op op v")
  obtain cs where cs: "run_ops spec_op ops w = (cs, v')" using Cons.prems(3) w by (auto split: prod.splits)
  have "limit_of (w t) = limit_of (v t) \<and> fits (limit_of (w t)) (usage_of (w t)) \<and> (v t \<noteq> None \<longrightarrow> w t \<noteq> None)"
    using Cons.prems(1,2) w
    by (cases op) (auto simp: limit_of_def usage_of_def fits_def Let_def split: if_splits option.splits)
  then show ?case using Cons.IH [of w cs] Cons.prems(1) cs by auto
qed simp

lemma run_ops_append:
  "run_ops f (xs @ ys) s = (case run_ops f xs s of (as, s1) \<Rightarrow> (case run_ops f ys s1 of (bs, s2) \<Rightarrow> (as @ bs, s2)))"
  by (induction xs arbitrary: s) (auto split: prod.splits)

lemma small_ops_append: "small_ops (xs @ ys) v \<Longrightarrow> small_ops xs v"
  by (induction xs arbitrary: v) auto



end
