(* ===== verification/Git_Push.thy ===== *)
theory Git_Push
  imports Git_Http Tenant_Quota
begin

unbundle bit_operations_syntax

text \<open>
  Webhooks with their checks against requests to internal networks (\<open>muli-core/src/git/webhook.rs\<close>,
  \<open>muli-git/src/hooks.rs\<close>, \<open>api/webhooks.rs\<close>, \<open>muli-store/src/memory/git_webhook_store.rs\<close>), the hooks that
  fire after a push (\<open>muli-git/src/ssh/ref_tracking.rs\<close>, \<open>hooks.rs\<close>), the push endpoint over HTTP
  (\<open>muli-git/src/api/protocol.rs\<close>) and the sessions of the SSH server (\<open>muli-git/src/ssh/\<close>).

  Parameters: the URL parser, name resolution, JSON rendering and HMAC; what git prints; the sizes of
  directories. What is sent or started in the background is the list of these effects, in program order.
\<close>

section \<open>Webhooks\<close>

datatype WebhookEvent = PushEvent | Create | Delete | PrOpened | PrMerged | PrClosed | PipelineStarted | PipelineCompleted

record Webhook =
  wh_id :: string
  wh_tenant_id :: string
  wh_repo_id :: string
  wh_url :: string
  wh_secret :: string
  wh_events :: "WebhookEvent list"
  wh_active :: bool
  wh_created_at :: datetime

definition Webhook_new :: "string \<Rightarrow> datetime \<Rightarrow> string \<Rightarrow> string \<Rightarrow> string \<Rightarrow> string \<Rightarrow> WebhookEvent list \<Rightarrow> Webhook" where
  "Webhook_new uuid now tenant repo url secret events =
     \<lparr>wh_id = uuid, wh_tenant_id = tenant, wh_repo_id = repo, wh_url = url, wh_secret = secret, wh_events = events,
      wh_active = True, wh_created_at = now\<rparr>"

text \<open>An IPv4 address is its four octets, an IPv6 address the list of its eight segments.\<close>

type_synonym ipv4 = "8 word \<times> 8 word \<times> 8 word \<times> 8 word"
type_synonym ipv6 = "16 word list"

datatype IpAddr = V4 ipv4 | V6 ipv6

definition to_ipv4_mapped :: "ipv6 \<Rightarrow> ipv4 option" where
  "to_ipv4_mapped segs =
     (case segs of [a, b, c, d, e, f, g, h] \<Rightarrow>
        if a = 0 \<and> b = 0 \<and> c = 0 \<and> d = 0 \<and> e = 0 \<and> f = 0xFFFF
        then Some (ucast (drop_bit 8 g), ucast g, ucast (drop_bit 8 h), ucast h) else None
      | _ \<Rightarrow> None)"

definition is_private_v4 :: "ipv4 \<Rightarrow> bool" where
  "is_private_v4 ip = (case ip of (a, b, c, d) \<Rightarrow>
     a = 127 \<or> a = 10 \<or> (a = 172 \<and> b AND 0xF0 = 16) \<or> (a = 192 \<and> b = 168) \<or> (a = 0 \<and> b = 0 \<and> c = 0 \<and> d = 0)
     \<or> (a = 169 \<and> b = 254))"

fun is_private_ip :: "IpAddr \<Rightarrow> bool" where
  "is_private_ip (V4 ip) = is_private_v4 ip"
| "is_private_ip (V6 segs) =
     (segs = [0, 0, 0, 0, 0, 0, 0, 1] \<or> segs = [0, 0, 0, 0, 0, 0, 0, 0] \<or> hd segs AND 0xFE00 = 0xFC00
      \<or> hd segs AND 0xFFC0 = 0xFE80 \<or> (case to_ipv4_mapped segs of Some ip \<Rightarrow> is_private_v4 ip | None \<Rightarrow> False))"

datatype Host = Domain string | Ipv4 ipv4 | Ipv6 ipv6

record ParsedUrl =
  url_scheme :: string
  url_host :: "Host option"
  url_port :: "nat option"

definition MAX_WEBHOOK_URL_LEN :: nat where
  "MAX_WEBHOOK_URL_LEN = 2048"

definition validate_webhook_url :: "(string \<Rightarrow> ParsedUrl option) \<Rightarrow> string \<Rightarrow> string + unit" where
  "validate_webhook_url parse url =
     (if MAX_WEBHOOK_URL_LEN < length url then Inl ''URL exceeds maximum length of 2048 characters''
      else case parse url of None \<Rightarrow> Inl ''invalid URL''
      | Some parsed \<Rightarrow>
        if url_scheme parsed \<noteq> ''http'' \<and> url_scheme parsed \<noteq> ''https'' then Inl ''only http and https schemes are allowed''
        else case url_host parsed of None \<Rightarrow> Inl ''URL must have a host''
        | Some (Domain domain) \<Rightarrow>
            if domain = ''localhost'' \<or> domain = ''localhost.localdomain'' \<or> ends_with domain ''.localhost''
            then Inl ''localhost URLs are not allowed'' else Inr ()
        | Some (Ipv4 v4) \<Rightarrow> if is_private_ip (V4 v4) then Inl ''private IP addresses are not allowed'' else Inr ()
        | Some (Ipv6 v6) \<Rightarrow> if is_private_ip (V6 v6) then Inl ''private IP addresses are not allowed'' else Inr ())"

definition validate_webhook_target :: "(string \<Rightarrow> ParsedUrl option) \<Rightarrow> (string \<Rightarrow> nat \<Rightarrow> IpAddr list option) \<Rightarrow> string \<Rightarrow> string + unit" where
  "validate_webhook_target parse resolve url =
     (case validate_webhook_url parse url of Inl e \<Rightarrow> Inl e
      | Inr _ \<Rightarrow> case parse url of None \<Rightarrow> Inl ''invalid URL''
      | Some parsed \<Rightarrow> case url_host parsed of None \<Rightarrow> Inl ''URL must have a host''
      | Some host \<Rightarrow> case url_port parsed of None \<Rightarrow> Inl ''URL must include a known port''
      | Some port \<Rightarrow>
        case host of
          Ipv4 v4 \<Rightarrow> if is_private_ip (V4 v4) then Inl ''private IP addresses are not allowed'' else Inr ()
        | Ipv6 v6 \<Rightarrow> if is_private_ip (V6 v6) then Inl ''private IP addresses are not allowed'' else Inr ()
        | Domain domain \<Rightarrow>
            case resolve domain port of None \<Rightarrow> Inl ''failed to resolve webhook host''
            | Some addrs \<Rightarrow>
              if list_ex is_private_ip addrs then Inl ''webhook host resolved to a private IP address''
              else if addrs = [] then Inl ''failed to resolve webhook host'' else Inr ())"

text \<open>The store.\<close>

type_synonym MemoryWebhookStore = "Webhook table"

definition create_webhook :: "Webhook \<Rightarrow> MemoryWebhookStore \<Rightarrow> string result \<times> MemoryWebhookStore" where
  "create_webhook w s = (Inr (wh_id w), tbl_insert (wh_id w) w s)"

definition get_webhook :: "string \<Rightarrow> MemoryWebhookStore \<Rightarrow> Webhook option result" where
  "get_webhook wid s = Inr (tbl_get s wid)"

definition list_webhooks :: "string \<Rightarrow> string \<Rightarrow> MemoryWebhookStore \<Rightarrow> Webhook list result" where
  "list_webhooks tenant repo s = Inr (filter (\<lambda>w. wh_tenant_id w = tenant \<and> wh_repo_id w = repo) (tbl_values s))"

definition webhook_missing :: "string \<Rightarrow> MuliError" where
  "webhook_missing wid = Storage (''Webhook '' @ wid @ '' not found'')"

definition delete_webhook :: "string \<Rightarrow> MemoryWebhookStore \<Rightarrow> unit result \<times> MemoryWebhookStore" where
  "delete_webhook wid s = (if tbl_contains s wid then (Inr (), tbl_remove wid s) else (Inl (webhook_missing wid), s))"

definition update_webhook :: "Webhook \<Rightarrow> MemoryWebhookStore \<Rightarrow> unit result \<times> MemoryWebhookStore" where
  "update_webhook w s =
     (if tbl_contains s (wh_id w) then (Inr (), tbl_insert (wh_id w) w s) else (Inl (webhook_missing (wh_id w)), s))"

text \<open>Delivery: the requests that are sent.\<close>

fun event_name :: "WebhookEvent \<Rightarrow> string" where
  "event_name PushEvent = ''push''"
| "event_name Create = ''create''"
| "event_name Delete = ''delete''"
| "event_name PrOpened = ''pr.opened''"
| "event_name PrMerged = ''pr.merged''"
| "event_name PrClosed = ''pr.closed''"
| "event_name PipelineStarted = ''pipeline.started''"
| "event_name PipelineCompleted = ''pipeline.completed''"

record WebhookPost =
  post_hook :: Webhook
  post_event :: string
  post_signature :: string
  post_body :: string

record 'p HookEnv =
  he_parse :: "string \<Rightarrow> ParsedUrl option"
  he_resolve :: "string \<Rightarrow> nat \<Rightarrow> IpAddr list option"
  he_render :: "'p \<Rightarrow> string option"
  he_hmac :: "string \<Rightarrow> string \<Rightarrow> string"

definition sign_payload :: "'p HookEnv \<Rightarrow> string \<Rightarrow> string \<Rightarrow> string" where
  "sign_payload env secret payload = ''sha256='' @ he_hmac env secret payload"

definition deliver_webhooks :: "'p HookEnv \<Rightarrow> Webhook list result \<Rightarrow> WebhookEvent \<Rightarrow> 'p \<Rightarrow> bool \<Rightarrow> WebhookPost list" where
  "deliver_webhooks env hooks event payload allow_localhost =
     (case hooks of Inl _ \<Rightarrow> []
      | Inr hs \<Rightarrow> List.map_filter (\<lambda>h.
          if \<not> wh_active h then None
          else if event \<notin> set (wh_events h) then None
          else if \<not> allow_localhost \<and> \<not> is_ok (validate_webhook_target (he_parse env) (he_resolve env) (wh_url h)) then None
          else case he_render env payload of None \<Rightarrow> None
          | Some body \<Rightarrow> Some \<lparr>post_hook = h, post_event = event_name event, post_signature = sign_payload env (wh_secret h) body, post_body = body\<rparr>) hs)"

text \<open>The endpoints.\<close>

definition api_create_webhook :: "'s RepositoryStore \<Rightarrow> 'p HookEnv \<Rightarrow> string \<Rightarrow> datetime \<Rightarrow> bool \<Rightarrow> string \<Rightarrow> string \<Rightarrow> string \<Rightarrow> string \<Rightarrow> string \<Rightarrow> WebhookEvent list \<Rightarrow> bool option \<Rightarrow> 's \<Rightarrow> MemoryWebhookStore \<Rightarrow> HttpResponse \<times> MemoryWebhookStore" where
  "api_create_webhook S env uuid now allow_localhost tenant ns raw url secret events active s ws =
     (case (if allow_localhost then Inr () else validate_webhook_target (he_parse env) (he_resolve env) url) of
        Inl msg \<Rightarrow> (Error_response 400 msg, ws)
      | Inr _ \<Rightarrow> case resolve_repo S tenant ns raw s of Inl r \<Rightarrow> (r, ws)
      | Inr repo \<Rightarrow>
        let w = Webhook_new uuid now tenant (rp_id repo) url secret events;
            w' = (case active of None \<Rightarrow> w | Some a \<Rightarrow> w\<lparr>wh_active := a\<rparr>) in
        case create_webhook w' ws of (Inr _, ws') \<Rightarrow> (Status 201, ws')
        | (Inl _, ws') \<Rightarrow> (Error_response 500 ''failed to create webhook'', ws'))"

definition api_delete_webhook :: "'s RepositoryStore \<Rightarrow> string \<Rightarrow> string \<Rightarrow> string \<Rightarrow> string \<Rightarrow> 's \<Rightarrow> MemoryWebhookStore \<Rightarrow> HttpResponse \<times> MemoryWebhookStore" where
  "api_delete_webhook S tenant ns raw hook_id s ws =
     (case resolve_repo S tenant ns raw s of Inl r \<Rightarrow> (r, ws)
      | Inr repo \<Rightarrow>
        case get_webhook hook_id ws of Inl _ \<Rightarrow> (Error_response 500 ''failed to look up webhook'', ws)
        | Inr found \<Rightarrow>
          if \<not> (case found of Some h \<Rightarrow> wh_repo_id h = rp_id repo \<and> wh_tenant_id h = tenant | None \<Rightarrow> False)
          then (Error_response 404 ''webhook not found'', ws)
          else case delete_webhook hook_id ws of (Inr _, ws') \<Rightarrow> (Status 204, ws')
          | (Inl _, ws') \<Rightarrow> (Error_response 404 ''webhook not found'', ws'))"

section \<open>After a push\<close>

definition zero_sha :: string where
  "zero_sha = replicate 40 (CHR ''0'')"

record RefUpdate =
  old_sha :: string
  new_sha :: string
  ru_ref_name :: string

text \<open>The lines of \<open>git for-each-ref\<close>, absent if the command fails.\<close>

definition read_refs :: "string option \<Rightarrow> string table" where
  "read_refs stdout = (case stdout of None \<Rightarrow> []
     | Some out \<Rightarrow> foldl (\<lambda>refs line. case split_once line '' '' of None \<Rightarrow> refs | Some (sha, refname) \<Rightarrow> tbl_insert refname sha refs)
         [] (str_lines (from_utf8_lossy out)))"

definition compute_ref_updates :: "string table \<Rightarrow> string table \<Rightarrow> RefUpdate list" where
  "compute_ref_updates old_refs new_refs =
     List.map_filter (\<lambda>(ref, sha).
       let old = (case tbl_get old_refs ref of None \<Rightarrow> zero_sha | Some o' \<Rightarrow> o') in
       if old \<noteq> sha then Some \<lparr>old_sha = old, new_sha = sha, ru_ref_name = ref\<rparr> else None) new_refs"

datatype PushPayload = RepoPayload string | RefPayload string string string string

datatype HookEffect =
    OnPush string string string string string
  | Deliver string string PushPayload
  | InvalidateCache string string
  | AdjustQuota string int

record PostPushHooks =
  pipeline_trigger :: bool
  cache_store :: bool
  quota_store :: bool

text \<open>The difference of two sizes, as \<open>i64\<close>.\<close>

definition size_delta :: "64 word \<Rightarrow> 64 word \<Rightarrow> int" where
  "size_delta after before = sint (after - before)"

definition fire :: "PostPushHooks \<Rightarrow> string \<Rightarrow> string \<Rightarrow> string \<Rightarrow> RefUpdate list \<Rightarrow> 64 word option \<Rightarrow> 64 word option \<Rightarrow> HookEffect list" where
  "fire hooks tenant repo_id repo_name updates size_before size_after =
     (if pipeline_trigger hooks
      then map (\<lambda>u. OnPush tenant repo_id (old_sha u) (new_sha u) (ru_ref_name u)) (filter (\<lambda>u. new_sha u \<noteq> zero_sha) updates) else [])
     @ (if updates = [] then [Deliver tenant repo_id (RepoPayload repo_name)]
        else map (\<lambda>u. Deliver tenant repo_id (RefPayload repo_name (ru_ref_name u) (old_sha u) (new_sha u)))
               (filter (\<lambda>u. new_sha u \<noteq> zero_sha) updates))
     @ (if cache_store hooks then [InvalidateCache tenant repo_id] else [])
     @ (case size_before of
          Some before \<Rightarrow>
            let delta = size_delta (case size_after of Some a \<Rightarrow> a | None \<Rightarrow> before) before in
            if quota_store hooks \<and> delta \<noteq> 0 then [AdjustQuota tenant delta] else []
        | None \<Rightarrow> [])"

text \<open>The gate before a push: a tenant with a limit whose usage has reached it.\<close>

definition over_quota :: "TenantQuota option result option \<Rightarrow> bool" where
  "over_quota quota =
     (case quota of Some (Inr (Some q)) \<Rightarrow> 0 < max_storage_bytes q \<and> max_storage_bytes q \<le> current_usage_bytes q | _ \<Rightarrow> False)"

text \<open>What a push over HTTP finds: the body or a failure to read it, the quota if there is a store, the
  references before and after, the sizes of the directory, and the response of \<open>git receive-pack\<close>.\<close>

record PushEnv =
  pe_body :: "string option"
  pe_quota :: "TenantQuota option result option"
  pe_refs_before :: "string table"
  pe_refs_after :: "string table"
  pe_size_before :: "64 word option"
  pe_size_after :: "64 word option"
  pe_response :: "string \<Rightarrow> string \<Rightarrow> nat"

definition receive_pack :: "'s RepositoryStore \<Rightarrow> 'g GitStorage \<Rightarrow> PostPushHooks \<Rightarrow> PushEnv \<Rightarrow> string \<Rightarrow> string \<Rightarrow> string \<Rightarrow> 's \<Rightarrow> HttpResponse \<times> HookEffect list" where
  "receive_pack S G hooks env tenant ns raw s =
     (case resolve_repo S tenant ns raw s of Inl r \<Rightarrow> (r, [])
      | Inr repo \<Rightarrow>
        let repo_name = strip_git_suffix raw; path = gs_repo_path G tenant ns repo_name in
        case pe_body env of None \<Rightarrow> (Status 400, [])
        | Some body \<Rightarrow>
          if over_quota (pe_quota env) then (Error_response 413 ''tenant storage quota exceeded'', [])
          else
            let status = pe_response env path body in
            (Status status,
             if 200 \<le> status \<and> status < 300
             then fire hooks tenant (rp_id repo) repo_name (compute_ref_updates (pe_refs_before env) (pe_refs_after env))
                    (pe_size_before env) (pe_size_after env)
             else []))"

section \<open>SSH sessions\<close>

definition git_ssh_commands :: "(string \<times> string) list" where
  "git_ssh_commands = [(''git-upload-pack '', ''git-upload-pack''), (''git-receive-pack '', ''git-receive-pack''),
     (''git upload-pack '', ''git-upload-pack''), (''git receive-pack '', ''git-receive-pack''),
     (''git-lfs-authenticate '', ''git-lfs-authenticate'')]"

fun first_prefix :: "(string \<times> string) list \<Rightarrow> string \<Rightarrow> (string \<times> string) option" where
  "first_prefix [] s = None"
| "first_prefix ((p, cmd) # ps) s = (case strip_prefix s p of Some r \<Rightarrow> Some (cmd, r) | None \<Rightarrow> first_prefix ps s)"

definition parse_git_ssh_command :: "string \<Rightarrow> (string \<times> string) option" where
  "parse_git_ssh_command command =
     (case first_prefix git_ssh_commands (trim command) of None \<Rightarrow> None
      | Some (cmd, rest) \<Rightarrow>
        Some (cmd, if cmd = ''git-lfs-authenticate'' then trim rest
                   else trim_matches CHR 0x22 (trim_matches CHR 0x27 (trim rest))))"

definition parse_repo_path :: "string \<Rightarrow> (string \<times> string) option" where
  "parse_repo_path path =
     (case splitn 2 CHR ''/'' (dropWhile (\<lambda>c. c = CHR ''/'') path) of
        [ns, repo_raw] \<Rightarrow>
          let repo = (case strip_suffix repo_raw ''.git'' of Some r \<Rightarrow> r | None \<Rightarrow> repo_raw) in
          if ns = [] \<or> repo = [] then None
          else if \<not> git_validate_path_component ns \<or> \<not> git_validate_path_component repo then None
          else Some (ns, repo)
      | _ \<Rightarrow> None)"

text \<open>The text before and after the last space.\<close>

definition rsplit_space :: "string \<Rightarrow> (string \<times> string) option" where
  "rsplit_space s = map_option (\<lambda>(b, a). (rev a, rev b)) (split_once (rev s) '' '')"

definition parse_lfs_authenticate_args :: "string \<Rightarrow> (string \<times> string) option" where
  "parse_lfs_authenticate_args args =
     (case rsplit_space (trim args) of None \<Rightarrow> None
      | Some (before, after) \<Rightarrow>
        let repo_path = trim_matches CHR 0x22 (trim_matches CHR 0x27 (trim before)); operation = trim after in
        if operation \<noteq> ''upload'' \<and> operation \<noteq> ''download'' then None
        else if repo_path = [] then None else Some (repo_path, operation))"

definition lfs_endpoint :: "string \<Rightarrow> string \<Rightarrow> string \<Rightarrow> string" where
  "lfs_endpoint public_url ns repo =
     trim_end_matches CHR ''/'' public_url @ ''/'' @ ns @ ''/'' @ strip_git_suffix repo @ ''.git/info/lfs''"

definition lfs_href :: "string option \<Rightarrow> string option \<Rightarrow> string \<Rightarrow> string \<Rightarrow> string \<Rightarrow> string" where
  "lfs_href public_url git_domain tenant ns repo =
     (case public_url of Some url \<Rightarrow> lfs_endpoint url ns repo
      | None \<Rightarrow> lfs_endpoint (''https://'' @ tenant @ ''.'' @ (case git_domain of Some d \<Rightarrow> d | None \<Rightarrow> ''localhost'')) ns repo)"

record SshPrePushSnapshot =
  snap_tenant_id :: string
  snap_repo_id :: string
  snap_repo_name :: string
  snap_old_refs :: "string table"
  snap_repo_path :: string
  snap_size_before :: "64 word option"

text \<open>The stores by their lookups, and what git and the file system report.\<close>

record SshServer =
  ssh_find_by_fingerprint :: "string \<Rightarrow> SshKey option result"
  ssh_find_in_tenant :: "string \<Rightarrow> string \<Rightarrow> SshKey option result"
  ssh_repository :: "string \<Rightarrow> string \<Rightarrow> string \<Rightarrow> Repository option result"
  ssh_repo_path :: "string \<Rightarrow> string \<Rightarrow> string \<Rightarrow> string"
  ssh_default_tenant :: "string option"
  ssh_org_by_handle :: "string \<Rightarrow> string \<Rightarrow> Organization option result"
  ssh_org_member :: "string \<Rightarrow> string \<Rightarrow> OrgMember option result"
  ssh_collaborator :: "string \<Rightarrow> string \<Rightarrow> RepositoryCollaborator option result"
  ssh_git_domain :: "string option"
  ssh_public_url :: "string option"
  ssh_quota :: "(string \<Rightarrow> TenantQuota option result) option"
  ssh_refs :: "string \<Rightarrow> string table"
  ssh_dir_size :: "string \<Rightarrow> 64 word option"
  ssh_spawns :: "string \<Rightarrow> string \<Rightarrow> bool"

record SshSession =
  authenticated_fingerprint :: "string option"
  authenticated_user_id :: "string option"
  authenticated_key_tenant_id :: "string option"
  processes :: "nat list"

definition SshSession_new :: SshSession where
  "SshSession_new = \<lparr>authenticated_fingerprint = None, authenticated_user_id = None, authenticated_key_tenant_id = None, processes = []\<rparr>"

definition auth_publickey :: "SshServer \<Rightarrow> string \<Rightarrow> SshSession \<Rightarrow> bool \<times> SshSession" where
  "auth_publickey srv fp sess =
     (case ssh_find_by_fingerprint srv fp of
        Inr (Some key) \<Rightarrow>
          (case key_user_id key of
             Some uid \<Rightarrow> (True, sess\<lparr>authenticated_fingerprint := Some fp, authenticated_user_id := Some uid,
                            authenticated_key_tenant_id := Some (key_tenant_id key)\<rparr>)
           | None \<Rightarrow> (False, sess))
      | _ \<Rightarrow> (False, sess))"

datatype SshOutcome =
    ChannelFailure
  | LfsReply string
  | Spawned string string string "SshPrePushSnapshot option"

text \<open>The tenant of a repository: the namespace itself, or else the default tenant.\<close>

definition resolve_tenant :: "SshServer \<Rightarrow> string \<Rightarrow> string \<Rightarrow> string option" where
  "resolve_tenant srv ns name =
     (case ssh_repository srv ns ns name of Inr (Some _) \<Rightarrow> Some ns
      | _ \<Rightarrow> (case ssh_default_tenant srv of None \<Rightarrow> None
              | Some d \<Rightarrow> (case ssh_repository srv d ns name of Inr (Some _) \<Rightarrow> Some d | _ \<Rightarrow> None)))"

definition handle_lfs_authenticate :: "SshServer \<Rightarrow> string \<Rightarrow> SshOutcome" where
  "handle_lfs_authenticate srv args =
     (case parse_lfs_authenticate_args args of None \<Rightarrow> ChannelFailure
      | Some (path, _) \<Rightarrow> case parse_repo_path path of None \<Rightarrow> ChannelFailure
      | Some (ns, name) \<Rightarrow> case resolve_tenant srv ns name of None \<Rightarrow> ChannelFailure
      | Some tenant \<Rightarrow> LfsReply (lfs_href (ssh_public_url srv) (ssh_git_domain srv) tenant ns name))"

definition org_member_ok :: "SshServer \<Rightarrow> string \<Rightarrow> string \<Rightarrow> string \<Rightarrow> bool" where
  "org_member_ok srv tenant ns uid =
     (case ssh_org_by_handle srv tenant ns of
        Inr (Some org) \<Rightarrow> (case ssh_org_member srv (org_id org) uid of Inr (Some _) \<Rightarrow> True | _ \<Rightarrow> False)
      | _ \<Rightarrow> False)"

definition spawn_git_process :: "SshServer \<Rightarrow> string \<Rightarrow> string \<Rightarrow> string \<Rightarrow> SshPrePushSnapshot option \<Rightarrow> SshOutcome" where
  "spawn_git_process srv cmd path tenant post_push =
     (if ssh_spawns srv cmd path then Spawned cmd path tenant post_push else ChannelFailure)"

text \<open>Steps 7 and 8 of a request: the permission of the key, the access to the repository, the quota, and
  the start of the process with the snapshot of a push.\<close>

definition exec_on_repo :: "SshServer \<Rightarrow> string \<Rightarrow> string \<Rightarrow> string \<Rightarrow> string \<Rightarrow> string \<Rightarrow> SshKey \<Rightarrow> SshOutcome" where
  "exec_on_repo srv git_cmd tenant ns name uid key =
     (if git_cmd = ''git-receive-pack'' \<and> \<not> has_permission (key_permissions key) Push then ChannelFailure
      else
        let is_push = (git_cmd = ''git-receive-pack''); required = (if is_push then Push else Pull) in
        (case ssh_repository srv tenant ns name of
           Inr (Some repo) \<Rightarrow>
             if check_repo_access_with_org_lookup repo (Some uid) required (ssh_collaborator srv)
                  (Some (ssh_org_by_handle srv)) (Some (ssh_org_member srv)) tenant \<noteq> Allowed then ChannelFailure
             else
               let repo_path = ssh_repo_path srv tenant ns name in
               if is_push \<and> over_quota (map_option (\<lambda>q. q tenant) (ssh_quota srv)) then ChannelFailure
               else spawn_git_process srv git_cmd repo_path tenant
                      (if is_push then Some \<lparr>snap_tenant_id = tenant, snap_repo_id = rp_id repo, snap_repo_name = name,
                         snap_old_refs = ssh_refs srv repo_path, snap_repo_path = repo_path,
                         snap_size_before = ssh_dir_size srv repo_path\<rparr> else None)
         | _ \<Rightarrow> ChannelFailure))"

definition exec_request :: "SshServer \<Rightarrow> string \<Rightarrow> SshSession \<Rightarrow> SshOutcome" where
  "exec_request srv data sess =
     (let command = trim (if valid_utf8 data then data else []) in
      case (authenticated_fingerprint sess, authenticated_user_id sess) of
        (Some fp, Some uid) \<Rightarrow>
          (case parse_git_ssh_command command of None \<Rightarrow> ChannelFailure
           | Some (git_cmd, path) \<Rightarrow>
             if git_cmd = ''git-lfs-authenticate'' then handle_lfs_authenticate srv path
             else case parse_repo_path path of None \<Rightarrow> ChannelFailure
             | Some (ns, name) \<Rightarrow> case resolve_tenant srv ns name of None \<Rightarrow> ChannelFailure
             | Some tenant \<Rightarrow> case authenticated_key_tenant_id sess of None \<Rightarrow> ChannelFailure
             | Some key_tenant \<Rightarrow> case ssh_find_in_tenant srv key_tenant fp of
                 Inr (Some key) \<Rightarrow>
                   if tenant \<noteq> key_tenant \<and> \<not> org_member_ok srv tenant ns uid then ChannelFailure
                   else exec_on_repo srv git_cmd tenant ns name uid key
               | _ \<Rightarrow> ChannelFailure)
      | _ \<Rightarrow> ChannelFailure)"

text \<open>The channels with a running process, and what happens when a process ends.\<close>

definition exec_channel :: "SshServer \<Rightarrow> nat \<Rightarrow> string \<Rightarrow> SshSession \<Rightarrow> SshOutcome \<times> SshSession" where
  "exec_channel srv channel data sess =
     (case exec_request srv data sess of
        Spawned c p t snap \<Rightarrow> (Spawned c p t snap, sess\<lparr>processes := List.insert channel (processes sess)\<rparr>)
      | r \<Rightarrow> (r, sess))"

definition channel_close :: "nat \<Rightarrow> SshSession \<Rightarrow> SshSession" where
  "channel_close channel sess = sess\<lparr>processes := removeAll channel (processes sess)\<rparr>"

definition process_ended :: "PostPushHooks \<Rightarrow> string table \<Rightarrow> 64 word option \<Rightarrow> nat \<Rightarrow> SshPrePushSnapshot option \<Rightarrow> HookEffect list" where
  "process_ended hooks new_refs size_after exit_code post_push =
     (case post_push of
        Some snap \<Rightarrow>
          if exit_code = 0
          then fire hooks (snap_tenant_id snap) (snap_repo_id snap) (snap_repo_name snap)
                 (compute_ref_updates (snap_old_refs snap) new_refs) (snap_size_before snap) size_after
          else []
      | None \<Rightarrow> [])"

section \<open>Private addresses\<close>

lemma in_block: "r < k \<Longrightarrow> x * k + r \<in> {l * k ..< m * k} \<longleftrightarrow> l \<le> x \<and> x < (m :: nat)"
proof -
  assume r: "r < k"
  then have d: "(x * k + r) div k = x" and k: "0 < k" by simp_all
  have "l * k \<le> x * k + r \<longleftrightarrow> l \<le> (x * k + r) div k" by (rule less_eq_div_iff_mult_less_eq [OF k, symmetric])
  moreover have "x * k + r < m * k \<longleftrightarrow> (x * k + r) div k < m" by (rule div_less_iff_less_mult [OF k, symmetric])
  ultimately show ?thesis unfolding d atLeastLessThan_iff by blast
qed

lemma and_high_nibble: "(b :: 8 word) AND 0xF0 = 16 \<longleftrightarrow> 16 \<le> unat b \<and> unat b < 32"
proof -
  have "(0xF0 :: 8 word) = push_bit 4 (mask 4)" by (simp add: mask_eq_exp_minus_1 push_bit_eq_mult)
  moreover have "b AND push_bit 4 (mask 4) = push_bit 4 (drop_bit 4 b)"
    by (rule bit_word_eqI) (auto simp: bit_simps)
  ultimately have split: "b AND 0xF0 = b - take_bit 4 b" using bits_ident [of 4 b] by (simp add: eq_diff_eq)
  have "unat (take_bit 4 b) = unat b mod 16" by (simp add: take_bit_eq_mod unat_mod)
  moreover have "take_bit 4 b \<le> b" by (simp add: word_le_nat_alt calculation)
  ultimately have "unat (b AND 0xF0) = unat b - unat b mod 16" unfolding split by (simp add: unat_sub)
  moreover have "b AND 0xF0 = 16 \<longleftrightarrow> unat (b AND 0xF0) = 16" by (simp add: word_unat_eq_iff)
  moreover have "n - n mod 16 = 16 \<longleftrightarrow> 16 \<le> n \<and> n < 32" for n :: nat
    using in_block [of "n mod 16" 16 "n div 16" 1 2] by (auto simp: minus_mod_eq_div_mult)
  ultimately show ?thesis by (simp only:)
qed

definition v4_number :: "ipv4 \<Rightarrow> nat" where
  "v4_number ip = (case ip of (a, b, c, d) \<Rightarrow> ((unat a * 256 + unat b) * 256 + unat c) * 256 + unat d)"

definition private_numbers :: "nat set" where
  "private_numbers = {0} \<union> {10 * 2 ^ 24 ..< 11 * 2 ^ 24} \<union> {127 * 2 ^ 24 ..< 128 * 2 ^ 24}
     \<union> {(169 * 256 + 254) * 2 ^ 16 ..< (169 * 256 + 255) * 2 ^ 16} \<union> {(172 * 256 + 16) * 2 ^ 16 ..< (172 * 256 + 32) * 2 ^ 16}
     \<union> {(192 * 256 + 168) * 2 ^ 16 ..< (192 * 256 + 169) * 2 ^ 16}"

lemma in_blocks:
  assumes "r < 65536" "b < 256"
  shows "(a * 256 + b) * 65536 + r \<in> {l * 65536 ..< m * 65536} \<longleftrightarrow> l \<le> a * 256 + b \<and> a * 256 + b < (m :: nat)"
    and "(a * 256 + b) * 65536 + r \<in> {l * 16777216 ..< m * 16777216} \<longleftrightarrow> l \<le> a \<and> a < (m :: nat)"
proof -
  have e: "(a * 256 + b) * 65536 + r = a * 16777216 + (b * 65536 + r)" by (simp add: algebra_simps)
  have "b * 65536 + r < 16777216" using assms by linarith
  then show "(a * 256 + b) * 65536 + r \<in> {l * 16777216 ..< m * 16777216} \<longleftrightarrow> l \<le> a \<and> a < m"
    unfolding e by (rule in_block)
qed (rule in_block [OF assms(1)])

lemma in_row:
  assumes "b < 256" "m \<le> 256"
  shows "k * 256 + l \<le> a * 256 + b \<and> a * 256 + b < k * 256 + (m :: nat) \<longleftrightarrow> a = k \<and> l \<le> b \<and> b < m"
proof (cases "a = k")
  case False
  then consider "a + 1 \<le> k" | "k + 1 \<le> a" by linarith
  then show ?thesis using assms by cases (use False in linarith)+
qed auto

lemma in_private_numbers:
  assumes "r < 65536" "b < 256"
  shows "(a * 256 + b) * 65536 + r \<in> private_numbers \<longleftrightarrow>
    a = 127 \<or> a = 10 \<or> (a = 172 \<and> 16 \<le> b \<and> b < 32) \<or> (a = 192 \<and> b = 168) \<or> (a = 0 \<and> b = 0 \<and> r = 0) \<or> (a = 169 \<and> b = 254)"
proof -
  have "(a * 256 + b) * 65536 + r \<in> private_numbers \<longleftrightarrow>
      (a = 0 \<and> b = 0 \<and> r = 0) \<or> (10 \<le> a \<and> a < 11) \<or> (127 \<le> a \<and> a < 128)
      \<or> (169 * 256 + 254 \<le> a * 256 + b \<and> a * 256 + b < 169 * 256 + 255)
      \<or> (172 * 256 + 16 \<le> a * 256 + b \<and> a * 256 + b < 172 * 256 + 32)
      \<or> (192 * 256 + 168 \<le> a * 256 + b \<and> a * 256 + b < 192 * 256 + 169)"
    unfolding private_numbers_def Un_iff
    using in_blocks(1) [OF assms, of a "169 * 256 + 254" "169 * 256 + 255"]
      in_blocks(1) [OF assms, of a "172 * 256 + 16" "172 * 256 + 32"]
      in_blocks(1) [OF assms, of a "192 * 256 + 168" "192 * 256 + 169"] in_blocks(2) [OF assms, of a 10 11] in_blocks(2) [OF assms, of a 127 128]
    by simp
  moreover have "169 * 256 + 254 \<le> a * 256 + b \<and> a * 256 + b < 169 * 256 + 255 \<longleftrightarrow> a = 169 \<and> 254 \<le> b \<and> b < 255"
    "172 * 256 + 16 \<le> a * 256 + b \<and> a * 256 + b < 172 * 256 + 32 \<longleftrightarrow> a = 172 \<and> 16 \<le> b \<and> b < 32"
    "192 * 256 + 168 \<le> a * 256 + b \<and> a * 256 + b < 192 * 256 + 169 \<longleftrightarrow> a = 192 \<and> 168 \<le> b \<and> b < 169"
    by (rule in_row [OF assms(2)], simp)+
  moreover have "10 \<le> a \<and> a < 11 \<longleftrightarrow> a = 10" "127 \<le> a \<and> a < 128 \<longleftrightarrow> a = 127" "254 \<le> b \<and> b < 255 \<longleftrightarrow> b = 254"
    "168 \<le> b \<and> b < 169 \<longleftrightarrow> b = 168" by linarith+
  ultimately show ?thesis by (simp only:) blast
qed

lemma octet: "unat (a :: 8 word) < 256"
  using unsigned_less [of a, where ?'a = nat] by simp

lemma is_private_v4_iff: "is_private_v4 ip \<longleftrightarrow> v4_number ip \<in> private_numbers"
proof -
  obtain a b c d where ip: "ip = (a, b, c, d)" by (cases ip)
  have eqs: "a = 127 \<longleftrightarrow> unat a = 127" "a = 10 \<longleftrightarrow> unat a = 10" "a = 172 \<longleftrightarrow> unat a = 172" "a = 192 \<longleftrightarrow> unat a = 192"
      "b = 168 \<longleftrightarrow> unat b = 168" "a = 169 \<longleftrightarrow> unat a = 169" "b = 254 \<longleftrightarrow> unat b = 254"
      "a = 0 \<longleftrightarrow> unat a = 0" "b = 0 \<longleftrightarrow> unat b = 0" "c = 0 \<longleftrightarrow> unat c = 0" "d = 0 \<longleftrightarrow> unat d = 0"
    by (simp_all add: word_unat_eq_iff)
  have num: "v4_number ip = (unat a * 256 + unat b) * 65536 + (unat c * 256 + unat d)"
    by (simp add: ip v4_number_def algebra_simps)
  have r: "unat c * 256 + unat d < 65536" using octet [of c] octet [of d] by linarith
  show ?thesis
    unfolding num in_private_numbers [OF r octet] unfolding ip is_private_v4_def prod.case and_high_nibble eqs by auto
qed

text \<open>An address outside the internal networks: IPv4 by its number; IPv6 by its first segment, or as a mapped
  IPv4 address.\<close>

fun public_ip :: "IpAddr \<Rightarrow> bool" where
  "public_ip (V4 ip) \<longleftrightarrow> v4_number ip \<notin> private_numbers"
| "public_ip (V6 segs) \<longleftrightarrow> segs \<noteq> [0, 0, 0, 0, 0, 0, 0, 1] \<and> segs \<noteq> [0, 0, 0, 0, 0, 0, 0, 0] \<and> hd segs AND 0xFE00 \<noteq> 0xFC00
     \<and> hd segs AND 0xFFC0 \<noteq> 0xFE80 \<and> (\<forall>ip. to_ipv4_mapped segs = Some ip \<longrightarrow> v4_number ip \<notin> private_numbers)"

lemma public_ip_iff: "public_ip a \<longleftrightarrow> \<not> is_private_ip a"
  by (cases a) (auto simp: is_private_v4_iff split: option.split)

fun public_host :: "(string \<Rightarrow> nat \<Rightarrow> IpAddr list option) \<Rightarrow> nat \<Rightarrow> Host \<Rightarrow> bool" where
  "public_host resolve port (Ipv4 ip) = public_ip (V4 ip)"
| "public_host resolve port (Ipv6 ip) = public_ip (V6 ip)"
| "public_host resolve port (Domain d) = (d \<noteq> ''localhost'' \<and> d \<noteq> ''localhost.localdomain'' \<and> \<not> ends_with d ''.localhost''
     \<and> (\<exists>addrs. resolve d port = Some addrs \<and> addrs \<noteq> [] \<and> list_all public_ip addrs))"

definition public_url :: "(string \<Rightarrow> ParsedUrl option) \<Rightarrow> (string \<Rightarrow> nat \<Rightarrow> IpAddr list option) \<Rightarrow> string \<Rightarrow> bool" where
  "public_url parse resolve url \<longleftrightarrow> length url \<le> 2048 \<and>
     (\<exists>parsed host port. parse url = Some parsed \<and> url_scheme parsed \<in> {''http'', ''https''} \<and> url_host parsed = Some host
        \<and> url_port parsed = Some port \<and> public_host resolve port host)"

lemma ex_private: "list_ex is_private_ip addrs \<longleftrightarrow> \<not> list_all public_ip addrs"
  by (induction addrs) (auto simp: public_ip_iff)

lemma validate_target_iff: "is_ok (validate_webhook_target parse resolve url) \<longleftrightarrow> public_url parse resolve url"
proof (cases "parse url")
  case (Some parsed)
  show ?thesis
  proof (cases "url_host parsed")
    case (Some host)
    then show ?thesis using \<open>parse url = Some parsed\<close>
      by (cases host)
        (auto simp: validate_webhook_target_def validate_webhook_url_def public_url_def MAX_WEBHOOK_URL_LEN_def public_ip_iff ex_private
          is_ok_def simp del: public_ip.simps split: option.splits if_splits)
  qed (use Some in \<open>auto simp: validate_webhook_target_def validate_webhook_url_def public_url_def is_ok_def split: if_splits\<close>)
qed (auto simp: validate_webhook_target_def validate_webhook_url_def public_url_def is_ok_def)

section \<open>Push lemmas\<close>

definition old_of :: "string table \<Rightarrow> string \<Rightarrow> string" where
  "old_of old ref = (case tbl_get old ref of None \<Rightarrow> zero_sha | Some sha \<Rightarrow> sha)"

lemma compute_ref_updates_eq:
  "compute_ref_updates old new =
     map (\<lambda>(ref, sha). \<lparr>old_sha = old_of old ref, new_sha = sha, ru_ref_name = ref\<rparr>) (filter (\<lambda>(ref, sha). old_of old ref \<noteq> sha) new)"
  by (induction new) (auto simp: compute_ref_updates_def List.map_filter_simps Let_def old_of_def)

lemma update_in_updates:
  assumes "tbl_ok new"
  shows "u \<in> set (compute_ref_updates old new) \<longleftrightarrow>
    tbl_get new (ru_ref_name u) = Some (new_sha u) \<and> old_sha u = old_of old (ru_ref_name u) \<and> old_sha u \<noteq> new_sha u"
  using assms by (cases u) (force simp: compute_ref_updates_eq)

lemma ref_names_distinct: "tbl_ok new \<Longrightarrow> distinct (map ru_ref_name (compute_ref_updates old new))"
  by (simp add: compute_ref_updates_eq comp_def case_prod_unfold distinct_map_filter)

lemma fire_on_push:
  "OnPush t r a b ref \<in> set (fire hooks tenant repo name updates before after) \<longleftrightarrow>
     pipeline_trigger hooks \<and> t = tenant \<and> r = repo \<and> b \<noteq> zero_sha \<and> \<lparr>old_sha = a, new_sha = b, ru_ref_name = ref\<rparr> \<in> set updates"
proof -
  have "\<lparr>old_sha = a, new_sha = b, ru_ref_name = ref\<rparr> \<in> set updates \<longleftrightarrow>
      (\<exists>u \<in> set updates. old_sha u = a \<and> new_sha u = b \<and> ru_ref_name u = ref)"
  proof
    assume "\<exists>u \<in> set updates. old_sha u = a \<and> new_sha u = b \<and> ru_ref_name u = ref"
    then obtain u where u: "u \<in> set updates" "old_sha u = a" "new_sha u = b" "ru_ref_name u = ref" by blast
    have "u = \<lparr>old_sha = a, new_sha = b, ru_ref_name = ref\<rparr>" by (cases u) (use u(2-4) in simp)
    then show "\<lparr>old_sha = a, new_sha = b, ru_ref_name = ref\<rparr> \<in> set updates" using u(1) by simp
  qed force
  then show ?thesis by (auto simp: fire_def Let_def image_iff split: option.split)
qed

lemma fire_deliver:
  "Deliver t r p \<in> set (fire hooks tenant repo name updates before after) \<longleftrightarrow> t = tenant \<and> r = repo \<and>
     (if updates = [] then p = RepoPayload name
      else \<exists>u \<in> set updates. new_sha u \<noteq> zero_sha \<and> p = RefPayload name (ru_ref_name u) (old_sha u) (new_sha u))"
  by (force simp: fire_def Let_def split: option.split)

lemma fire_quota:
  "AdjustQuota t d \<in> set (fire hooks tenant repo name updates before after) \<longleftrightarrow>
     quota_store hooks \<and> t = tenant \<and> d \<noteq> 0 \<and> (\<exists>b. before = Some b \<and> d = size_delta (case after of Some a \<Rightarrow> a | None \<Rightarrow> b) b)"
proof (cases before)
  case (Some b)
  then show ?thesis by (simp add: fire_def Let_def image_iff) (rule iffI, simp_all)
qed (simp add: fire_def image_iff)

lemma size_delta_small:
  assumes "unat a < 2 ^ 63" "unat b < 2 ^ 63"
  shows "size_delta a b = int (unat a) - int (unat b)"
proof -
  have "a - b = word_of_int (int (unat a) - int (unat b))" by (simp add: word_of_int_hom_syms)
  moreover have "sint (word_of_int (int (unat a) - int (unat b)) :: 64 word) = int (unat a) - int (unat b)"
    by (rule sint_in_range) (use nat_bound [OF assms(1)] nat_bound [OF assms(2)] in linarith)+
  ultimately show ?thesis unfolding size_delta_def by (simp only:)
qed

lemma ssh_commands: "parse_git_ssh_command s = Some (c, p) \<Longrightarrow> c \<in> {''git-upload-pack'', ''git-receive-pack'', ''git-lfs-authenticate''}"
  by (auto simp: parse_git_ssh_command_def git_ssh_commands_def split: option.splits if_splits)

lemma repo_path_valid: "parse_repo_path p = Some (ns, name) \<Longrightarrow> git_validate_path_component ns \<and> git_validate_path_component name"
  by (auto simp: parse_repo_path_def Let_def split: list.splits if_splits)

lemma resolve_tenant_cases:
  "resolve_tenant srv ns name = Some tenant \<Longrightarrow> tenant = ns \<or> ssh_default_tenant srv = Some tenant"
  by (auto simp: resolve_tenant_def split: sum.splits option.splits)

lemma lfs_spawns_nothing: "handle_lfs_authenticate srv args \<noteq> Spawned c p t sn"
  by (auto simp: handle_lfs_authenticate_def split: option.splits)

lemma exec_steps:
  assumes "exec_request srv data sess = Spawned cmd path tenant snap" "authenticated_fingerprint sess = Some fp"
    and "authenticated_user_id sess = Some uid" "authenticated_key_tenant_id sess = Some kt"
  obtains rpath ns name key where "parse_git_ssh_command (trim (if valid_utf8 data then data else [])) = Some (cmd, rpath)"
    and "cmd \<noteq> ''git-lfs-authenticate''" "parse_repo_path rpath = Some (ns, name)" "resolve_tenant srv ns name = Some tenant"
    and "ssh_find_in_tenant srv kt fp = Inr (Some key)" "tenant = kt \<or> org_member_ok srv tenant ns uid"
    and "cmd = ''git-receive-pack'' \<longrightarrow> Push \<in> set (key_permissions key)"
    and "\<exists>repo. ssh_repository srv tenant ns name = Inr (Some repo) \<and> path = ssh_repo_path srv tenant ns name
      \<and> check_repo_access_with_org_lookup repo (Some uid) (if cmd = ''git-receive-pack'' then Push else Pull) (ssh_collaborator srv)
           (Some (ssh_org_by_handle srv)) (Some (ssh_org_member srv)) tenant = Allowed
      \<and> (cmd = ''git-receive-pack'' \<longrightarrow> \<not> over_quota (map_option (\<lambda>q. q tenant) (ssh_quota srv))
          \<and> (\<exists>sn. snap = Some sn \<and> snap_repo_id sn = rp_id repo \<and> snap_old_refs sn = ssh_refs srv path))
      \<and> (cmd \<noteq> ''git-receive-pack'' \<longrightarrow> snap = None)"
proof -
  obtain c rpath where c: "parse_git_ssh_command (trim (if valid_utf8 data then data else [])) = Some (c, rpath)"
    using assms by (cases "parse_git_ssh_command (trim (if valid_utf8 data then data else []))") (auto simp: exec_request_def)
  note ex1 = assms(1) [unfolded exec_request_def exec_on_repo_def Let_def assms(2,3) prod.case option.case c]
  have nl: "c \<noteq> ''git-lfs-authenticate''" using ex1 lfs_spawns_nothing by (auto split: if_splits)
  obtain ns name where n: "parse_repo_path rpath = Some (ns, name)" using ex1 nl by (cases "parse_repo_path rpath") auto
  obtain t where t: "resolve_tenant srv ns name = Some t" using ex1 nl n by (cases "resolve_tenant srv ns name") auto
  obtain key where key: "ssh_find_in_tenant srv kt fp = Inr (Some key)"
    using ex1 nl n t assms(4) by (auto split: sum.splits option.splits)
  obtain repo where repo: "ssh_repository srv t ns name = Inr (Some repo)"
    using ex1 nl n t assms(4) key by (auto split: sum.splits option.splits if_splits)
  note ex2 = ex1 [unfolded n t assms(4) key repo prod.case option.case sum.case]
  have "c = cmd" "t = tenant" using ex2 nl by (auto simp: spawn_git_process_def split: if_splits)
  then show ?thesis
    using that [of rpath ns name key] c nl n t key repo ex2
    by (auto simp: spawn_git_process_def has_permission_def split: if_splits)
qed

section \<open>Properties\<close>


definition sample_hook :: Webhook where
  "sample_hook = Webhook_new ''h'' 0 ''t'' ''r1'' ''http://8.8.8.8/x'' ''s'' [PushEvent]"

definition sample_hook_env :: "PushPayload HookEnv" where
  "sample_hook_env = \<lparr>he_parse = \<lambda>url. Some \<lparr>url_scheme = ''http'', url_host = Some (Ipv4 (8, 8, 8, 8)), url_port = Some 80\<rparr>,
     he_resolve = \<lambda>_ _. None, he_render = \<lambda>_. Some ''{}'', he_hmac = \<lambda>_ _. ''00''\<rparr>"





text \<open>
  C10. What a session may start. A git process started by a session that authenticated with a public key runs
  for the user of that key, whose key is still registered in its tenant, on a repository that exists, in the
  directory given by valid path components, and only if the access check allows the user to read, or for
  \<open>git-receive-pack\<close> to write. Across tenants the user is a member of the organization. A push needs in
  addition a key with the push permission and a tenant below its quota, and always carries the snapshot of
  the references from which its hooks are computed.\<close>

theorem ssh_exec_authorized:
  assumes "auth_publickey srv0 fp SshSession_new = (True, sess)" "exec_request srv data sess = Spawned cmd path tenant snap"
  shows "\<exists>key0 uid key ns name repo.
      ssh_find_by_fingerprint srv0 fp = Inr (Some key0) \<and> key_user_id key0 = Some uid
      \<and> ssh_find_in_tenant srv (key_tenant_id key0) fp = Inr (Some key)
      \<and> git_validate_path_component ns \<and> git_validate_path_component name \<and> path = ssh_repo_path srv tenant ns name
      \<and> (tenant = ns \<or> ssh_default_tenant srv = Some tenant)
      \<and> ssh_repository srv tenant ns name = Inr (Some repo)
      \<and> (tenant \<noteq> key_tenant_id key0 \<longrightarrow> org_member_ok srv tenant ns uid)
      \<and> check_repo_access_with_org_lookup repo (Some uid) (if cmd = ''git-receive-pack'' then Push else Pull) (ssh_collaborator srv)
           (Some (ssh_org_by_handle srv)) (Some (ssh_org_member srv)) tenant = Allowed
      \<and> (if cmd = ''git-receive-pack''
          then Push \<in> set (key_permissions key) \<and> \<not> over_quota (map_option (\<lambda>q. q tenant) (ssh_quota srv))
            \<and> (\<exists>sn. snap = Some sn \<and> snap_repo_id sn = rp_id repo \<and> snap_old_refs sn = ssh_refs srv path)
          else cmd = ''git-upload-pack'' \<and> snap = None)"
proof -
  obtain key0 uid where k: "ssh_find_by_fingerprint srv0 fp = Inr (Some key0)" "key_user_id key0 = Some uid"
      "authenticated_fingerprint sess = Some fp" "authenticated_user_id sess = Some uid"
      "authenticated_key_tenant_id sess = Some (key_tenant_id key0)"
    using assms(1) by (auto simp: auth_publickey_def split: sum.splits option.splits)
  obtain rpath ns name key where c: "parse_git_ssh_command (trim (if valid_utf8 data then data else [])) = Some (cmd, rpath)"
      "cmd \<noteq> ''git-lfs-authenticate''" and n: "parse_repo_path rpath = Some (ns, name)" "resolve_tenant srv ns name = Some tenant"
      and key: "ssh_find_in_tenant srv (key_tenant_id key0) fp = Inr (Some key)" "tenant = key_tenant_id key0 \<or> org_member_ok srv tenant ns uid"
        "cmd = ''git-receive-pack'' \<longrightarrow> Push \<in> set (key_permissions key)"
      and ex: "\<exists>repo. ssh_repository srv tenant ns name = Inr (Some repo) \<and> path = ssh_repo_path srv tenant ns name
        \<and> check_repo_access_with_org_lookup repo (Some uid) (if cmd = ''git-receive-pack'' then Push else Pull) (ssh_collaborator srv)
             (Some (ssh_org_by_handle srv)) (Some (ssh_org_member srv)) tenant = Allowed
        \<and> (cmd = ''git-receive-pack'' \<longrightarrow> \<not> over_quota (map_option (\<lambda>q. q tenant) (ssh_quota srv))
            \<and> (\<exists>sn. snap = Some sn \<and> snap_repo_id sn = rp_id repo \<and> snap_old_refs sn = ssh_refs srv path))
        \<and> (cmd \<noteq> ''git-receive-pack'' \<longrightarrow> snap = None)"
    by (rule exec_steps [OF assms(2) k(3-5)])
  from ex obtain repo where repo: "ssh_repository srv tenant ns name = Inr (Some repo)" "path = ssh_repo_path srv tenant ns name"
      "check_repo_access_with_org_lookup repo (Some uid) (if cmd = ''git-receive-pack'' then Push else Pull) (ssh_collaborator srv)
         (Some (ssh_org_by_handle srv)) (Some (ssh_org_member srv)) tenant = Allowed"
      "cmd = ''git-receive-pack'' \<longrightarrow> \<not> over_quota (map_option (\<lambda>q. q tenant) (ssh_quota srv))
        \<and> (\<exists>sn. snap = Some sn \<and> snap_repo_id sn = rp_id repo \<and> snap_old_refs sn = ssh_refs srv path)"
      "cmd \<noteq> ''git-receive-pack'' \<longrightarrow> snap = None" by blast
  have "cmd \<noteq> ''git-receive-pack'' \<Longrightarrow> cmd = ''git-upload-pack''" using ssh_commands [OF c(1)] c(2) by blast
  then have push: "if cmd = ''git-receive-pack''
      then Push \<in> set (key_permissions key) \<and> \<not> over_quota (map_option (\<lambda>q. q tenant) (ssh_quota srv))
        \<and> (\<exists>sn. snap = Some sn \<and> snap_repo_id sn = rp_id repo \<and> snap_old_refs sn = ssh_refs srv path)
      else cmd = ''git-upload-pack'' \<and> snap = None"
    using key(3) repo(4,5) by (cases "cmd = ''git-receive-pack''") simp_all
  have "tenant \<noteq> key_tenant_id key0 \<longrightarrow> org_member_ok srv tenant ns uid" using key(2) by blast
  with k(1,2) key(1) repo_path_valid [OF n(1), THEN conjunct1] repo_path_valid [OF n(1), THEN conjunct2] resolve_tenant_cases [OF n(2)] repo(1-3) push show ?thesis
    by (intro exI conjI) assumption+
qed

definition sample_key :: SshKey where
  "sample_key = (SshKey_new ''k'' 0 ''t'' ''fp'' ''pub'' ''title'' [Push])\<lparr>key_user_id := Some ''alice''\<rparr>"

definition sample_ssh_server :: SshServer where
  "sample_ssh_server = \<lparr>ssh_find_by_fingerprint = \<lambda>_. Inr (Some sample_key), ssh_find_in_tenant = \<lambda>_ _. Inr (Some sample_key),
     ssh_repository = \<lambda>t ns n. get_repository_by_name t ns n [(''r1'', sample_repo)], ssh_repo_path = repo_path ''/srv'',
     ssh_default_tenant = Some ''t'', ssh_org_by_handle = \<lambda>_ _. Inr None, ssh_org_member = \<lambda>_ _. Inr None,
     ssh_collaborator = \<lambda>_ _. Inr None, ssh_git_domain = None, ssh_public_url = None, ssh_quota = None,
     ssh_refs = \<lambda>_. [], ssh_dir_size = \<lambda>_. None, ssh_spawns = \<lambda>_ _. True\<rparr>"


lemma valid_utf8_ascii: "list_all (\<lambda>c. byte c < 128) s \<Longrightarrow> valid_utf8 s"
proof (induction s)
  case (Cons c s)
  then have "utf8_head (c # s) = (True, 1)" by (simp add: utf8_head_def byte_at_def Let_def)
  then show ?case using Cons by (simp add: valid_utf8.simps [of "c # s"])
qed (simp add: valid_utf8.simps)

lemma trim_stop: "trim_safe c \<Longrightarrow> trim_safe d \<Longrightarrow> trim (c # s @ [d]) = c # s @ [d]"
  using trim_start_stop [of c "s @ [d]"] trim_end_stop [of d "c # s"] by (simp add: trim_def)

lemma sample_command:
  "trim ''git-receive-pack acme/secret.git'' = ''git-receive-pack acme/secret.git''" "trim ''acme/secret.git'' = ''acme/secret.git''"
  using trim_stop [of "CHR ''g''" "CHR ''t''" "''it-receive-pack acme/secret.gi''"] trim_stop [of "CHR ''a''" "CHR ''t''" "''cme/secret.gi''"]
  by (simp_all add: trim_safe_def)

lemma sample_parse:
  "parse_git_ssh_command ''git-receive-pack acme/secret.git'' = Some (''git-receive-pack'', ''acme/secret.git'')"
  "parse_repo_path ''acme/secret.git'' = Some (''acme'', ''secret'')"
proof -
  show "parse_git_ssh_command ''git-receive-pack acme/secret.git'' = Some (''git-receive-pack'', ''acme/secret.git'')"
    by (simp add: parse_git_ssh_command_def git_ssh_commands_def sample_command strip_prefix_def starts_with_def trim_matches_def)
  have "git_validate_path_component ''acme''" "git_validate_path_component ''secret''"
    by (simp_all add: git_validate_path_component_def white_space_def contains_sub_def starts_with_def ends_with_def)
  then show "parse_repo_path ''acme/secret.git'' = Some (''acme'', ''secret'')"
    by (simp add: parse_repo_path_def numeral_2_eq_2 split_once_def starts_with_def strip_suffix_def ends_with_def)
qed

theorem ssh_exec_authorized_witness:
  "\<exists>sess snap. auth_publickey sample_ssh_server ''fp'' SshSession_new = (True, sess)
     \<and> exec_request sample_ssh_server ''git-receive-pack acme/secret.git'' sess
       = Spawned ''git-receive-pack'' (repo_path ''/srv'' ''t'' ''acme'' ''secret'') ''t'' snap
     \<and> snap \<noteq> None"
proof -
  let ?sess = "\<lparr>authenticated_fingerprint = Some ''fp'', authenticated_user_id = Some ''alice'', authenticated_key_tenant_id = Some ''t'',
    processes = []\<rparr>"
  have auth: "auth_publickey sample_ssh_server ''fp'' SshSession_new = (True, ?sess)"
    by (simp add: auth_publickey_def sample_ssh_server_def SshSession_new_def sample_key_def SshKey_new_def)
  have tenant: "resolve_tenant sample_ssh_server ''acme'' ''secret'' = Some ''t''"
    by (simp add: resolve_tenant_def sample_ssh_server_def get_repository_by_name_def named_def sample_repo_def)
  have utf: "valid_utf8 ''git-receive-pack acme/secret.git''" by (rule valid_utf8_ascii) simp
  obtain snap where ex: "exec_request sample_ssh_server ''git-receive-pack acme/secret.git'' ?sess
      = Spawned ''git-receive-pack'' (repo_path ''/srv'' ''t'' ''acme'' ''secret'') ''t'' snap"
    by (simp add: exec_request_def utf sample_command sample_parse tenant)
      (simp add: exec_on_repo_def sample_ssh_server_def sample_key_def SshKey_new_def has_permission_def get_repository_by_name_def named_def sample_repo_def
        check_repo_access_with_org_lookup_def check_repo_access_def over_quota_def spawn_git_process_def Let_def)
  then show ?thesis using auth ssh_exec_authorized [OF auth ex] by auto
qed

end
