(* ===== verification/Registry_Names.thy ===== *)
theory Registry_Names
  imports Rust_Text Muli_Error
begin

text \<open>
  Names in the container registry: repository names, tags, digests and upload identifiers, as
  \<open>muli-registry/src/validation.rs\<close> and \<open>storage/validate.rs\<close> check them. The checks are loops over bytes;
  the main results relate them to the patterns of the OCI distribution specification that their comments
  quote.\<close>

section \<open>Checks\<close>

datatype ValidationError =
    InvalidRepositoryName string
  | InvalidReference string
  | ValInvalidDigest string

definition lower_alnum :: "char \<Rightarrow> bool" where
  "lower_alnum c \<longleftrightarrow> (97 \<le> byte c \<and> byte c \<le> 122) \<or> (48 \<le> byte c \<and> byte c \<le> 57)"

definition name_sep :: "char \<Rightarrow> bool" where
  "name_sep c \<longleftrightarrow> c = CHR ''.'' \<or> c = CHR ''_'' \<or> c = CHR ''-''"

text \<open>The second loop of \<open>is_valid_name_component\<close>, on the bytes that are left: a separator, then at least
  one letter or digit, then as many as follow.\<close>

function component_rest :: "string \<Rightarrow> bool" where
  "component_rest [] = True"
| "component_rest (c # s) =
     (if \<not> name_sep c then False
      else case s of [] \<Rightarrow> False
           | d # t \<Rightarrow> if \<not> lower_alnum d then False else component_rest (dropWhile lower_alnum t))"
  by pat_completeness auto
termination
  by (relation "measure length") (auto intro: le_less_trans [OF length_dropWhile_le])

definition is_valid_name_component :: "string \<Rightarrow> bool" where
  "is_valid_name_component component =
     (case component of [] \<Rightarrow> False
      | c # s \<Rightarrow> if \<not> lower_alnum c then False else component_rest (dropWhile lower_alnum s))"

definition validate_repository_name :: "string \<Rightarrow> ValidationError + unit" where
  "validate_repository_name name =
     (if name = [] \<or> 256 < length name then Inl (InvalidRepositoryName name)
      else if list_ex (\<lambda>c. \<not> is_valid_name_component c) (split_char CHR ''/'' name) then Inl (InvalidRepositoryName name)
      else Inr ())"

definition lower_hex :: "char \<Rightarrow> bool" where
  "lower_hex c \<longleftrightarrow> (48 \<le> byte c \<and> byte c \<le> 57) \<or> (97 \<le> byte c \<and> byte c \<le> 102)"

definition validate_digest :: "string \<Rightarrow> ValidationError + unit" where
  "validate_digest digest =
     (case split_once digest '':'' of None \<Rightarrow> Inl (ValInvalidDigest digest)
      | Some (algo, hash) \<Rightarrow>
        case (if algo = ''sha256'' then Some 64 else if algo = ''sha512'' then Some 128 else None) of
          None \<Rightarrow> Inl (ValInvalidDigest digest)
        | Some expected_len \<Rightarrow>
          if length hash \<noteq> expected_len then Inl (ValInvalidDigest digest)
          else if \<not> list_all lower_hex hash then Inl (ValInvalidDigest digest)
          else Inr ())"

definition tag_char :: "char \<Rightarrow> bool" where
  "tag_char c \<longleftrightarrow> is_ascii_alphanumeric c \<or> c = CHR ''_'' \<or> c = CHR ''.'' \<or> c = CHR ''-''"

definition validate_reference :: "string \<Rightarrow> ValidationError + unit" where
  "validate_reference reference =
     (if reference = [] then Inl (InvalidReference reference)
      else if CHR '':'' \<in> set reference
      then (case validate_digest reference of Inl _ \<Rightarrow> Inl (InvalidReference reference) | Inr _ \<Rightarrow> Inr ())
      else if 128 < length reference then Inl (InvalidReference reference)
      else if \<not> is_ascii_alphanumeric (hd reference) \<and> hd reference \<noteq> CHR ''_'' then Inl (InvalidReference reference)
      else if \<not> list_all tag_char reference then Inl (InvalidReference reference)
      else Inr ())"

text \<open>Errors of the storage. The messages of failed system calls are not modelled.\<close>

datatype StorageError =
    BlobNotFound string
  | ManifestNotFound string string
  | InvalidDigest string
  | BlobTooLarge string
  | InvalidInput string
  | Io

fun storage_error_from :: "ValidationError \<Rightarrow> StorageError" where
  "storage_error_from (ValInvalidDigest d) = InvalidDigest d"
| "storage_error_from (InvalidRepositoryName n) = InvalidInput (''invalid repository name: '' @ n)"
| "storage_error_from (InvalidReference r) = InvalidInput (''invalid reference: '' @ r)"

definition parse_digest :: "string \<Rightarrow> StorageError + (string \<times> string)" where
  "parse_digest digest =
     (case validate_digest digest of Inl _ \<Rightarrow> Inl (InvalidDigest digest)
      | Inr _ \<Rightarrow> (case split_once digest '':'' of Some p \<Rightarrow> Inr p | None \<Rightarrow> Inl (InvalidDigest digest)))"

definition ensure_no_traversal :: "string list \<Rightarrow> StorageError + unit" where
  "ensure_no_traversal path = (if ''..'' \<in> set path then Inl (InvalidInput ''path traversal detected'') else Inr ())"

definition validate_upload_id :: "string \<Rightarrow> StorageError + unit" where
  "validate_upload_id uid =
     (let bad = Inl (InvalidInput (''invalid upload id: '' @ uid)); parts = split_char CHR ''-'' uid in
      if length uid \<noteq> 36 then bad
      else if map length parts \<noteq> [8, 4, 4, 4, 12] then bad
      else if \<not> list_all (list_all is_ascii_hexdigit) parts then bad
      else Inr ())"

section \<open>Patterns\<close>

text \<open>The pattern \<open>[a-z0-9]+([._-][a-z0-9]+)*\<close> of a component, as a first run and the runs that follow, each
  with its separator.\<close>

definition run :: "string \<Rightarrow> bool" where
  "run w \<longleftrightarrow> w \<noteq> [] \<and> list_all lower_alnum w"

definition component_pattern :: "string \<Rightarrow> bool" where
  "component_pattern s \<longleftrightarrow>
     (\<exists>w ws. s = w @ concat (map (\<lambda>(c, v). c # v) ws) \<and> run w \<and> list_all (\<lambda>(c, v). name_sep c \<and> run v) ws)"

lemma sep_not_alnum: "name_sep c \<Longrightarrow> \<not> lower_alnum c"
  by (auto simp: name_sep_def lower_alnum_def)

lemma split_run:
  assumes "lower_alnum c"
  shows "c # s = (c # takeWhile lower_alnum s) @ dropWhile lower_alnum s" "run (c # takeWhile lower_alnum s)"
  using assms by (auto simp: run_def list_all_iff dest: set_takeWhileD)

lemma dropWhile_run:
  assumes "list_all lower_alnum u" "list_all (\<lambda>(c, v). name_sep c \<and> run v) ws"
  shows "dropWhile lower_alnum (u @ concat (map (\<lambda>(c, v). c # v) ws)) = concat (map (\<lambda>(c, v). c # v) ws)"
proof -
  have "dropWhile lower_alnum (concat (map (\<lambda>(c, v). c # v) ws)) = concat (map (\<lambda>(c, v). c # v) ws)"
    using assms(2) by (cases ws) (auto simp: sep_not_alnum)
  then show ?thesis using assms(1) by (simp add: dropWhile_append list_all_iff)
qed

lemma component_rest_pattern:
  "component_rest s \<longleftrightarrow> (\<exists>ws. s = concat (map (\<lambda>(c, v). c # v) ws) \<and> list_all (\<lambda>(c, v). name_sep c \<and> run v) ws)"
proof (induction s rule: component_rest.induct)
  case 1
  show ?case by (auto intro: exI [of _ "[]"])
next
  case (2 c s)
  show ?case
  proof
    assume l: "component_rest (c # s)"
    then obtain d t where s: "name_sep c" "s = d # t" "lower_alnum d" "component_rest (dropWhile lower_alnum t)"
      by (auto split: if_splits list.splits)
    with 2 obtain ws where "dropWhile lower_alnum t = concat (map (\<lambda>(c, v). c # v) ws)" "list_all (\<lambda>(c, v). name_sep c \<and> run v) ws"
      by blast
    with split_run [OF s(3), of t] s(1,2) show "\<exists>ws. c # s = concat (map (\<lambda>(c, v). c # v) ws) \<and> list_all (\<lambda>(c, v). name_sep c \<and> run v) ws"
      by (intro exI [of _ "(c, d # takeWhile lower_alnum t) # ws"]) simp
  next
    assume "\<exists>ws. c # s = concat (map (\<lambda>(c, v). c # v) ws) \<and> list_all (\<lambda>(c, v). name_sep c \<and> run v) ws"
    then obtain ws where ws: "c # s = concat (map (\<lambda>(c, v). c # v) ws)" "list_all (\<lambda>(c, v). name_sep c \<and> run v) ws" by blast
    then obtain v vs where v: "ws = (c, v) # vs" "name_sep c" "run v" by (cases ws) auto
    then obtain d u where d: "v = d # u" "lower_alnum d" "list_all lower_alnum u" by (cases v) (auto simp: run_def)
    let ?r = "concat (map (\<lambda>(c, v). c # v) vs)"
    have r: "s = d # (u @ ?r)" using ws(1) v d by simp
    have vs: "list_all (\<lambda>(c, v). name_sep c \<and> run v) vs" using ws(2) v by simp
    with dropWhile_run [OF d(3)] show "component_rest (c # s)" using v(2) d(2) "2.IH" [of d "u @ ?r"] r by auto
  qed
qed

lemma valid_component_pattern: "is_valid_name_component s \<longleftrightarrow> component_pattern s"
proof (cases s)
  case Nil
  then show ?thesis by (auto simp: is_valid_name_component_def component_pattern_def run_def)
next
  case (Cons c t)
  show ?thesis
  proof
    assume "is_valid_name_component s"
    then have c: "lower_alnum c" "component_rest (dropWhile lower_alnum t)"
      unfolding Cons by (auto simp: is_valid_name_component_def split: if_splits)
    with split_run [OF c(1), of t] show "component_pattern s"
      unfolding Cons component_pattern_def component_rest_pattern by metis
  next
    assume "component_pattern s"
    then obtain w ws where ws: "c # t = w @ concat (map (\<lambda>(c, v). c # v) ws)" "run w" "list_all (\<lambda>(c, v). name_sep c \<and> run v) ws"
      unfolding component_pattern_def Cons by blast
    then obtain u where u: "w = c # u" "lower_alnum c" "list_all lower_alnum u" by (cases w) (auto simp: run_def)
    let ?r = "concat (map (\<lambda>(c, v). c # v) ws)"
    from dropWhile_run [OF u(3) ws(3)] show "is_valid_name_component s" using ws u component_rest_pattern [of ?r]
      unfolding Cons by (auto simp: is_valid_name_component_def)
  qed
qed


text \<open>Splitting at a separator undoes joining.\<close>

lemma join_split_char: "join [c] (split_char c s) = s"
proof (induction s)
  case (Cons x s)
  obtain l ls where ls: "split_char c s = l # ls" by (cases "split_char c s") auto
  show ?case using Cons by (cases ls) (simp_all add: ls)
qed simp

lemma split_char_join: "cs \<noteq> [] \<Longrightarrow> list_all (\<lambda>w. c \<notin> set w) cs \<Longrightarrow> split_char c (join [c] cs) = cs"
proof (induction cs rule: induct_list012)
  case (3 v w ws)
  then show ?case by (simp add: split_char_append)
qed (simp_all add: split_char_no_sep)

lemma split_char_sep_free: "w \<in> set (split_char c s) \<Longrightarrow> c \<notin> set w"
  by (induction s arbitrary: w) (auto split: list.splits if_splits)

lemma component_pattern_chars: "component_pattern s \<Longrightarrow> c \<in> set s \<Longrightarrow> lower_alnum c \<or> name_sep c"
  unfolding component_pattern_def run_def list_all_iff by fastforce

lemma component_pattern_no_slash: "component_pattern s \<Longrightarrow> CHR ''/'' \<notin> set s"
  using component_pattern_chars [of s "CHR ''/''"] by (auto simp: lower_alnum_def name_sep_def)

lemma component_pattern_hd: "component_pattern s \<Longrightarrow> s \<noteq> [] \<and> lower_alnum (hd s)"
  unfolding valid_component_pattern [symmetric] by (cases s) (auto simp: is_valid_name_component_def split: if_splits)

lemma component_pattern_Nil [simp]: "\<not> component_pattern []"
  using component_pattern_hd [of "[]"] by blast

lemma component_pattern_not_dots: "component_pattern s \<Longrightarrow> s \<noteq> ''..''"
  using component_pattern_hd [of s] by (auto simp: lower_alnum_def)

definition name_pattern :: "string \<Rightarrow> bool" where
  "name_pattern name \<longleftrightarrow> length name \<le> 256 \<and> (\<exists>cs. cs \<noteq> [] \<and> name = join ''/'' cs \<and> list_all component_pattern cs)"

lemma validate_repository_name_pattern: "validate_repository_name name = Inr () \<longleftrightarrow> name_pattern name"
proof
  assume ok: "validate_repository_name name = Inr ()"
  then have "list_all component_pattern (split_char CHR ''/'' name)" "length name \<le> 256"
    by (auto simp: validate_repository_name_def valid_component_pattern list_all_iff list_ex_iff split: if_splits)
  then show "name_pattern name" unfolding name_pattern_def
    by (intro conjI exI [of _ "split_char CHR ''/'' name"]) (simp_all add: join_split_char)
next
  assume "name_pattern name"
  then obtain cs where cs: "length name \<le> 256" "cs \<noteq> []" "name = join ''/'' cs" "list_all component_pattern cs"
    unfolding name_pattern_def by blast
  then have s: "split_char CHR ''/'' name = cs"
    by (simp add: split_char_join list_all_iff component_pattern_no_slash)
  with cs have "name \<noteq> []" by (cases cs rule: remdups_adj.cases) auto
  with s cs show "validate_repository_name name = Inr ()"
    by (auto simp: validate_repository_name_def valid_component_pattern list_all_iff list_ex_iff)
qed

definition digest_pattern :: "string \<Rightarrow> string \<Rightarrow> string \<Rightarrow> bool" where
  "digest_pattern digest algo hash \<longleftrightarrow> digest = algo @ '':'' @ hash \<and> list_all lower_hex hash
     \<and> (algo = ''sha256'' \<and> length hash = 64 \<or> algo = ''sha512'' \<and> length hash = 128)"

lemma split_once_colon: "split_once s [c] = Some (a, b) \<Longrightarrow> s = a @ c # b"
  using find_sub_split [of s "[c]"] by (auto simp: split_once_def split: option.splits)

lemma validate_digest_pattern: "validate_digest digest = Inr () \<longleftrightarrow> (\<exists>algo hash. digest_pattern digest algo hash)"
proof
  assume "validate_digest digest = Inr ()"
  then obtain algo hash where d: "split_once digest '':'' = Some (algo, hash)" "algo = ''sha256'' \<and> length hash = 64 \<or> algo = ''sha512'' \<and> length hash = 128"
      "list_all lower_hex hash"
    by (auto simp: validate_digest_def split: option.splits if_splits)
  then have "digest = algo @ '':'' @ hash" using split_once_colon [OF d(1)] by simp
  with d show "\<exists>algo hash. digest_pattern digest algo hash" unfolding digest_pattern_def by blast
next
  assume "\<exists>algo hash. digest_pattern digest algo hash"
  then obtain algo hash where d: "digest_pattern digest algo hash" by blast
  then have "split_once digest '':'' = Some (algo, hash)"
    using split_once_single(1) [of "CHR '':''" algo hash] by (auto simp: digest_pattern_def)
  with d show "validate_digest digest = Inr ()" by (auto simp: validate_digest_def digest_pattern_def)
qed

lemma parse_digest_pattern: "parse_digest digest = Inr (algo, hash) \<longleftrightarrow> digest_pattern digest algo hash"
proof -
  have "split_once digest '':'' = Some (a, h)" if "digest_pattern digest a h" for a h
    using that split_once_single(1) [of "CHR '':''" a h] by (auto simp: digest_pattern_def)
  note split = this
  show ?thesis
  proof
    assume p: "parse_digest digest = Inr (algo, hash)"
    then obtain a h where d: "digest_pattern digest a h"
      using validate_digest_pattern [of digest] by (auto simp: parse_digest_def split: sum.splits)
    with p split [OF d] show "digest_pattern digest algo hash" by (auto simp: parse_digest_def split: sum.splits)
  next
    assume d: "digest_pattern digest algo hash"
    then have "validate_digest digest = Inr ()" using validate_digest_pattern by blast
    with split [OF d] show "parse_digest digest = Inr (algo, hash)" by (simp add: parse_digest_def)
  qed
qed

definition tag_pattern :: "string \<Rightarrow> bool" where
  "tag_pattern s \<longleftrightarrow> (\<exists>c t. s = c # t \<and> (is_ascii_alphanumeric c \<or> c = CHR ''_'') \<and> list_all tag_char t \<and> length t \<le> 127)"

lemma tag_pattern_chars: "tag_pattern s \<Longrightarrow> c \<in> set s \<Longrightarrow> tag_char c"
  by (auto simp: tag_pattern_def tag_char_def list_all_iff)

lemma tag_pattern_no_colon: "tag_pattern s \<Longrightarrow> CHR '':'' \<notin> set s"
  using tag_pattern_chars [of s "CHR '':''"]
  by (auto simp: tag_char_def is_ascii_alphanumeric_def is_ascii_digit_def is_ascii_alphabetic_def)

lemma tag_pattern_safe: "tag_pattern s \<Longrightarrow> s \<noteq> ''..'' \<and> s \<noteq> [] \<and> CHR ''/'' \<notin> set s"
  using tag_pattern_chars [of s "CHR ''/''"]
  by (auto simp: tag_char_def is_ascii_alphanumeric_def is_ascii_digit_def is_ascii_alphabetic_def tag_pattern_def)

lemma digest_pattern_safe: "digest_pattern d a h \<Longrightarrow> d \<noteq> ''..'' \<and> d \<noteq> [] \<and> CHR ''/'' \<notin> set d"
  by (auto simp: digest_pattern_def list_all_iff lower_hex_def)

lemma validate_reference_pattern:
  "validate_reference r = Inr () \<longleftrightarrow> tag_pattern r \<or> (\<exists>algo hash. digest_pattern r algo hash)"
proof (cases "CHR '':'' \<in> set r")
  case True
  then have "r \<noteq> []" by auto
  with True have "validate_reference r = Inr () \<longleftrightarrow> validate_digest r = Inr ()"
    by (auto simp: validate_reference_def split: sum.splits)
  with True tag_pattern_no_colon show ?thesis unfolding validate_digest_pattern by blast
next
  case False
  then have "\<not> digest_pattern r a h" for a h by (auto simp: digest_pattern_def)
  moreover have "validate_reference r = Inr () \<longleftrightarrow> tag_pattern r"
    using False by (cases r) (auto simp: validate_reference_def tag_pattern_def tag_char_def)
  ultimately show ?thesis by blast
qed


section \<open>Properties\<close>


end
