(* ===== verification/File_Tree.thy ===== *)
theory File_Tree
  imports Muli_Prelude "HOL-Library.Sublist" "HOL-Library.AList" "HOL-Library.Multiset"
begin

text \<open>
  The directory tree that the package registry works on, as far as the code uses \<open>std::fs\<close>: files with their
  content and directories, both named by the list of the components of their path below the root of the
  storage. A call fails (\<open>None\<close>) when the shape of the tree does not allow it: a directory where a file is
  wanted, a missing parent, a file where a directory is wanted. Failures of the device are arguments of the
  operations that react to them.\<close>

type_synonym path = "string list"

record Fs =
  fs_files :: "(path \<times> string) list"
  fs_dirs :: "path list"

definition is_file :: "Fs \<Rightarrow> path \<Rightarrow> bool" where
  "is_file fs p \<longleftrightarrow> p \<in> set (map fst (fs_files fs))"

definition is_dir :: "Fs \<Rightarrow> path \<Rightarrow> bool" where
  "is_dir fs p \<longleftrightarrow> p = [] \<or> p \<in> set (fs_dirs fs)"

definition path_exists :: "Fs \<Rightarrow> path \<Rightarrow> bool" where
  "path_exists fs p \<longleftrightarrow> is_file fs p \<or> is_dir fs p"

definition read_file :: "path \<Rightarrow> Fs \<Rightarrow> string option" where
  "read_file p fs = map_of (fs_files fs) p"

definition create_dir_all :: "path \<Rightarrow> Fs \<Rightarrow> Fs option" where
  "create_dir_all p fs =
     (if list_ex (is_file fs) (prefixes p) then None
      else Some (fs\<lparr>fs_dirs := fold List.insert (prefixes p) (fs_dirs fs)\<rparr>))"

definition write_file :: "path \<Rightarrow> string \<Rightarrow> Fs \<Rightarrow> Fs option" where
  "write_file p data fs =
     (if is_dir fs p \<or> \<not> is_dir fs (butlast p) then None
      else Some (fs\<lparr>fs_files := AList.update p data (fs_files fs)\<rparr>))"

definition remove_file :: "path \<Rightarrow> Fs \<Rightarrow> Fs option" where
  "remove_file p fs = (if is_file fs p then Some (fs\<lparr>fs_files := AList.delete p (fs_files fs)\<rparr>) else None)"

definition rename_file :: "path \<Rightarrow> path \<Rightarrow> Fs \<Rightarrow> Fs option" where
  "rename_file p q fs =
     (case read_file p fs of None \<Rightarrow> None
      | Some data \<Rightarrow>
        if is_dir fs q \<or> \<not> is_dir fs (butlast q) then None
        else Some (fs\<lparr>fs_files := AList.update q data (AList.delete p (fs_files fs))\<rparr>))"

text \<open>The entries of a directory: its files and its subdirectories, by their paths.\<close>

definition child_files :: "path \<Rightarrow> Fs \<Rightarrow> path list" where
  "child_files p fs = filter (\<lambda>q. q \<noteq> [] \<and> butlast q = p) (map fst (fs_files fs))"

definition child_dirs :: "path \<Rightarrow> Fs \<Rightarrow> path list" where
  "child_dirs p fs = filter (\<lambda>q. q \<noteq> [] \<and> butlast q = p) (fs_dirs fs)"

text \<open>A well-formed tree: no path twice, none both a file and a directory, and every entry in a directory.\<close>

definition fs_ok :: "Fs \<Rightarrow> bool" where
  "fs_ok fs \<longleftrightarrow> distinct (map fst (fs_files fs)) \<and> distinct (fs_dirs fs)
     \<and> (\<forall>p. is_file fs p \<longrightarrow> \<not> is_dir fs p \<and> is_dir fs (butlast p))
     \<and> (\<forall>p. is_dir fs p \<longrightarrow> is_dir fs (butlast p))"

definition fs_empty :: Fs where
  "fs_empty = \<lparr>fs_files = [], fs_dirs = []\<rparr>"

section \<open>Lemmas\<close>

lemma is_file_read: "is_file fs p \<longleftrightarrow> read_file p fs \<noteq> None"
  by (simp add: is_file_def read_file_def map_of_eq_None_iff)

lemma set_fold_insert: "set (fold List.insert xs ys) = set xs \<union> set ys"
  by (induction xs arbitrary: ys) auto

lemma distinct_fold_insert: "distinct ys \<Longrightarrow> distinct (fold List.insert xs ys)"
  by (induction xs arbitrary: ys) auto

lemma fs_empty_ok [simp]: "fs_ok fs_empty"
  by (simp add: fs_ok_def fs_empty_def is_file_def is_dir_def)

lemma create_dir_all_Some:
  "create_dir_all p fs = Some fs' \<longleftrightarrow> (\<forall>q. prefix q p \<longrightarrow> \<not> is_file fs q) \<and> fs' = fs\<lparr>fs_dirs := fold List.insert (prefixes p) (fs_dirs fs)\<rparr>"
  by (auto simp: create_dir_all_def list_ex_iff)

lemma create_dir_all_is_dir: "create_dir_all p fs = Some fs' \<Longrightarrow> is_dir fs' q \<longleftrightarrow> is_dir fs q \<or> prefix q p"
  by (auto simp: create_dir_all_Some is_dir_def set_fold_insert)

lemma create_dir_all_files: "create_dir_all p fs = Some fs' \<Longrightarrow> fs_files fs' = fs_files fs"
  by (auto simp: create_dir_all_Some)

lemma create_dir_all_read: "create_dir_all p fs = Some fs' \<Longrightarrow> read_file q fs' = read_file q fs \<and> is_file fs' q = is_file fs q"
  by (simp add: create_dir_all_files read_file_def is_file_def)

lemma prefix_butlast: "prefix q p \<Longrightarrow> prefix (butlast q) p"
  using prefixeq_butlast [of q] prefix_order.trans by blast

lemma create_dir_all_ok: "fs_ok fs \<Longrightarrow> create_dir_all p fs = Some fs' \<Longrightarrow> fs_ok fs'"
  unfolding fs_ok_def
  by (auto simp: create_dir_all_is_dir create_dir_all_read create_dir_all_files prefix_butlast)
    (auto simp: create_dir_all_Some distinct_fold_insert)

lemma write_file_Some:
  "write_file p data fs = Some fs' \<longleftrightarrow> \<not> is_dir fs p \<and> is_dir fs (butlast p) \<and> fs' = fs\<lparr>fs_files := AList.update p data (fs_files fs)\<rparr>"
  by (auto simp: write_file_def)

lemma write_file_is_dir: "write_file p data fs = Some fs' \<Longrightarrow> is_dir fs' q = is_dir fs q"
  by (auto simp: write_file_Some is_dir_def)

lemma write_file_read: "write_file p data fs = Some fs' \<Longrightarrow> read_file q fs' = (if q = p then Some data else read_file q fs)"
  by (auto simp: write_file_Some read_file_def update_conv')

lemma write_file_ok: "fs_ok fs \<Longrightarrow> write_file p data fs = Some fs' \<Longrightarrow> fs_ok fs'"
proof -
  assume ok: "fs_ok fs" and w: "write_file p data fs = Some fs'"
  have f: "is_file fs' q \<longleftrightarrow> q = p \<or> is_file fs q" for q using write_file_read [OF w] by (auto simp: is_file_read)
  have "distinct (map fst (fs_files fs'))" "distinct (fs_dirs fs')"
    using ok w by (auto simp: fs_ok_def write_file_Some distinct_update)
  then show "fs_ok fs'" using ok w unfolding fs_ok_def f write_file_is_dir [OF w] by (auto simp: write_file_Some)
qed

lemma remove_file_Some:
  "remove_file p fs = Some fs' \<longleftrightarrow> is_file fs p \<and> fs' = fs\<lparr>fs_files := AList.delete p (fs_files fs)\<rparr>"
  by (auto simp: remove_file_def)

lemma remove_file_is_dir: "remove_file p fs = Some fs' \<Longrightarrow> is_dir fs' q = is_dir fs q"
  by (auto simp: remove_file_Some is_dir_def)

lemma remove_file_read: "remove_file p fs = Some fs' \<Longrightarrow> read_file q fs' = (if q = p then None else read_file q fs)"
  by (auto simp: remove_file_Some read_file_def delete_conv')

lemma remove_file_ok: "fs_ok fs \<Longrightarrow> remove_file p fs = Some fs' \<Longrightarrow> fs_ok fs'"
proof -
  assume ok: "fs_ok fs" and w: "remove_file p fs = Some fs'"
  have f: "is_file fs' q \<longleftrightarrow> q \<noteq> p \<and> is_file fs q" for q using remove_file_read [OF w] by (auto simp: is_file_read)
  have "distinct (map fst (fs_files fs'))" "distinct (fs_dirs fs')"
    using ok w by (auto simp: fs_ok_def remove_file_Some distinct_delete)
  then show "fs_ok fs'" using ok unfolding fs_ok_def f remove_file_is_dir [OF w] by auto
qed

lemma rename_file_Some:
  "rename_file p q fs = Some fs' \<longleftrightarrow> (\<exists>data. read_file p fs = Some data \<and> \<not> is_dir fs q \<and> is_dir fs (butlast q)
     \<and> fs' = fs\<lparr>fs_files := AList.update q data (AList.delete p (fs_files fs))\<rparr>)"
  by (auto simp: rename_file_def split: option.splits)

lemma rename_file_is_dir: "rename_file p q fs = Some fs' \<Longrightarrow> is_dir fs' r = is_dir fs r"
  by (auto simp: rename_file_Some is_dir_def)

lemma rename_file_read:
  "rename_file p q fs = Some fs' \<Longrightarrow> read_file r fs' = (if r = q then read_file p fs else if r = p then None else read_file r fs)"
  by (auto simp: rename_file_Some read_file_def update_conv' delete_conv')

lemma rename_file_ok: "fs_ok fs \<Longrightarrow> rename_file p q fs = Some fs' \<Longrightarrow> fs_ok fs'"
proof -
  assume ok: "fs_ok fs" and w: "rename_file p q fs = Some fs'"
  have f: "is_file fs' r \<Longrightarrow> r = q \<or> is_file fs r" for r using rename_file_read [OF w] by (auto simp: is_file_read split: if_splits)
  have "distinct (map fst (fs_files fs'))" "distinct (fs_dirs fs')"
    using ok w by (auto simp: fs_ok_def rename_file_Some distinct_update distinct_delete)
  moreover have "\<not> is_dir fs q" "is_dir fs (butlast q)" using w by (auto simp: rename_file_Some)
  ultimately show "fs_ok fs'" using ok f unfolding fs_ok_def rename_file_is_dir [OF w] by metis
qed

lemmas fs_read = create_dir_all_read write_file_read remove_file_read rename_file_read
lemmas fs_keeps_ok = create_dir_all_ok write_file_ok remove_file_ok rename_file_ok

end
