(* ===== verification/Registry_Storage.thy ===== *)
theory Registry_Storage
  imports Registry_Names File_Tree Tenant_Quota
begin

text \<open>
  The storage of the container registry (\<open>muli-registry/src/storage/filesystem.rs\<close> and \<open>streaming.rs\<close>): blobs
  under \<open>blobs/<algorithm>/<hash>\<close>, manifests under \<open>manifests/<name>/<reference>\<close> and uploads under
  \<open>uploads/<id>\<close>, all below the directory of the tenant. A tenant is one component of a path, which the
  tenant middleware guarantees. SHA-256 is an argument, and so is the failure of a rename or of a copy.\<close>

section \<open>Paths\<close>

record RegStorage =
  st_max_blob_size :: nat
  st_sha256 :: "string \<Rightarrow> string"

definition checked :: "path \<Rightarrow> StorageError + path" where
  "checked p = and_then (ensure_no_traversal p) (\<lambda>_. Inr p)"

definition blob_path :: "string \<Rightarrow> string \<Rightarrow> StorageError + path" where
  "blob_path tenant digest =
     and_then (parse_digest digest) (\<lambda>(algo, hash). checked [tenant, ''blobs'', algo, hash])"

definition from_validation :: "ValidationError + 'a \<Rightarrow> StorageError + 'a" where
  "from_validation r = (case r of Inl e \<Rightarrow> Inl (storage_error_from e) | Inr x \<Rightarrow> Inr x)"

definition manifest_path :: "string \<Rightarrow> string \<Rightarrow> string \<Rightarrow> StorageError + path" where
  "manifest_path tenant name reference =
     and_then (from_validation (validate_repository_name name)) (\<lambda>_.
     and_then (from_validation (validate_reference reference)) (\<lambda>_.
     checked ([tenant, ''manifests''] @ split_char CHR ''/'' name @ [reference])))"

definition upload_path :: "string \<Rightarrow> string \<Rightarrow> StorageError + path" where
  "upload_path tenant upload_id = and_then (validate_upload_id upload_id) (\<lambda>_. checked [tenant, ''uploads'', upload_id])"

section \<open>Walks over directories\<close>

definition depth :: "Fs \<Rightarrow> nat" where
  "depth fs = foldr max (map length (fs_dirs fs)) 0"

lemma depth_le: "d \<in> set (fs_dirs fs) \<Longrightarrow> length d \<le> depth fs"
proof -
  have "x \<in> set xs \<Longrightarrow> x \<le> foldr max xs 0" for x and xs :: "nat list"
    by (induction xs) (auto simp: le_max_iff_disj)
  then show "d \<in> set (fs_dirs fs) \<Longrightarrow> length d \<le> depth fs" unfolding depth_def by auto
qed

text \<open>The recursion of the three \<open>collect_*\<close> functions: a directory, then its subdirectories.\<close>

function walk_dirs :: "path \<Rightarrow> Fs \<Rightarrow> path list" where
  "walk_dirs dir fs = dir # concat (map (\<lambda>d. walk_dirs d fs) (child_dirs dir fs))"
  by pat_completeness auto
termination
proof (relation "measure (\<lambda>(dir, fs). depth fs - length dir)")
  fix dir fs d
  assume "d \<in> set (child_dirs dir fs)"
  then have "d \<in> set (fs_dirs fs)" "length d = Suc (length dir)" by (auto simp: child_dirs_def)
  with depth_le show "((d, fs), dir, fs) \<in> measure (\<lambda>(dir, fs). depth fs - length dir)" by fastforce
qed simp

declare walk_dirs.simps [simp del]

definition file_content :: "Fs \<Rightarrow> path \<Rightarrow> string" where
  "file_content fs p = (case read_file p fs of Some data \<Rightarrow> data | None \<Rightarrow> [])"

definition collect_repositories :: "path \<Rightarrow> path \<Rightarrow> Fs \<Rightarrow> string list" where
  "collect_repositories base current fs =
     map (\<lambda>d. join ''/'' (drop (length base) d)) (filter (\<lambda>d. child_files d fs \<noteq> []) (walk_dirs current fs))"

definition collect_manifest_data :: "path \<Rightarrow> Fs \<Rightarrow> string list" where
  "collect_manifest_data dir fs = concat (map (\<lambda>d. map (file_content fs) (child_files d fs)) (walk_dirs dir fs))"

definition collect_dir_size :: "path \<Rightarrow> Fs \<Rightarrow> nat" where
  "collect_dir_size dir fs = sum_list (map (\<lambda>d. sum_list (map (length \<circ> file_content fs) (child_files d fs))) (walk_dirs dir fs))"

section \<open>Operations\<close>

text \<open>A file written below directories that are created first.\<close>

definition put_file :: "path \<Rightarrow> string \<Rightarrow> Fs \<Rightarrow> (StorageError + unit) \<times> Fs" where
  "put_file p data fs =
     (case create_dir_all (butlast p) fs of None \<Rightarrow> (Inl Io, fs)
      | Some fs1 \<Rightarrow> (case write_file p data fs1 of None \<Rightarrow> (Inl Io, fs1) | Some fs2 \<Rightarrow> (Inr (), fs2)))"

definition drop_file :: "path \<Rightarrow> Fs \<Rightarrow> (StorageError + unit) \<times> Fs" where
  "drop_file p fs =
     (if path_exists fs p then (case remove_file p fs of None \<Rightarrow> (Inl Io, fs) | Some fs1 \<Rightarrow> (Inr (), fs1)) else (Inr (), fs))"

definition try_remove :: "path \<Rightarrow> Fs \<Rightarrow> Fs" where
  "try_remove p fs = (case remove_file p fs of None \<Rightarrow> fs | Some fs1 \<Rightarrow> fs1)"

definition store_blob :: "string \<Rightarrow> string \<Rightarrow> string \<Rightarrow> Fs \<Rightarrow> (StorageError + unit) \<times> Fs" where
  "store_blob tenant digest data fs =
     (case blob_path tenant digest of Inl e \<Rightarrow> (Inl e, fs) | Inr p \<Rightarrow> put_file p data fs)"

definition get_blob :: "string \<Rightarrow> string \<Rightarrow> Fs \<Rightarrow> StorageError + (string \<times> nat)" where
  "get_blob tenant digest fs =
     and_then (blob_path tenant digest) (\<lambda>p.
       if \<not> path_exists fs p then Inl (BlobNotFound digest)
       else case read_file p fs of None \<Rightarrow> Inl Io | Some data \<Rightarrow> Inr (data, length data))"

definition has_blob :: "string \<Rightarrow> string \<Rightarrow> Fs \<Rightarrow> StorageError + bool" where
  "has_blob tenant digest fs = and_then (blob_path tenant digest) (\<lambda>p. Inr (path_exists fs p))"

definition delete_blob :: "string \<Rightarrow> string \<Rightarrow> Fs \<Rightarrow> (StorageError + unit) \<times> Fs" where
  "delete_blob tenant digest fs =
     (case blob_path tenant digest of Inl e \<Rightarrow> (Inl e, fs) | Inr p \<Rightarrow> drop_file p fs)"

definition blob_size :: "string \<Rightarrow> string \<Rightarrow> Fs \<Rightarrow> StorageError + nat" where
  "blob_size tenant digest fs =
     and_then (blob_path tenant digest) (\<lambda>p.
       if \<not> path_exists fs p then Inl (BlobNotFound digest)
       else case read_file p fs of None \<Rightarrow> Inl Io | Some data \<Rightarrow> Inr (length data))"

definition store_manifest :: "string \<Rightarrow> string \<Rightarrow> string \<Rightarrow> string \<Rightarrow> Fs \<Rightarrow> (StorageError + unit) \<times> Fs" where
  "store_manifest tenant name reference data fs =
     (case manifest_path tenant name reference of Inl e \<Rightarrow> (Inl e, fs) | Inr p \<Rightarrow> put_file p data fs)"

definition get_manifest :: "string \<Rightarrow> string \<Rightarrow> string \<Rightarrow> Fs \<Rightarrow> StorageError + string" where
  "get_manifest tenant name reference fs =
     and_then (manifest_path tenant name reference) (\<lambda>p.
       if \<not> path_exists fs p then Inl (ManifestNotFound name reference)
       else case read_file p fs of None \<Rightarrow> Inl Io | Some data \<Rightarrow> Inr data)"

definition has_manifest :: "string \<Rightarrow> string \<Rightarrow> string \<Rightarrow> Fs \<Rightarrow> StorageError + bool" where
  "has_manifest tenant name reference fs = and_then (manifest_path tenant name reference) (\<lambda>p. Inr (path_exists fs p))"

definition delete_manifest :: "string \<Rightarrow> string \<Rightarrow> string \<Rightarrow> Fs \<Rightarrow> (StorageError + unit) \<times> Fs" where
  "delete_manifest tenant name reference fs =
     (case manifest_path tenant name reference of Inl e \<Rightarrow> (Inl e, fs) | Inr p \<Rightarrow> drop_file p fs)"

text \<open>The tags of a repository: every entry of its directory, also a subdirectory.\<close>

definition reg_list_tags :: "string \<Rightarrow> string \<Rightarrow> Fs \<Rightarrow> StorageError + string list" where
  "reg_list_tags tenant name fs =
     and_then (from_validation (validate_repository_name name)) (\<lambda>_.
       let dir = [tenant, ''manifests''] @ split_char CHR ''/'' name in
       if \<not> path_exists fs dir then Inr []
       else if \<not> is_dir fs dir then Inl Io
       else Inr (sort (map last (child_files dir fs @ child_dirs dir fs))))"

definition reg_list_repositories :: "string \<Rightarrow> Fs \<Rightarrow> StorageError + string list" where
  "reg_list_repositories tenant fs =
     (let dir = [tenant, ''manifests''] in
      if \<not> path_exists fs dir then Inr []
      else if \<not> is_dir fs dir then Inl Io
      else Inr (sort (collect_repositories dir dir fs)))"

definition create_upload :: "string \<Rightarrow> string \<Rightarrow> Fs \<Rightarrow> (StorageError + unit) \<times> Fs" where
  "create_upload tenant upload_id fs =
     (case upload_path tenant upload_id of Inl e \<Rightarrow> (Inl e, fs) | Inr p \<Rightarrow> put_file p [] fs)"

definition upload_missing :: "string \<Rightarrow> StorageError" where
  "upload_missing upload_id = BlobNotFound (''upload '' @ upload_id @ '' not found'')"

definition append_upload :: "RegStorage \<Rightarrow> string \<Rightarrow> string \<Rightarrow> string \<Rightarrow> Fs \<Rightarrow> (StorageError + nat) \<times> Fs" where
  "append_upload st tenant upload_id data fs =
     (case upload_path tenant upload_id of Inl e \<Rightarrow> (Inl e, fs)
      | Inr p \<Rightarrow>
        if \<not> path_exists fs p then (Inl (upload_missing upload_id), fs)
        else case read_file p fs of None \<Rightarrow> (Inl Io, fs)
        | Some old \<Rightarrow>
          if 0 < st_max_blob_size st \<and> st_max_blob_size st < length old + length data
          then (Inl (BlobTooLarge (''upload would exceed max blob size of '' @ show_nat (st_max_blob_size st) @ '' bytes (current: ''
                 @ show_nat (length old) @ '', incoming: '' @ show_nat (length data) @ '')'')), fs)
          else case write_file p (old @ data) fs of None \<Rightarrow> (Inl Io, fs)
               | Some fs1 \<Rightarrow> (Inr (length old + length data), fs1))"

definition digest_of :: "RegStorage \<Rightarrow> string \<Rightarrow> string" where
  "digest_of st data = ''sha256:'' @ st_sha256 st data"

definition complete_upload :: "RegStorage \<Rightarrow> bool \<Rightarrow> bool \<Rightarrow> string \<Rightarrow> string \<Rightarrow> string \<Rightarrow> Fs \<Rightarrow> (StorageError + unit) \<times> Fs" where
  "complete_upload st rename_fails copy_fails tenant upload_id digest fs =
     (case upload_path tenant upload_id of Inl e \<Rightarrow> (Inl e, fs)
      | Inr up \<Rightarrow>
        if \<not> path_exists fs up then (Inl (upload_missing upload_id), fs)
        else case read_file up fs of None \<Rightarrow> (Inl Io, fs)
        | Some data \<Rightarrow>
          let computed = digest_of st data in
          if computed \<noteq> digest
          then (Inl (InvalidDigest (''expected '' @ digest @ '', got '' @ computed)), try_remove up fs)
          else case blob_path tenant digest of Inl e \<Rightarrow> (Inl e, fs)
          | Inr bp \<Rightarrow>
            case create_dir_all (butlast bp) fs of None \<Rightarrow> (Inl Io, fs)
            | Some fs1 \<Rightarrow>
              case (if rename_fails then None else rename_file up bp fs1) of
                Some fs2 \<Rightarrow> (Inr (), fs2)
              | None \<Rightarrow>
                if path_exists fs1 bp
                then (case read_file bp fs1 of None \<Rightarrow> (Inl Io, fs1)
                      | Some existing \<Rightarrow>
                        if digest_of st existing = digest then (Inr (), try_remove up fs1)
                        else (Inl (InvalidDigest (''blob content mismatch for '' @ digest)), try_remove up fs1))
                else case (if copy_fails then None else write_file bp data fs1) of
                  None \<Rightarrow> (Inl Io, fs1)
                | Some fs2 \<Rightarrow> (Inr (), try_remove up fs2))"

definition upload_offset :: "string \<Rightarrow> string \<Rightarrow> Fs \<Rightarrow> StorageError + nat" where
  "upload_offset tenant upload_id fs =
     and_then (upload_path tenant upload_id) (\<lambda>p.
       if \<not> path_exists fs p then Inl (upload_missing upload_id)
       else case read_file p fs of None \<Rightarrow> Inl Io | Some data \<Rightarrow> Inr (length data))"

definition list_blobs :: "string \<Rightarrow> Fs \<Rightarrow> StorageError + string list" where
  "list_blobs tenant fs =
     (let dir = [tenant, ''blobs''] in
      if \<not> path_exists fs dir then Inr []
      else if \<not> is_dir fs dir then Inl Io
      else Inr (concat (map (\<lambda>algo. map (\<lambda>h. last algo @ '':'' @ last h) (child_files algo fs @ child_dirs algo fs)) (child_dirs dir fs))))"

definition all_manifests :: "string \<Rightarrow> Fs \<Rightarrow> StorageError + string list" where
  "all_manifests tenant fs =
     (let dir = [tenant, ''manifests''] in
      if \<not> path_exists fs dir then Inr []
      else if \<not> is_dir fs dir then Inl Io
      else Inr (collect_manifest_data dir fs))"

definition get_tenant_usage :: "string \<Rightarrow> Fs \<Rightarrow> StorageError + nat" where
  "get_tenant_usage tenant fs =
     (if \<not> path_exists fs [tenant] then Inr 0
      else
        let dirs = filter (path_exists fs) (map (\<lambda>s. [tenant, s]) [''blobs'', ''manifests'', ''npm'', ''cargo'', ''maven'', ''luat'']) in
        if list_ex (\<lambda>d. \<not> is_dir fs d) dirs then Inl Io
        else Inr (sum_list (map (\<lambda>d. collect_dir_size d fs) dirs)))"


section \<open>What the walks find\<close>

lemma child_dirs_iff: "d \<in> set (child_dirs dir fs) \<longleftrightarrow> d \<in> set (fs_dirs fs) \<and> d \<noteq> [] \<and> butlast d = dir"
  by (auto simp: child_dirs_def)

lemma child_files_iff: "f \<in> set (child_files dir fs) \<longleftrightarrow> is_file fs f \<and> f \<noteq> [] \<and> butlast f = dir"
  by (auto simp: child_files_def is_file_def)

lemma dir_prefixes: "fs_ok fs \<Longrightarrow> is_dir fs d \<Longrightarrow> prefix c d \<Longrightarrow> is_dir fs c"
proof (induction d rule: rev_induct)
  case (snoc x d)
  then have "is_dir fs d" unfolding fs_ok_def by (metis butlast_snoc)
  with snoc show ?case by (auto simp: prefix_snoc)
qed (simp add: is_dir_def)

lemma walk_dirs_iff:
  "fs_ok fs \<Longrightarrow> d \<in> set (walk_dirs dir fs) \<longleftrightarrow> d = dir \<or> strict_prefix dir d \<and> is_dir fs d"
proof (induction dir fs rule: walk_dirs.induct)
  case (1 dir fs)
  have sub: "strict_prefix dir d \<and> is_dir fs d \<longleftrightarrow> (\<exists>c \<in> set (child_dirs dir fs). d = c \<or> strict_prefix c d \<and> is_dir fs d)"
  proof
    assume d: "strict_prefix dir d \<and> is_dir fs d"
    then obtain x t where t: "d = (dir @ [x]) @ t" by (auto elim!: strict_prefixE')
    have "is_dir fs (dir @ [x])" using d dir_prefixes [OF 1(2), of d] t by (simp add: prefix_def)
    then have "dir @ [x] \<in> set (child_dirs dir fs)" by (auto simp: child_dirs_iff is_dir_def)
    moreover have "d = dir @ [x] \<or> strict_prefix (dir @ [x]) d" using t by (cases t) (simp_all add: strict_prefix_def)
    ultimately show "\<exists>c \<in> set (child_dirs dir fs). d = c \<or> strict_prefix c d \<and> is_dir fs d" using d by blast
  next
    assume "\<exists>c \<in> set (child_dirs dir fs). d = c \<or> strict_prefix c d \<and> is_dir fs d"
    then obtain c where c: "c \<in> set (fs_dirs fs)" "c \<noteq> []" "butlast c = dir" "d = c \<or> strict_prefix c d \<and> is_dir fs d"
      by (auto simp: child_dirs_iff)
    then have "strict_prefix dir c" by (metis append_butlast_last_id strict_prefix_def prefix_def not_Cons_self2 append_self_conv)
    with c show "strict_prefix dir d \<and> is_dir fs d" by (auto simp: is_dir_def dest: prefix_order.less_trans)
  qed
  show ?case unfolding sub using 1(1) [OF _ 1(2)] by (subst walk_dirs.simps) auto
qed

lemma walk_dirs_distinct: "fs_ok fs \<Longrightarrow> distinct (walk_dirs dir fs)"
proof (induction dir fs rule: walk_dirs.induct)
  case (1 dir fs)
  have c: "distinct (child_dirs dir fs)" using 1(2) by (simp add: fs_ok_def child_dirs_def)
  have len: "length d = Suc (length dir)" "prefix dir d" "take (Suc (length dir)) d = d" if "d \<in> set (child_dirs dir fs)" for d
    using that by (auto simp: child_dirs_iff prefixeq_butlast)
  have tk: "take (Suc (length dir)) p = d" if "d \<in> set (child_dirs dir fs)" "p \<in> set (walk_dirs d fs)" for d p
    using that len [of d] walk_dirs_iff [OF 1(2), of p d] by (auto simp: strict_prefix_def prefix_def)
  have "distinct (concat (map (\<lambda>d. walk_dirs d fs) (child_dirs dir fs)))"
  proof (rule distinct_concat)
    show "distinct (map (\<lambda>d. walk_dirs d fs) (child_dirs dir fs))"
      unfolding distinct_map
    proof (intro conjI c inj_onI)
      fix x y assume "x \<in> set (child_dirs dir fs)" "y \<in> set (child_dirs dir fs)" "walk_dirs x fs = walk_dirs y fs"
      then show "x = y" by (metis walk_dirs.simps list.inject)
    qed
    fix ys assume ys: "ys \<in> set (map (\<lambda>d. walk_dirs d fs) (child_dirs dir fs))"
    then show "distinct ys" using 1 by auto
    fix zs assume zs: "zs \<in> set (map (\<lambda>d. walk_dirs d fs) (child_dirs dir fs))" "ys \<noteq> zs"
    then obtain d e where "d \<in> set (child_dirs dir fs)" "ys = walk_dirs d fs" "e \<in> set (child_dirs dir fs)" "zs = walk_dirs e fs" "d \<noteq> e"
      using ys by auto
    then show "set ys \<inter> set zs = {}" using tk by blast
  qed
  moreover have "dir \<notin> set (concat (map (\<lambda>d. walk_dirs d fs) (child_dirs dir fs)))"
    using tk len(1) by fastforce
  ultimately show ?case by (subst walk_dirs.simps) simp
qed

lemma walk_files_iff:
  assumes "fs_ok fs" "is_dir fs dir"
  shows "(\<exists>d \<in> set (walk_dirs dir fs). f \<in> set (child_files d fs)) \<longleftrightarrow> is_file fs f \<and> strict_prefix dir f"
proof -
  have "is_file fs f \<Longrightarrow> f \<noteq> []" using assms(1) by (auto simp: fs_ok_def is_dir_def)
  moreover have "is_file fs f \<Longrightarrow> is_dir fs (butlast f)" using assms(1) by (auto simp: fs_ok_def)
  moreover have "f \<noteq> [] \<Longrightarrow> strict_prefix dir f \<longleftrightarrow> butlast f = dir \<or> strict_prefix dir (butlast f)"
    by (cases f rule: rev_cases) (auto simp: strict_prefix_def prefix_snoc)
  ultimately show ?thesis using walk_dirs_iff [OF assms(1), of _ dir] by (auto simp: child_files_iff)
qed

lemma collect_manifest_data_set:
  "fs_ok fs \<Longrightarrow> is_dir fs dir \<Longrightarrow>
   set (collect_manifest_data dir fs) = {data. \<exists>f. strict_prefix dir f \<and> read_file f fs = Some data}"
proof -
  assume a: "fs_ok fs" "is_dir fs dir"
  have "set (collect_manifest_data dir fs) = file_content fs ` {f. is_file fs f \<and> strict_prefix dir f}"
    unfolding walk_files_iff [OF a, symmetric] by (auto simp: collect_manifest_data_def)
  then show ?thesis by (force simp: is_file_read file_content_def)
qed


section \<open>Paths and effects\<close>

lemma checked_iff: "checked p = Inr q \<longleftrightarrow> q = p \<and> ''..'' \<notin> set p"
  by (auto simp: checked_def ensure_no_traversal_def)

lemma digest_parts: "digest_pattern d a h \<Longrightarrow> a \<noteq> ''..'' \<and> h \<noteq> ''..'' \<and> a \<noteq> [] \<and> h \<noteq> []"
  by (auto simp: digest_pattern_def list_all_iff lower_hex_def)

lemma digest_pattern_unique: "digest_pattern d a h \<Longrightarrow> digest_pattern d b k \<Longrightarrow> b = a \<and> k = h"
  using parse_digest_pattern [of d a h] parse_digest_pattern [of d b k] by simp

lemma blob_path_iff:
  "blob_path tenant digest = Inr p \<longleftrightarrow> (\<exists>a h. digest_pattern digest a h \<and> tenant \<noteq> ''..'' \<and> p = [tenant, ''blobs'', a, h])"
proof -
  have "blob_path tenant digest = Inr p \<longleftrightarrow> (\<exists>a h. parse_digest digest = Inr (a, h) \<and> checked [tenant, ''blobs'', a, h] = Inr p)"
    by (auto simp: blob_path_def and_then_def split: sum.splits)
  then show ?thesis unfolding parse_digest_pattern checked_iff by (auto dest: digest_parts)
qed

lemma from_validation_ok: "from_validation r = Inr x \<longleftrightarrow> r = Inr x"
  by (cases r) (auto simp: from_validation_def)

definition reference_pattern :: "string \<Rightarrow> bool" where
  "reference_pattern r \<longleftrightarrow> tag_pattern r \<or> (\<exists>a h. digest_pattern r a h)"

lemma name_components: "name_pattern name \<Longrightarrow> c \<in> set (split_char CHR ''/'' name) \<Longrightarrow> component_pattern c"
  unfolding validate_repository_name_pattern [symmetric]
  by (auto simp: validate_repository_name_def valid_component_pattern list_ex_iff split: if_splits)

lemma reference_safe: "reference_pattern r \<Longrightarrow> r \<noteq> ''..'' \<and> r \<noteq> [] \<and> CHR ''/'' \<notin> set r"
  using tag_pattern_safe digest_pattern_safe unfolding reference_pattern_def by blast

lemma manifest_path_iff:
  "manifest_path tenant name reference = Inr p \<longleftrightarrow>
     name_pattern name \<and> reference_pattern reference \<and> tenant \<noteq> ''..''
     \<and> p = [tenant, ''manifests''] @ split_char CHR ''/'' name @ [reference]"
proof -
  have "manifest_path tenant name reference = Inr p \<longleftrightarrow> name_pattern name \<and> reference_pattern reference
      \<and> checked ([tenant, ''manifests''] @ split_char CHR ''/'' name @ [reference]) = Inr p"
    unfolding validate_repository_name_pattern [symmetric] reference_pattern_def validate_reference_pattern [symmetric]
    by (auto simp: manifest_path_def and_then_def from_validation_ok split: sum.splits)
      (auto simp: from_validation_def split: sum.splits)
  then show ?thesis unfolding checked_iff
    by (auto dest: name_components reference_safe component_pattern_not_dots)
qed

lemma manifest_path_inj:
  "split_char CHR ''/'' name @ [reference] = split_char CHR ''/'' name' @ [reference'] \<Longrightarrow> name = name' \<and> reference = reference'"
  by (metis append1_eq_conv join_split_char)

lemma upload_path_iff:
  "upload_path tenant u = Inr p \<longleftrightarrow> validate_upload_id u = Inr () \<and> u \<noteq> ''..'' \<and> tenant \<noteq> ''..'' \<and> p = [tenant, ''uploads'', u]"
  by (auto simp: upload_path_def and_then_def checked_iff split: sum.splits)

lemma put_file_effect:
  assumes "put_file p data fs = (r, fs')"
  shows "fs_ok fs \<Longrightarrow> fs_ok fs'"
    and "read_file q fs' = (if r = Inr () \<and> q = p then Some data else read_file q fs)"
    and "is_dir fs' q \<Longrightarrow> is_dir fs q \<or> prefix q (butlast p)" "is_dir fs q \<Longrightarrow> is_dir fs' q"
  using assms
  by (auto simp: put_file_def fs_read create_dir_all_is_dir write_file_is_dir split: option.splits dest: fs_keeps_ok)

lemma put_file_succeeds:
  assumes "\<And>q. prefix q (butlast p) \<Longrightarrow> \<not> is_file fs q" "\<not> is_dir fs p" "p \<noteq> []"
  shows "fst (put_file p data fs) = Inr ()"
proof -
  obtain fs1 where fs1: "create_dir_all (butlast p) fs = Some fs1" using assms(1) by (simp add: create_dir_all_Some)
  have "\<not> prefix p (butlast p)" using assms(3) prefix_length_le [of p "butlast p"] by (cases p) auto
  then obtain fs2 where "write_file p data fs1 = Some fs2"
    using assms(2) by (simp add: write_file_Some create_dir_all_is_dir [OF fs1])
  with fs1 show ?thesis by (simp add: put_file_def)
qed

lemma drop_file_effect:
  assumes "drop_file p fs = (r, fs')"
  shows "fs_ok fs \<Longrightarrow> fs_ok fs'" "read_file q fs' = (if r = Inr () \<and> q = p then None else read_file q fs)" "is_dir fs' q = is_dir fs q"
    and "r = Inr () \<or> r = Inl Io"
  using assms
  by (auto simp: drop_file_def fs_read remove_file_is_dir path_exists_def is_file_read split: option.splits if_splits dest: fs_keeps_ok)

lemma try_remove_effect:
  "fs_ok fs \<Longrightarrow> fs_ok (try_remove p fs)" "read_file q (try_remove p fs) = (if q = p then None else read_file q fs)"
  "is_dir (try_remove p fs) q = is_dir fs q"
proof -
  have "remove_file p fs = None \<Longrightarrow> read_file p fs = None" by (auto simp: remove_file_def is_file_read split: if_splits)
  then show "read_file q (try_remove p fs) = (if q = p then None else read_file q fs)"
    by (auto simp: try_remove_def fs_read split: option.splits)
qed (auto simp: try_remove_def remove_file_is_dir split: option.splits dest: fs_keeps_ok)

end
