(* ===== verification/Json_Value.thy ===== *)
theory Json_Value
  imports Muli_Prelude
begin

text \<open>
  JSON values as \<open>serde_json::Value\<close> has them, with the accessors the registry uses. Parsing and printing are
  arguments of the definitions that need them. A number is kept as its text.\<close>

datatype Json =
    JNull
  | JBool bool
  | JNumber string
  | JString string
  | JArray "Json list"
  | JObject "(string \<times> Json) list"

fun json_get :: "string \<Rightarrow> Json \<Rightarrow> Json option" where
  "json_get k (JObject kvs) = map_of kvs k"
| "json_get k _ = None"

fun as_str :: "Json \<Rightarrow> string option" where
  "as_str (JString s) = Some s"
| "as_str _ = None"

fun as_array :: "Json \<Rightarrow> Json list option" where
  "as_array (JArray xs) = Some xs"
| "as_array _ = None"

definition get_str :: "string \<Rightarrow> Json \<Rightarrow> string option" where
  "get_str k j = Option.bind (json_get k j) as_str"

definition get_array :: "string \<Rightarrow> Json \<Rightarrow> Json list" where
  "get_array k j = (case Option.bind (json_get k j) as_array of None \<Rightarrow> [] | Some xs \<Rightarrow> xs)"

lemma get_str_object [simp]: "get_str k (JObject kvs) = Option.bind (map_of kvs k) as_str"
  by (simp add: get_str_def)

lemma get_array_object [simp]: "get_array k (JObject kvs) = (case Option.bind (map_of kvs k) as_array of None \<Rightarrow> [] | Some xs \<Rightarrow> xs)"
  by (simp add: get_array_def)

end
