(* ===== verification/Registry_Api.thy ===== *)
theory Registry_Api
  imports Registry_Storage Json_Value
begin

text \<open>
  The OCI endpoints of the registry (\<open>muli-registry/src/api\<close>) over its storage, with the quota of the tenant
  (\<open>common.rs\<close>). Headers are kept where a client acts on
  them; metrics are left out. Updates of the quota that the code spawns are made at once.\<close>

section \<open>Responses and quotas\<close>

datatype RegResponse =
    Oci_error nat string string
  | Error_json nat string
  | Created string string
  | Accepted string string string
  | Deleted
  | Blob_found nat string
  | Blob_data string string
  | Manifest_found nat string string
  | Manifest_data string string string
  | Tag_list string "string list"
  | Catalog "string list"

record 'q RegEnv =
  re_storage :: RegStorage
  re_quota :: "'q TenantQuotaStore option"
  re_json :: "string \<Rightarrow> Json option"

record 'q RegState =
  rs_fs :: Fs
  rs_quota :: 'q

definition check_quota :: "'q RegEnv \<Rightarrow> string \<Rightarrow> nat \<Rightarrow> 'q RegState \<Rightarrow> RegResponse + unit" where
  "check_quota env tenant additional s =
     (case re_quota env of None \<Rightarrow> Inr ()
      | Some Q \<Rightarrow> (case qs_get Q tenant (rs_quota s) of None \<Rightarrow> Inr ()
        | Some q \<Rightarrow>
          if 0 < max_storage_bytes q \<and> would_exceed (of_nat additional) q
          then Inl (Error_json 413 (''tenant quota exceeded: '' @ show_nat (unat (current_usage_bytes q)) @ '' used of ''
                 @ show_nat (unat (max_storage_bytes q)) @ '' allowed, '' @ show_nat additional @ '' requested''))
          else Inr ()))"

definition reserve_quota :: "'q RegEnv \<Rightarrow> string \<Rightarrow> nat \<Rightarrow> 'q RegState \<Rightarrow> (RegResponse + unit) \<times> 'q RegState" where
  "reserve_quota env tenant additional s =
     (if additional = 0 then (Inr (), s)
      else case re_quota env of None \<Rightarrow> (Inr (), s)
      | Some Q \<Rightarrow> (case qs_reserve Q tenant (of_nat additional) (rs_quota s) of
            (True, q) \<Rightarrow> (Inr (), s\<lparr>rs_quota := q\<rparr>)
          | (False, q) \<Rightarrow> (Inl (Error_json 413 (''tenant quota exceeded: cannot reserve '' @ show_nat additional @ '' bytes'')), s\<lparr>rs_quota := q\<rparr>)))"

definition adjust_quota_usage :: "'q RegEnv \<Rightarrow> string \<Rightarrow> int \<Rightarrow> 'q RegState \<Rightarrow> 'q RegState" where
  "adjust_quota_usage env tenant delta s =
     (if delta = 0 then s
      else case re_quota env of None \<Rightarrow> s | Some Q \<Rightarrow> s\<lparr>rs_quota := qs_adjust Q tenant delta (rs_quota s)\<rparr>)"

definition recalculate_quota_usage :: "'q RegEnv \<Rightarrow> string \<Rightarrow> 'q RegState \<Rightarrow> 'q RegState" where
  "recalculate_quota_usage env tenant s =
     (case re_quota env of None \<Rightarrow> s
      | Some Q \<Rightarrow> (case get_tenant_usage tenant (rs_fs s) of Inl _ \<Rightarrow> s
        | Inr usage \<Rightarrow> s\<lparr>rs_quota := qs_update Q tenant (of_nat usage) (rs_quota s)\<rparr>))"

definition validate_name :: "string \<Rightarrow> RegResponse + unit" where
  "validate_name name = (case validate_repository_name name of
     Inl _ \<Rightarrow> Inl (Oci_error 400 ''NAME_INVALID'' ''invalid repository name'') | Inr _ \<Rightarrow> Inr ())"

definition validate_ref :: "string \<Rightarrow> RegResponse + unit" where
  "validate_ref reference = (case validate_reference reference of
     Inl _ \<Rightarrow> Inl (Oci_error 400 ''TAG_INVALID'' ''invalid reference'') | Inr _ \<Rightarrow> Inr ())"

definition validate_digest_param :: "string \<Rightarrow> RegResponse + unit" where
  "validate_digest_param digest = (case validate_digest digest of
     Inl _ \<Rightarrow> Inl (Oci_error 400 ''DIGEST_INVALID'' ''invalid digest format'') | Inr _ \<Rightarrow> Inr ())"

section \<open>Uploads\<close>

text \<open>The quota check of a request with a body, and the append with its two errors.\<close>

definition body_quota :: "'q RegEnv \<Rightarrow> string \<Rightarrow> string \<Rightarrow> 'q RegState \<Rightarrow> RegResponse + unit" where
  "body_quota env tenant body s = (if body = [] then Inr () else check_quota env tenant (length body) s)"

definition append_body :: "'q RegEnv \<Rightarrow> string \<Rightarrow> string \<Rightarrow> string \<Rightarrow> string \<Rightarrow> 'q RegState \<Rightarrow> (RegResponse + nat) \<times> 'q RegState" where
  "append_body env failure tenant upload_id body s =
     (case append_upload (re_storage env) tenant upload_id body (rs_fs s) of
        (Inr n, fs) \<Rightarrow> (Inr n, s\<lparr>rs_fs := fs\<rparr>)
      | (Inl (BlobTooLarge msg), fs) \<Rightarrow> (Inl (Oci_error 413 ''SIZE_LIMIT'' msg), s\<lparr>rs_fs := fs\<rparr>)
      | (Inl _, fs) \<Rightarrow> (Inl (Oci_error 500 ''BLOB_UPLOAD_UNKNOWN'' failure), s\<lparr>rs_fs := fs\<rparr>))"

definition upload_location :: "string \<Rightarrow> string \<Rightarrow> string" where
  "upload_location name upload_id = ''/v2/'' @ name @ ''/blobs/uploads/'' @ upload_id"

text \<open>A mount from another repository: the response if the request ends here.\<close>

definition try_mount :: "string \<Rightarrow> string \<Rightarrow> (string \<times> string) option \<Rightarrow> 'q RegState \<Rightarrow> RegResponse option" where
  "try_mount tenant name mount s =
     (case mount of None \<Rightarrow> None
      | Some (digest, from_repo) \<Rightarrow>
        case and_then (validate_digest_param digest) (\<lambda>_. validate_name from_repo) of Inl e \<Rightarrow> Some e
        | Inr _ \<Rightarrow>
          case reg_list_repositories tenant (rs_fs s) of
            Inl _ \<Rightarrow> Some (Oci_error 500 ''BLOB_UPLOAD_UNKNOWN'' ''failed to list repositories'')
          | Inr repos \<Rightarrow>
            if from_repo \<in> set repos
            then (case has_blob tenant digest (rs_fs s) of
                    Inr True \<Rightarrow> Some (Created (''/v2/'' @ name @ ''/blobs/'' @ digest) digest)
                  | Inr False \<Rightarrow> None
                  | Inl _ \<Rightarrow> Some (Oci_error 500 ''BLOB_UNKNOWN'' ''storage error during mount check''))
            else None)"

definition start_upload :: "'q RegEnv \<Rightarrow> string \<Rightarrow> string \<Rightarrow> string \<Rightarrow> (string \<times> string) option \<Rightarrow> string \<Rightarrow> 'q RegState \<Rightarrow> RegResponse \<times> 'q RegState" where
  "start_upload env uuid tenant name mount body s =
     (case and_then (validate_name name) (\<lambda>_. body_quota env tenant body s) of Inl e \<Rightarrow> (e, s)
      | Inr _ \<Rightarrow>
        case try_mount tenant name mount s of Some r \<Rightarrow> (r, s)
        | None \<Rightarrow>
          case create_upload tenant uuid (rs_fs s) of
            (Inl _, fs) \<Rightarrow> (Oci_error 500 ''BLOB_UPLOAD_UNKNOWN'' ''failed to create upload'', s\<lparr>rs_fs := fs\<rparr>)
          | (Inr _, fs) \<Rightarrow>
            let s1 = s\<lparr>rs_fs := fs\<rparr>; ok = Accepted (upload_location name uuid) uuid ''0-0'' in
            if body = [] then (ok, s1)
            else case append_body env ''failed to write upload data'' tenant uuid body s1 of
              (Inl e, s2) \<Rightarrow> (e, s2) | (Inr _, s2) \<Rightarrow> (ok, s2))"

definition patch_upload :: "'q RegEnv \<Rightarrow> string \<Rightarrow> string \<Rightarrow> string \<Rightarrow> string \<Rightarrow> 'q RegState \<Rightarrow> RegResponse \<times> 'q RegState" where
  "patch_upload env tenant name upload_id body s =
     (case and_then (validate_name name) (\<lambda>_. body_quota env tenant body s) of Inl e \<Rightarrow> (e, s)
      | Inr _ \<Rightarrow>
        case upload_offset tenant upload_id (rs_fs s) of
          Inl _ \<Rightarrow> (Oci_error 404 ''BLOB_UPLOAD_UNKNOWN'' ''upload not found'', s)
        | Inr start_offset \<Rightarrow>
          case append_body env ''failed to append data'' tenant upload_id body s of
            (Inl e, s1) \<Rightarrow> (e, s1)
          | (Inr end_offset, s1) \<Rightarrow>
            (Accepted (upload_location name upload_id) upload_id (show_nat start_offset @ ''-'' @ show_nat (end_offset - 1)), s1))"

definition api_complete_upload :: "'q RegEnv \<Rightarrow> bool \<Rightarrow> bool \<Rightarrow> string \<Rightarrow> string \<Rightarrow> string \<Rightarrow> string \<Rightarrow> string \<Rightarrow> 'q RegState \<Rightarrow> RegResponse \<times> 'q RegState" where
  "api_complete_upload env rename_fails copy_fails tenant name upload_id digest body s =
     (case and_then (validate_name name) (\<lambda>_. and_then (validate_digest_param digest) (\<lambda>_. body_quota env tenant body s)) of
        Inl e \<Rightarrow> (e, s)
      | Inr _ \<Rightarrow>
        case (if body = [] then (Inr 0, s) else append_body env ''failed to append final data'' tenant upload_id body s) of
          (Inl e, s1) \<Rightarrow> (e, s1)
        | (Inr _, s1) \<Rightarrow>
          let blob_is_new = (case has_blob tenant digest (rs_fs s1) of Inr b \<Rightarrow> \<not> b | Inl _ \<Rightarrow> False) in
          case complete_upload (re_storage env) rename_fails copy_fails tenant upload_id digest (rs_fs s1) of
            (Inr _, fs) \<Rightarrow>
              let s2 = s1\<lparr>rs_fs := fs\<rparr>;
                  s3 = (if blob_is_new
                        then (case blob_size tenant digest fs of Inr n \<Rightarrow> snd (reserve_quota env tenant n s2) | Inl _ \<Rightarrow> s2)
                        else s2) in
              (Created (''/v2/'' @ name @ ''/blobs/'' @ digest) digest, s3)
          | (Inl (InvalidDigest msg), fs) \<Rightarrow> (Oci_error 400 ''DIGEST_INVALID'' msg, s1\<lparr>rs_fs := fs\<rparr>)
          | (Inl _, fs) \<Rightarrow> (Oci_error 500 ''BLOB_UPLOAD_UNKNOWN'' ''failed to complete upload'', s1\<lparr>rs_fs := fs\<rparr>))"

section \<open>Blobs\<close>

definition blob_request :: "string \<Rightarrow> string \<Rightarrow> RegResponse + unit" where
  "blob_request name digest = and_then (validate_name name) (\<lambda>_. validate_digest_param digest)"

definition head_blob :: "string \<Rightarrow> string \<Rightarrow> string \<Rightarrow> 'q RegState \<Rightarrow> RegResponse" where
  "head_blob tenant name digest s =
     (case blob_request name digest of Inl e \<Rightarrow> e
      | Inr _ \<Rightarrow>
        case has_blob tenant digest (rs_fs s) of
          Inr True \<Rightarrow> (case blob_size tenant digest (rs_fs s) of Inr n \<Rightarrow> Blob_found n digest
                       | Inl _ \<Rightarrow> Oci_error 500 ''BLOB_UNKNOWN'' ''failed to stat blob'')
        | Inr False \<Rightarrow> Oci_error 404 ''BLOB_UNKNOWN'' ''blob not found''
        | Inl _ \<Rightarrow> Oci_error 500 ''BLOB_UNKNOWN'' ''storage error'')"

definition api_get_blob :: "string \<Rightarrow> string \<Rightarrow> string \<Rightarrow> 'q RegState \<Rightarrow> RegResponse" where
  "api_get_blob tenant name digest s =
     (case blob_request name digest of Inl e \<Rightarrow> e
      | Inr _ \<Rightarrow>
        case get_blob tenant digest (rs_fs s) of
          Inr (data, _) \<Rightarrow> Blob_data digest data
        | Inl (BlobNotFound _) \<Rightarrow> Oci_error 404 ''BLOB_UNKNOWN'' ''blob not found''
        | Inl _ \<Rightarrow> Oci_error 500 ''BLOB_UNKNOWN'' ''storage error'')"

definition api_delete_blob :: "'q RegEnv \<Rightarrow> string \<Rightarrow> string \<Rightarrow> string \<Rightarrow> 'q RegState \<Rightarrow> RegResponse \<times> 'q RegState" where
  "api_delete_blob env tenant name digest s =
     (case blob_request name digest of Inl e \<Rightarrow> (e, s)
      | Inr _ \<Rightarrow>
        let freed = (case blob_size tenant digest (rs_fs s) of Inr n \<Rightarrow> n | Inl _ \<Rightarrow> 0) in
        case delete_blob tenant digest (rs_fs s) of
          (Inr _, fs) \<Rightarrow> (Deleted, adjust_quota_usage env tenant (- int freed) (s\<lparr>rs_fs := fs\<rparr>))
        | (Inl _, fs) \<Rightarrow> (Oci_error 404 ''BLOB_UNKNOWN'' ''blob not found'', s\<lparr>rs_fs := fs\<rparr>))"

section \<open>Manifests\<close>

definition manifest_request :: "string \<Rightarrow> string \<Rightarrow> RegResponse + unit" where
  "manifest_request name reference = and_then (validate_name name) (\<lambda>_. validate_ref reference)"

definition known_media_types :: "string list" where
  "known_media_types = [''application/vnd.oci.image.manifest.v1+json'', ''application/vnd.oci.image.index.v1+json'',
     ''application/vnd.docker.distribution.manifest.v2+json'', ''application/vnd.docker.distribution.manifest.list.v2+json'']"

definition detect_manifest_media_type :: "Json option \<Rightarrow> string" where
  "detect_manifest_media_type parsed =
     (case parsed of None \<Rightarrow> known_media_types ! 0
      | Some json \<Rightarrow>
        case get_str ''mediaType'' json of
          Some mt \<Rightarrow> if mt \<in> set known_media_types then mt else
            (if json_get ''schemaVersion'' json = None then known_media_types ! 0
             else if json_get ''manifests'' json = None then known_media_types ! 2 else known_media_types ! 3)
        | None \<Rightarrow>
            (if json_get ''schemaVersion'' json = None then known_media_types ! 0
             else if json_get ''manifests'' json = None then known_media_types ! 2 else known_media_types ! 3))"

definition load_manifest :: "'q RegEnv \<Rightarrow> string \<Rightarrow> string \<Rightarrow> string \<Rightarrow> 'q RegState \<Rightarrow> RegResponse + (string \<times> string \<times> string)" where
  "load_manifest env tenant name reference s =
     and_then (manifest_request name reference) (\<lambda>_.
       case get_manifest tenant name reference (rs_fs s) of
         Inr data \<Rightarrow> Inr (data, digest_of (re_storage env) data, detect_manifest_media_type (re_json env data))
       | Inl (ManifestNotFound _ _) \<Rightarrow> Inl (Oci_error 404 ''MANIFEST_UNKNOWN'' ''manifest not found'')
       | Inl _ \<Rightarrow> Inl (Oci_error 500 ''MANIFEST_UNKNOWN'' ''storage error''))"

definition head_manifest :: "'q RegEnv \<Rightarrow> string \<Rightarrow> string \<Rightarrow> string \<Rightarrow> 'q RegState \<Rightarrow> RegResponse" where
  "head_manifest env tenant name reference s =
     (case load_manifest env tenant name reference s of Inl e \<Rightarrow> e
      | Inr (data, digest, content_type) \<Rightarrow> Manifest_found (length data) digest content_type)"

definition api_get_manifest :: "'q RegEnv \<Rightarrow> string \<Rightarrow> string \<Rightarrow> string \<Rightarrow> 'q RegState \<Rightarrow> RegResponse" where
  "api_get_manifest env tenant name reference s =
     (case load_manifest env tenant name reference s of Inl e \<Rightarrow> e
      | Inr (data, digest, content_type) \<Rightarrow> Manifest_data digest content_type data)"

definition put_manifest :: "'q RegEnv \<Rightarrow> string \<Rightarrow> string \<Rightarrow> string \<Rightarrow> string \<Rightarrow> 'q RegState \<Rightarrow> RegResponse \<times> 'q RegState" where
  "put_manifest env tenant name reference body s =
     (case manifest_request name reference of Inl e \<Rightarrow> (e, s)
      | Inr _ \<Rightarrow>
        let reserved = 2 * length body in
        case reserve_quota env tenant reserved s of (Inl e, s1) \<Rightarrow> (e, s1)
        | (Inr _, s1) \<Rightarrow>
          let digest = digest_of (re_storage env) body in
          case store_manifest tenant name reference body (rs_fs s1) of
            (Inr _, fs) \<Rightarrow>
              (Created (''/v2/'' @ name @ ''/manifests/'' @ reference) digest,
               s1\<lparr>rs_fs := snd (store_manifest tenant name digest body fs)\<rparr>)
          | (Inl _, fs) \<Rightarrow>
              (Oci_error 500 ''MANIFEST_INVALID'' ''failed to store manifest'',
               adjust_quota_usage env tenant (- int reserved) (s1\<lparr>rs_fs := fs\<rparr>)))"

definition api_delete_manifest :: "'q RegEnv \<Rightarrow> string \<Rightarrow> string \<Rightarrow> string \<Rightarrow> 'q RegState \<Rightarrow> RegResponse \<times> 'q RegState" where
  "api_delete_manifest env tenant name reference s =
     (case manifest_request name reference of Inl e \<Rightarrow> (e, s)
      | Inr _ \<Rightarrow>
        let freed = (case get_manifest tenant name reference (rs_fs s) of Inr data \<Rightarrow> length data | Inl _ \<Rightarrow> 0) in
        case delete_manifest tenant name reference (rs_fs s) of
          (Inr _, fs) \<Rightarrow> (Deleted, adjust_quota_usage env tenant (- int freed) (s\<lparr>rs_fs := fs\<rparr>))
        | (Inl _, fs) \<Rightarrow> (Oci_error 404 ''MANIFEST_UNKNOWN'' ''manifest not found'', s\<lparr>rs_fs := fs\<rparr>))"

definition api_list_tags :: "string \<Rightarrow> string \<Rightarrow> 'q RegState \<Rightarrow> RegResponse" where
  "api_list_tags tenant name s =
     (case validate_name name of Inl e \<Rightarrow> e
      | Inr _ \<Rightarrow> (case reg_list_tags tenant name (rs_fs s) of Inr tags \<Rightarrow> Tag_list name tags
                  | Inl _ \<Rightarrow> Oci_error 404 ''NAME_UNKNOWN'' ''repository not found''))"

definition catalog :: "string \<Rightarrow> 'q RegState \<Rightarrow> RegResponse" where
  "catalog tenant s =
     (case reg_list_repositories tenant (rs_fs s) of Inr repos \<Rightarrow> Catalog repos
      | Inl _ \<Rightarrow> Oci_error 500 ''UNKNOWN'' ''failed to list repositories'')"

end
