(* ===== verification/Registry_Gc.thy ===== *)
theory Registry_Gc
  imports Registry_Api
begin

text \<open>
  Garbage collection of blobs (\<open>muli-registry/src/garbage_collection.rs\<close>), and what holds of the registry under
  any sequence of requests and collections: its blobs stay addressed by their content, uploads arrive
  complete, and a collection deletes exactly the blobs no manifest refers to.\<close>

section \<open>The collector\<close>

record GcReport =
  deleted_blobs :: nat
  evicted_blobs :: nat
  evicted_bytes :: nat

definition gc_lock_path :: "string \<Rightarrow> path" where
  "gc_lock_path tenant = [tenant, ''.gc_lock'']"

text \<open>\<open>create_new\<close>: fails if the path exists.\<close>

definition try_create_lock :: "string \<Rightarrow> path \<Rightarrow> Fs \<Rightarrow> Fs option" where
  "try_create_lock pid p fs = (if path_exists fs p then None else write_file p pid fs)"

definition is_lock_stale :: "nat \<Rightarrow> bool" where
  "is_lock_stale age \<longleftrightarrow> 3600 \<le> age"

text \<open>The age of a lock file that is found, in seconds, is an argument.\<close>

definition acquire_lock :: "string \<Rightarrow> nat \<Rightarrow> string \<Rightarrow> Fs \<Rightarrow> (StorageError + unit) \<times> Fs" where
  "acquire_lock pid age tenant fs =
     (let lock = gc_lock_path tenant; running = Inl (InvalidInput ''GC is already running (lock file exists)'') in
      case create_dir_all (butlast lock) fs of None \<Rightarrow> (Inl Io, fs)
      | Some fs1 \<Rightarrow>
        case try_create_lock pid lock fs1 of Some fs2 \<Rightarrow> (Inr (), fs2)
        | None \<Rightarrow>
          if \<not> path_exists fs1 lock then (Inl Io, fs1)
          else if is_lock_stale age
          then let fs2 = try_remove lock fs1 in
               (case try_create_lock pid lock fs2 of Some fs3 \<Rightarrow> (Inr (), fs3) | None \<Rightarrow> (running, fs2))
          else (running, fs1))"

definition release_lock :: "string \<Rightarrow> Fs \<Rightarrow> Fs" where
  "release_lock tenant fs = try_remove (gc_lock_path tenant) fs"

definition manifest_references :: "Json \<Rightarrow> string list" where
  "manifest_references json =
     List.map_filter (get_str ''digest'') (get_array ''layers'' json)
     @ (case Option.bind (json_get ''config'' json) (get_str ''digest'') of None \<Rightarrow> [] | Some d \<Rightarrow> [d])
     @ List.map_filter (get_str ''digest'') (get_array ''manifests'' json)"

definition collect_referenced_digests :: "'q RegEnv \<Rightarrow> string \<Rightarrow> Fs \<Rightarrow> StorageError + string list" where
  "collect_referenced_digests env tenant fs =
     and_then (all_manifests tenant fs) (\<lambda>manifests.
       Inr (concat (map (\<lambda>m. case re_json env m of None \<Rightarrow> [] | Some json \<Rightarrow> manifest_references json) manifests)))"

fun gc_delete :: "string \<Rightarrow> string list \<Rightarrow> Fs \<Rightarrow> nat \<Rightarrow> Fs \<times> nat" where
  "gc_delete tenant [] fs n = (fs, n)"
| "gc_delete tenant (d # ds) fs n =
     (case delete_blob tenant d fs of (Inr _, fs') \<Rightarrow> gc_delete tenant ds fs' (Suc n) | (Inl _, fs') \<Rightarrow> gc_delete tenant ds fs' n)"

fun evict_loop :: "nat \<Rightarrow> string \<Rightarrow> (string \<times> nat) list \<Rightarrow> nat \<Rightarrow> Fs \<Rightarrow> GcReport \<Rightarrow> Fs \<times> GcReport" where
  "evict_loop limit tenant [] total_size fs r = (fs, r)"
| "evict_loop limit tenant ((d, n) # ds) total_size fs r =
     (if total_size \<le> limit then (fs, r)
      else case delete_blob tenant d fs of
        (Inl _, fs') \<Rightarrow> evict_loop limit tenant ds total_size fs' r
      | (Inr _, fs') \<Rightarrow> evict_loop limit tenant ds (total_size - n) fs'
          (r\<lparr>evicted_blobs := evicted_blobs r + 1, evicted_bytes := evicted_bytes r + n\<rparr>))"

definition blob_sizes :: "string \<Rightarrow> string list \<Rightarrow> Fs \<Rightarrow> (string \<times> nat) list" where
  "blob_sizes tenant blobs fs = List.map_filter (\<lambda>d. case blob_size tenant d fs of Inr n \<Rightarrow> Some (d, n) | Inl _ \<Rightarrow> None) blobs"

definition evict_lru :: "nat \<Rightarrow> string \<Rightarrow> Fs \<Rightarrow> GcReport \<Rightarrow> StorageError + (Fs \<times> GcReport)" where
  "evict_lru limit tenant fs r =
     and_then (list_blobs tenant fs) (\<lambda>blobs.
       let sizes = blob_sizes tenant blobs fs; total_size = sum_list (map snd sizes) in
       Inr (if total_size \<le> limit then (fs, r) else evict_loop limit tenant (sort_key snd sizes) total_size fs r))"

text \<open>The phases of a collection, and the collection under its lock. A limit of 0 turns eviction off.\<close>

definition run_inner :: "'q RegEnv \<Rightarrow> nat \<Rightarrow> string \<Rightarrow> Fs \<Rightarrow> (StorageError + GcReport) \<times> Fs" where
  "run_inner env limit tenant fs =
     (case and_then (collect_referenced_digests env tenant fs) (\<lambda>_.
           and_then (list_blobs tenant fs) (\<lambda>blobs.
           and_then (collect_referenced_digests env tenant fs) (\<lambda>current_refs.
             Inr (filter (\<lambda>d. d \<notin> set current_refs) (remdups blobs))))) of
        Inl e \<Rightarrow> (Inl e, fs)
      | Inr unreferenced \<Rightarrow>
        let (fs1, deleted) = gc_delete tenant unreferenced fs 0;
            report = \<lparr>deleted_blobs = deleted, evicted_blobs = 0, evicted_bytes = 0\<rparr> in
        if 0 < limit
        then (case evict_lru limit tenant fs1 report of Inl e \<Rightarrow> (Inl e, fs1) | Inr (fs2, report') \<Rightarrow> (Inr report', fs2))
        else (Inr report, fs1))"

definition gc_run :: "'q RegEnv \<Rightarrow> nat \<Rightarrow> string \<Rightarrow> nat \<Rightarrow> string \<Rightarrow> Fs \<Rightarrow> (StorageError + GcReport) \<times> Fs" where
  "gc_run env limit pid age tenant fs =
     (case acquire_lock pid age tenant fs of (Inl e, fs1) \<Rightarrow> (Inl e, fs1)
      | (Inr _, fs1) \<Rightarrow> (case run_inner env limit tenant fs1 of (r, fs2) \<Rightarrow> (r, release_lock tenant fs2)))"

section \<open>The layout of the storage\<close>

text \<open>Where files and directories are: locks, uploads, blobs under well-formed digests, manifests.\<close>

definition file_place :: "path \<Rightarrow> bool" where
  "file_place f \<longleftrightarrow> (\<exists>t. f = gc_lock_path t) \<or> (\<exists>t u. f = [t, ''uploads'', u])
     \<or> (\<exists>t a h. f = [t, ''blobs'', a, h] \<and> t \<noteq> ''..'' \<and> digest_pattern (a @ '':'' @ h) a h)
     \<or> (\<exists>t cs r. f = [t, ''manifests''] @ cs @ [r] \<and> cs \<noteq> [] \<and> list_all component_pattern cs \<and> reference_pattern r)"

definition dir_place :: "path \<Rightarrow> bool" where
  "dir_place d \<longleftrightarrow> length d \<le> 1 \<or> (\<exists>t. d = [t, ''uploads'']) \<or> (\<exists>t. d = [t, ''blobs'']) \<or> (\<exists>t a. d = [t, ''blobs'', a])
     \<or> (\<exists>t cs. d = [t, ''manifests''] @ cs \<and> list_all component_pattern cs)"

definition layout_ok :: "Fs \<Rightarrow> bool" where
  "layout_ok fs \<longleftrightarrow> fs_ok fs \<and> (\<forall>p. is_file fs p \<longrightarrow> file_place p) \<and> (\<forall>p. is_dir fs p \<longrightarrow> dir_place p)"

definition addressed :: "RegStorage \<Rightarrow> Fs \<Rightarrow> bool" where
  "addressed st fs \<longleftrightarrow> (\<forall>t a h data. read_file [t, ''blobs'', a, h] fs = Some data \<longrightarrow> a @ '':'' @ h = digest_of st data)"


lemma dir_place_prefix: "dir_place d \<Longrightarrow> prefix q d \<Longrightarrow> dir_place q"
  unfolding dir_place_def by (auto simp: prefix_Cons prefix_append list_all_iff dest: prefix_length_le) (metis set_mono_prefix subsetD)

lemma file_place_parent: "file_place f \<Longrightarrow> prefix q (butlast f) \<Longrightarrow> dir_place q"
proof (rule dir_place_prefix)
  show "file_place f \<Longrightarrow> dir_place (butlast f)"
    unfolding file_place_def dir_place_def by (auto simp: gc_lock_path_def butlast_append)
qed

lemma file_not_dir: "file_place f \<Longrightarrow> dir_place f \<Longrightarrow> \<exists>t cs r. f = [t, ''manifests''] @ cs @ [r] \<and> cs \<noteq> []"
  unfolding file_place_def dir_place_def by (auto simp: gc_lock_path_def)

lemma layout_empty: "layout_ok fs_empty"
  by (auto simp: layout_ok_def fs_empty_def is_file_def is_dir_def dir_place_def fs_ok_def)

text \<open>Steps that write one file in its place, or remove files, keep the layout.\<close>

lemma layout_step:
  assumes "layout_ok fs" "fs_ok fs'" "\<And>q. is_file fs' q \<Longrightarrow> is_file fs q \<or> q = p \<and> file_place p"
    and "\<And>q. is_dir fs' q \<Longrightarrow> is_dir fs q \<or> file_place p \<and> prefix q (butlast p)"
  shows "layout_ok fs'"
  using assms file_place_parent unfolding layout_ok_def by blast

lemma layout_put_file: "layout_ok fs \<Longrightarrow> file_place p \<Longrightarrow> put_file p data fs = (r, fs') \<Longrightarrow> layout_ok fs'"
  by (rule layout_step [of fs fs' p]) (auto simp: is_file_read layout_ok_def put_file_effect split: if_splits dest: put_file_effect(3))

lemma layout_drop_file: "layout_ok fs \<Longrightarrow> drop_file p fs = (r, fs') \<Longrightarrow> layout_ok fs'"
  by (rule layout_step [of fs fs' p]) (auto simp: is_file_read layout_ok_def drop_file_effect split: if_splits)

lemma layout_try_remove: "layout_ok fs \<Longrightarrow> layout_ok (try_remove p fs)"
  by (rule layout_step [of fs _ p]) (auto simp: is_file_read layout_ok_def try_remove_effect split: if_splits)

lemma blob_place: "blob_path tenant digest = Inr p \<Longrightarrow> file_place p"
  by (force simp: blob_path_iff file_place_def digest_pattern_def)

lemma upload_place: "upload_path tenant u = Inr p \<Longrightarrow> file_place p"
  by (auto simp: upload_path_iff file_place_def)

lemma manifest_place: "manifest_path tenant name r = Inr p \<Longrightarrow> file_place p"
  using name_components [of name] by (auto simp: manifest_path_iff file_place_def list_all_iff)

lemmas places = blob_place upload_place manifest_place

text \<open>A blob path is never a directory and its parents are never files.\<close>

lemma layout_parents:
  assumes "layout_ok fs" "file_place p" "prefix q (butlast p)" "\<And>t cs r. p \<noteq> [t, ''manifests''] @ cs @ [r]"
  shows "\<not> is_file fs q"
proof
  assume "is_file fs q"
  then have "file_place q" "dir_place q" using assms(1-3) file_place_parent by (auto simp: layout_ok_def)
  then obtain t cs r where q: "q = [t, ''manifests''] @ cs @ [r]" "cs \<noteq> []" using file_not_dir by blast
  with assms(2-4) show False unfolding file_place_def by (auto simp: gc_lock_path_def prefix_Cons)
qed

lemma layout_not_dir: "layout_ok fs \<Longrightarrow> file_place p \<Longrightarrow> (\<And>t cs r. p \<noteq> [t, ''manifests''] @ cs @ [r]) \<Longrightarrow> \<not> is_dir fs p"
  using file_not_dir [of p] by (auto simp: layout_ok_def)

lemma layout_exists:
  "layout_ok fs \<Longrightarrow> file_place p \<Longrightarrow> (\<And>t cs r. p \<noteq> [t, ''manifests''] @ cs @ [r]) \<Longrightarrow> path_exists fs p \<longleftrightarrow> is_file fs p"
  using layout_not_dir by (auto simp: path_exists_def)

lemma blob_not_manifest: "blob_path tenant digest = Inr p \<Longrightarrow> p \<noteq> [t, ''manifests''] @ cs @ [r]"
  by (auto simp: blob_path_iff)

lemma upload_not_manifest: "upload_path tenant u = Inr p \<Longrightarrow> p \<noteq> [t, ''manifests''] @ cs @ [r]"
  by (auto simp: upload_path_iff)

text \<open>Addresses.\<close>

lemma addressed_step:
  assumes "addressed st fs" "\<And>t a h data. read_file [t, ''blobs'', a, h] fs' = Some data \<Longrightarrow>
      read_file [t, ''blobs'', a, h] fs = Some data \<or> a @ '':'' @ h = digest_of st data"
  shows "addressed st fs'"
  using assms unfolding addressed_def by blast

lemma addressed_put_file:
  "addressed st fs \<Longrightarrow> (\<And>t a h. p \<noteq> [t, ''blobs'', a, h]) \<Longrightarrow> put_file p data fs = (r, fs') \<Longrightarrow> addressed st fs'"
  by (erule addressed_step) (auto simp: put_file_effect split: if_splits)

lemma addressed_drop_file: "addressed st fs \<Longrightarrow> drop_file p fs = (r, fs') \<Longrightarrow> addressed st fs'"
  by (erule addressed_step) (auto simp: drop_file_effect split: if_splits)

lemma addressed_try_remove: "addressed st fs \<Longrightarrow> addressed st (try_remove p fs)"
  by (erule addressed_step) (auto simp: try_remove_effect split: if_splits)

text \<open>Completing an upload: the data of the upload becomes the blob of its digest.\<close>

lemma complete_upload_cases:
  assumes "complete_upload st rf cf tenant u digest fs = (r, fs')"
  obtains "r \<noteq> Inr ()" "fs' = fs"
  | up where "r \<noteq> Inr ()" "upload_path tenant u = Inr up" "fs' = try_remove up fs"
  | up bp data fs1 where "upload_path tenant u = Inr up" "blob_path tenant digest = Inr bp" "read_file up fs = Some data"
      "digest = digest_of st data" "create_dir_all (butlast bp) fs = Some fs1"
      "r = Inr () \<and> rename_file up bp fs1 = Some fs' \<and> \<not> rf
       \<or> (rf \<or> rename_file up bp fs1 = None) \<and>
         (r \<noteq> Inr () \<and> (fs' = fs1 \<or> fs' = try_remove up fs1)
          \<or> r = Inr () \<and> fs' = try_remove up fs1 \<and> (\<exists>old. read_file bp fs1 = Some old \<and> digest_of st old = digest)
          \<or> r = Inr () \<and> (\<exists>fs2. write_file bp data fs1 = Some fs2 \<and> fs' = try_remove up fs2))"
proof (cases "upload_path tenant u")
  case (Inl e)
  then show ?thesis using assms that(1) by (auto simp: complete_upload_def)
next
  case up: (Inr up)
  note ex = assms [unfolded complete_upload_def up sum.case Let_def]
  show ?thesis
  proof (cases "read_file up fs")
    case None
    then show ?thesis using ex that(1) by (auto split: if_splits)
  next
    case data: (Some data)
    then have "path_exists fs up" by (simp add: path_exists_def is_file_read)
    note ex1 = ex [unfolded data option.case, simplified this simp_thms if_True if_False]
    show ?thesis
    proof (cases "digest = digest_of st data")
      case False
      then show ?thesis using ex1 that(2) [OF _ up] by auto
    next
      case dig: True
      show ?thesis
      proof (cases "blob_path tenant digest")
        case (Inl e)
        then show ?thesis using ex1 dig that(1) by auto
      next
        case bp: (Inr bp)
        show ?thesis
        proof (cases "create_dir_all (butlast bp) fs")
          case None
          then show ?thesis using ex1 dig bp that(1) by auto
        next
          case fs1: (Some fs1)
          show ?thesis
            using ex1 dig bp fs1
            by (intro that(3) [OF up bp data dig fs1]) (auto split: if_splits option.splits)
        qed
      qed
    qed
  qed
qed


lemma layout_create_parent:
  "layout_ok fs \<Longrightarrow> file_place p \<Longrightarrow> create_dir_all (butlast p) fs = Some fs1 \<Longrightarrow> layout_ok fs1"
  by (rule layout_step [of fs fs1 p]) (auto simp: create_dir_all_read create_dir_all_is_dir layout_ok_def dest: create_dir_all_ok)

lemma complete_upload_keeps:
  assumes "layout_ok fs" "addressed st fs" "complete_upload st rf cf tenant u digest fs = (r, fs')"
  shows "layout_ok fs' \<and> addressed st fs'"
  using assms(3)
proof (cases rule: complete_upload_cases)
  case 1
  then show ?thesis using assms by simp
next
  case (2 up)
  then show ?thesis using assms by (simp add: layout_try_remove addressed_try_remove)
next
  case (3 up bp data fs1)
  have fs1: "layout_ok fs1" using layout_create_parent [OF assms(1) blob_place [OF 3(2)] 3(5)] .
  have read1: "read_file q fs1 = read_file q fs" for q using create_dir_all_read [OF 3(5)] by simp
  then have ad1: "addressed st fs1" using assms(2) by (simp add: addressed_def)
  obtain a h where bp: "bp = [tenant, ''blobs'', a, h]" "digest = a @ '':'' @ h"
    using 3(2) by (auto simp: blob_path_iff digest_pattern_def)
  have wrote: "layout_ok fs2 \<and> addressed st fs2" if "write_file bp data fs1 = Some fs2" for fs2
  proof
    have "fs_ok fs2" using fs1 write_file_ok [OF _ that] by (simp add: layout_ok_def)
    then show "layout_ok fs2" using blob_place [OF 3(2)] 3(3) read1
      by (rule_tac layout_step [OF fs1, of fs2 bp])
        (auto simp: is_file_read write_file_read [OF that] write_file_is_dir [OF that] split: if_splits)
    show "addressed st fs2" using ad1 3(4) bp
      by (rule_tac addressed_step [OF ad1]) (auto simp: write_file_read [OF that] split: if_splits)
  qed
  have renamed: "layout_ok fs2 \<and> addressed st fs2" if "rename_file up bp fs1 = Some fs2" for fs2
  proof
    have "fs_ok fs2" using fs1 rename_file_ok [OF _ that] by (simp add: layout_ok_def)
    then show "layout_ok fs2" using blob_place [OF 3(2)] 3(3) read1
      by (rule_tac layout_step [OF fs1, of fs2 bp])
        (auto simp: is_file_read rename_file_read [OF that] rename_file_is_dir [OF that] split: if_splits)
    show "addressed st fs2" using 3(3,4) bp read1
      by (rule_tac addressed_step [OF ad1]) (auto simp: rename_file_read [OF that] split: if_splits)
  qed
  from 3(6) show ?thesis using wrote renamed fs1 ad1
    by (auto simp: layout_try_remove addressed_try_remove)
qed

section \<open>Sequences of requests\<close>

datatype Request =
    StartUpload string string "(string \<times> string) option" string
  | PatchUpload string string string
  | CompleteUpload bool bool string string string string
  | PutManifest string string string
  | DeleteManifest string string
  | DeleteBlob string string
  | Collect nat string nat

text \<open>What a request or a collection does to the storage and the quotas of a tenant.\<close>

fun handle :: "'q RegEnv \<Rightarrow> string \<Rightarrow> Request \<Rightarrow> 'q RegState \<Rightarrow> 'q RegState" where
  "handle env t (StartUpload uuid name mount body) s = snd (start_upload env uuid t name mount body s)"
| "handle env t (PatchUpload name u body) s = snd (patch_upload env t name u body s)"
| "handle env t (CompleteUpload rf cf name u digest body) s = snd (api_complete_upload env rf cf t name u digest body s)"
| "handle env t (PutManifest name ref body) s = snd (put_manifest env t name ref body s)"
| "handle env t (DeleteManifest name ref) s = snd (api_delete_manifest env t name ref s)"
| "handle env t (DeleteBlob name digest) s = snd (api_delete_blob env t name digest s)"
| "handle env t (Collect limit pid age) s = s\<lparr>rs_fs := snd (gc_run env limit pid age t (rs_fs s))\<rparr>"

definition handle_all :: "'q RegEnv \<Rightarrow> (string \<times> Request) list \<Rightarrow> 'q RegState \<Rightarrow> 'q RegState" where
  "handle_all env rs s = fold (\<lambda>(t, r). handle env t r) rs s"

definition reg_inv :: "RegStorage \<Rightarrow> Fs \<Rightarrow> bool" where
  "reg_inv st fs \<longleftrightarrow> layout_ok fs \<and> addressed st fs"

lemma reg_inv_empty: "reg_inv st fs_empty"
  unfolding reg_inv_def using layout_empty by (simp add: addressed_def read_file_def) (simp add: fs_empty_def)

lemma reg_inv_put: "reg_inv st fs \<Longrightarrow> file_place p \<Longrightarrow> (\<And>t a h. p \<noteq> [t, ''blobs'', a, h]) \<Longrightarrow> put_file p data fs = (r, fs') \<Longrightarrow> reg_inv st fs'"
  by (auto simp: reg_inv_def intro: layout_put_file addressed_put_file)

lemma reg_inv_drop: "reg_inv st fs \<Longrightarrow> drop_file p fs = (r, fs') \<Longrightarrow> reg_inv st fs'"
  by (auto simp: reg_inv_def intro: layout_drop_file addressed_drop_file)

lemma reg_inv_put_upload:
  assumes "reg_inv st fs" "upload_path t u = Inr p"
  shows "reg_inv st (snd (put_file p data fs))"
proof -
  have "p \<noteq> [t', ''blobs'', a, h]" for t' a h using assms(2) by (auto simp: upload_path_iff)
  then show ?thesis using reg_inv_put [OF assms(1) upload_place [OF assms(2)]] by (cases "put_file p data fs") auto
qed

lemma reg_inv_put_manifest:
  assumes "reg_inv st fs" "manifest_path t name r = Inr p"
  shows "reg_inv st (snd (put_file p data fs))"
proof -
  have "p \<noteq> [t', ''blobs'', a, h]" for t' a h using assms(2) by (auto simp: manifest_path_iff)
  then show ?thesis using reg_inv_put [OF assms(1) manifest_place [OF assms(2)]] by (cases "put_file p data fs") auto
qed

lemma reg_inv_create_upload: "reg_inv st fs \<Longrightarrow> reg_inv st (snd (create_upload t u fs))"
  by (auto simp: create_upload_def reg_inv_put_upload split: sum.splits)

lemma reg_inv_store_manifest: "reg_inv st fs \<Longrightarrow> reg_inv st (snd (store_manifest t name r data fs))"
  by (auto simp: store_manifest_def reg_inv_put_manifest split: sum.splits)

lemma reg_inv_stored: "store_manifest t name r data fs = (x, fs') \<Longrightarrow> reg_inv st fs \<longrightarrow> reg_inv st fs'"
  using reg_inv_store_manifest [of st fs t name r data] by simp

lemma reg_inv_append_upload:
  assumes "reg_inv st fs"
  shows "reg_inv st (snd (append_upload st' t u data fs))"
proof (cases "upload_path t u")
  case (Inr p)
  have "reg_inv st fs1" if w: "write_file p d fs = Some fs1" for d fs1
  proof -
    have ok: "layout_ok fs" "addressed st fs" using assms by (simp_all add: reg_inv_def)
    have "fs_ok fs1" using ok write_file_ok [OF _ w] by (simp add: layout_ok_def)
    then have "layout_ok fs1" using upload_place [OF Inr]
      by (rule_tac layout_step [OF ok(1), of fs1 p])
        (auto simp: is_file_read write_file_read [OF w] write_file_is_dir [OF w] split: if_splits)
    moreover have "addressed st fs1" using Inr
      by (rule_tac addressed_step [OF ok(2)]) (auto simp: write_file_read [OF w] upload_path_iff split: if_splits)
    ultimately show ?thesis by (simp add: reg_inv_def)
  qed
  then show ?thesis using assms Inr by (auto simp: append_upload_def split: option.splits)
qed (simp add: append_upload_def assms)

lemma reg_inv_deletes:
  "delete_manifest t name ref fs = (r, fs') \<Longrightarrow> reg_inv st fs \<longrightarrow> reg_inv st fs'"
  "delete_blob t digest fs = (r, fs') \<Longrightarrow> reg_inv st fs \<longrightarrow> reg_inv st fs'"
  using reg_inv_drop by (auto simp: delete_manifest_def delete_blob_def split: sum.splits)

lemma reg_inv_append_body: "append_body env f t u body s = (r, s') \<Longrightarrow> reg_inv st (rs_fs s) \<longrightarrow> reg_inv st (rs_fs s')"
  using reg_inv_append_upload [of st "rs_fs s" "re_storage env" t u body]
  by (auto simp: append_body_def split: prod.splits sum.splits StorageError.splits)

lemma reserve_quota_fs [simp]: "rs_fs (snd (reserve_quota env t n s)) = rs_fs s"
  by (simp add: reserve_quota_def split: option.splits prod.splits bool.splits)

lemma adjust_quota_fs [simp]: "rs_fs (adjust_quota_usage env t d s) = rs_fs s"
  by (simp add: adjust_quota_usage_def split: option.splits)

lemma reserve_quota_fs': "reserve_quota env t n s = (r, s') \<Longrightarrow> rs_fs s' = rs_fs s"
  using reserve_quota_fs [of env t n s] by simp

lemma reg_inv_start: "reg_inv st (rs_fs s) \<Longrightarrow> reg_inv st (rs_fs (snd (start_upload env uuid t name mount body s)))"
  using reg_inv_create_upload [of st "rs_fs s" t uuid]
  by (auto simp: start_upload_def Let_def split: sum.splits option.splits prod.splits dest!: reg_inv_append_body [where st = st])

lemma reg_inv_patch: "reg_inv st (rs_fs s) \<Longrightarrow> reg_inv st (rs_fs (snd (patch_upload env t name u body s)))"
  by (auto simp: patch_upload_def Let_def split: sum.splits option.splits prod.splits dest!: reg_inv_append_body [where st = st])

lemma api_complete_fs:
  assumes "and_then (validate_name name) (\<lambda>_. and_then (validate_digest_param digest) (\<lambda>_. body_quota env t body s)) = Inr ()"
    and "(if body = [] then (Inr 0, s) else append_body env ''failed to append final data'' t u body s) = (Inr n, s1)"
    and "complete_upload (re_storage env) rf cf t u digest (rs_fs s1) = (r, fs')"
  shows "rs_fs (snd (api_complete_upload env rf cf t name u digest body s)) = fs'"
  using assms(2) by (cases r) (simp_all add: api_complete_upload_def assms(1,3) Let_def split: sum.splits StorageError.splits)

lemma reg_inv_complete:
  assumes "reg_inv (re_storage env) (rs_fs s)"
  shows "reg_inv (re_storage env) (rs_fs (snd (api_complete_upload env rf cf t name u digest body s)))"
proof (cases "and_then (validate_name name) (\<lambda>_. and_then (validate_digest_param digest) (\<lambda>_. body_quota env t body s))")
  case (Inl e)
  then show ?thesis using assms by (simp add: api_complete_upload_def)
next
  case ok: (Inr x)
  obtain r1 s1 where app: "(if body = [] then (Inr 0, s) else append_body env ''failed to append final data'' t u body s) = (r1, s1)"
    by (cases "if body = [] then (Inr 0, s) else append_body env ''failed to append final data'' t u body s")
  have inv: "reg_inv (re_storage env) (rs_fs s1)"
    using app assms by (auto split: if_splits dest!: reg_inv_append_body [where st = "re_storage env"])
  obtain r fs' where c: "complete_upload (re_storage env) rf cf t u digest (rs_fs s1) = (r, fs')"
    by (cases "complete_upload (re_storage env) rf cf t u digest (rs_fs s1)")
  show ?thesis
  proof (cases r1)
    case (Inl e)
    then show ?thesis using ok app inv by (simp add: api_complete_upload_def)
  next
    case (Inr n)
    have "reg_inv (re_storage env) fs'" using inv complete_upload_keeps [OF _ _ c] by (simp add: reg_inv_def)
    then show ?thesis using api_complete_fs [of name digest env t body s u n s1 rf cf r fs'] ok app Inr c by simp
  qed
qed

lemma reg_inv_put_api: "reg_inv st (rs_fs s) \<Longrightarrow> reg_inv st (rs_fs (snd (put_manifest env t name ref body s)))"
  by (auto simp: put_manifest_def Let_def reg_inv_store_manifest split: sum.splits prod.splits
      dest!: reserve_quota_fs' reg_inv_stored [where st = st])

lemma reg_inv_delete_api:
  "reg_inv st (rs_fs s) \<Longrightarrow> reg_inv st (rs_fs (snd (api_delete_manifest env t name ref s)))"
  "reg_inv st (rs_fs s) \<Longrightarrow> reg_inv st (rs_fs (snd (api_delete_blob env t name digest s)))"
  by (auto simp: api_delete_manifest_def api_delete_blob_def Let_def split: sum.splits prod.splits dest!: reg_inv_deletes [where st = st])


text \<open>The collector.\<close>

lemma reg_inv_try_remove: "reg_inv st fs \<Longrightarrow> reg_inv st (try_remove p fs)"
  by (simp add: reg_inv_def layout_try_remove addressed_try_remove)

lemma reg_inv_gc_delete: "reg_inv st fs \<Longrightarrow> reg_inv st (fst (gc_delete t ds fs n))"
  by (induction ds arbitrary: fs n) (auto split: prod.splits sum.splits dest!: reg_inv_deletes [where st = st])

lemma reg_inv_evict_loop: "reg_inv st fs \<Longrightarrow> reg_inv st (fst (evict_loop limit t ds n fs r))"
  by (induction ds arbitrary: n fs r) (auto split: prod.splits sum.splits dest!: reg_inv_deletes [where st = st])

lemma reg_inv_run_inner: "reg_inv st fs \<Longrightarrow> reg_inv st (snd (run_inner env limit t fs))"
proof (cases "and_then (collect_referenced_digests env t fs) (\<lambda>_. and_then (list_blobs t fs) (\<lambda>blobs.
    and_then (collect_referenced_digests env t fs) (\<lambda>current_refs. Inr (filter (\<lambda>d. d \<notin> set current_refs) (remdups blobs)))))")
  case (Inr ds)
  assume inv: "reg_inv st fs"
  obtain fs1 n where d: "gc_delete t ds fs 0 = (fs1, n)" by (cases "gc_delete t ds fs 0")
  then have "reg_inv st fs1" using reg_inv_gc_delete [OF inv, of t ds 0] by simp
  moreover from this have "reg_inv st fs2" if "evict_lru limit t fs1 r = Inr (fs2, r')" for r fs2 r'
    using that reg_inv_evict_loop [of st fs1] by (auto simp: evict_lru_def and_then_def Let_def split: sum.splits if_splits) (metis fst_conv)+
  ultimately show ?thesis using Inr d by (auto simp: run_inner_def Let_def split: sum.splits)
qed (simp add: run_inner_def)

text \<open>Taking the lock touches only the lock file and the directory of the tenant.\<close>

lemma lock_place: "file_place (gc_lock_path t)" "gc_lock_path t \<noteq> [t', ''blobs'', a, h]" "gc_lock_path t \<noteq> [t', ''manifests''] @ cs @ [r]"
  by (auto simp: file_place_def gc_lock_path_def)

lemma try_create_lock_Some: "try_create_lock pid p fs = Some fs' \<longleftrightarrow> \<not> path_exists fs p \<and> write_file p pid fs = Some fs'"
  by (auto simp: try_create_lock_def)

lemma lock_effect:
  assumes "acquire_lock pid age t fs = (r, fs')"
  shows "fs_ok fs \<Longrightarrow> fs_ok fs'"
    and "q \<noteq> gc_lock_path t \<Longrightarrow> read_file q fs' = read_file q fs"
    and "is_dir fs' q \<Longrightarrow> is_dir fs q \<or> prefix q [t]" "is_dir fs q \<Longrightarrow> is_dir fs' q"
    and "r = Inr () \<Longrightarrow> is_file fs' (gc_lock_path t)"
  using assms unfolding acquire_lock_def Let_def
  by (auto simp: fs_read try_remove_effect create_dir_all_is_dir write_file_is_dir try_create_lock_Some gc_lock_path_def is_file_read
      split: option.splits if_splits dest: fs_keeps_ok write_file_ok [OF try_remove_effect(1)])

lemma lock_layout:
  assumes "layout_ok fs" "acquire_lock pid age t fs = (r, fs1)"
  shows "layout_ok fs1"
proof -
  note e = lock_effect [OF assms(2)]
  have "is_file fs1 q \<Longrightarrow> is_file fs q \<or> q = gc_lock_path t" for q using e(2) [of q] unfolding is_file_read by metis
  moreover have "prefix q [t] \<Longrightarrow> prefix q (butlast (gc_lock_path t))" for q by (simp add: gc_lock_path_def)
  ultimately show ?thesis using assms(1) e(1,3) lock_place(1)
    by (intro layout_step [of fs fs1 "gc_lock_path t"]) (auto simp: layout_ok_def)
qed

lemma reg_inv_gc: "reg_inv st fs \<Longrightarrow> reg_inv st (snd (gc_run env limit pid age t fs))"
proof -
  assume inv: "reg_inv st fs"
  obtain r fs1 where l: "acquire_lock pid age t fs = (r, fs1)" by (cases "acquire_lock pid age t fs")
  note e = lock_effect [OF l]
  have "layout_ok fs1" using lock_layout [OF _ l] inv by (simp add: reg_inv_def)
  moreover have "addressed st fs1" using inv e(2) by (simp add: reg_inv_def addressed_def lock_place(2) [symmetric])
  ultimately have "reg_inv st fs1" by (simp add: reg_inv_def)
  then show ?thesis using l reg_inv_run_inner [of st fs1 env limit t]
    by (auto simp: gc_run_def release_lock_def reg_inv_try_remove split: sum.splits prod.splits)
qed

lemma reg_inv_handle: "reg_inv (re_storage env) (rs_fs s) \<Longrightarrow> reg_inv (re_storage env) (rs_fs (handle env t r s))"
  by (cases r) (simp_all add: reg_inv_start reg_inv_patch reg_inv_complete reg_inv_put_api reg_inv_delete_api reg_inv_gc)

lemma reg_inv_handle_all: "reg_inv (re_storage env) (rs_fs s) \<Longrightarrow> reg_inv (re_storage env) (rs_fs (handle_all env rs s))"
  unfolding handle_all_def by (induction rs arbitrary: s) (auto simp: reg_inv_handle)


section \<open>Uploads\<close>

lemma validate_name_ok: "validate_name name = Inr () \<longleftrightarrow> name_pattern name"
  unfolding validate_repository_name_pattern [symmetric] by (simp add: validate_name_def split: sum.splits)

lemma validate_ref_ok: "validate_ref r = Inr () \<longleftrightarrow> reference_pattern r"
  unfolding reference_pattern_def validate_reference_pattern [symmetric] by (simp add: validate_ref_def split: sum.splits)

lemma validate_digest_param_ok: "validate_digest_param d = Inr () \<longleftrightarrow> (\<exists>a h. digest_pattern d a h)"
  unfolding validate_digest_pattern [symmetric] by (simp add: validate_digest_param_def split: sum.splits)

lemma no_quota: "re_quota env = None \<Longrightarrow> body_quota env t body s = Inr ()"
  by (simp add: body_quota_def check_quota_def)

lemma upload_append:
  assumes "reg_inv st (rs_fs s)" "upload_path t u = Inr p" "read_file p (rs_fs s) = Some old"
    and "st_max_blob_size (re_storage env) = 0 \<or> length old + length b \<le> st_max_blob_size (re_storage env)"
  shows "\<exists>s'. append_body env f t u b s = (Inr (length old + length b), s') \<and> read_file p (rs_fs s') = Some (old @ b)"
proof -
  have ok: "fs_ok (rs_fs s)" using assms(1) by (simp add: reg_inv_def layout_ok_def)
  have isf: "is_file (rs_fs s) p" using assms(3) by (simp add: is_file_read)
  then have "\<not> is_dir (rs_fs s) p" "is_dir (rs_fs s) (butlast p)" using ok by (auto simp: fs_ok_def)
  then obtain fs1 where w: "write_file p (old @ b) (rs_fs s) = Some fs1" by (simp add: write_file_Some)
  have "append_upload (re_storage env) t u b (rs_fs s) = (Inr (length old + length b), fs1)"
    using assms(2-4) isf w by (auto simp: append_upload_def path_exists_def)
  then show ?thesis using write_file_read [OF w] by (auto simp: append_body_def)
qed

lemma upload_patch:
  assumes "reg_inv st (rs_fs s)" "upload_path t u = Inr p" "read_file p (rs_fs s) = Some old" "name_pattern name" "re_quota env = None"
    and "st_max_blob_size (re_storage env) = 0 \<or> length old + length b \<le> st_max_blob_size (re_storage env)"
  shows "\<exists>range s'. patch_upload env t name u b s = (Accepted (upload_location name u) u range, s') \<and> read_file p (rs_fs s') = Some (old @ b)
    \<and> reg_inv st (rs_fs s')"
proof -
  obtain s' where s': "append_body env ''failed to append data'' t u b s = (Inr (length old + length b), s')" "read_file p (rs_fs s') = Some (old @ b)"
    using upload_append [OF assms(1-3,6)] by blast
  have "upload_offset t u (rs_fs s) = Inr (length old)"
    using assms(2,3) by (simp add: upload_offset_def path_exists_def is_file_read)
  with s' have "\<exists>range. patch_upload env t name u b s = (Accepted (upload_location name u) u range, s')"
    using assms(4) no_quota [OF assms(5)] by (simp add: patch_upload_def validate_name_ok [symmetric])
  with s' show ?thesis using reg_inv_append_body [OF s'(1), of st] assms(1) by blast
qed

lemma upload_patches:
  assumes "reg_inv st (rs_fs s)" "upload_path t u = Inr p" "read_file p (rs_fs s) = Some old" "name_pattern name" "re_quota env = None"
    and "st_max_blob_size (re_storage env) = 0 \<or> length old + length (concat chunks) \<le> st_max_blob_size (re_storage env)"
  shows "reg_inv st (rs_fs (fold (\<lambda>b s. snd (patch_upload env t name u b s)) chunks s))
    \<and> read_file p (rs_fs (fold (\<lambda>b s. snd (patch_upload env t name u b s)) chunks s)) = Some (old @ concat chunks)"
  using assms(1,3,6)
proof (induction chunks arbitrary: s old)
  case (Cons b chunks)
  have "st_max_blob_size (re_storage env) = 0 \<or> length old + length b \<le> st_max_blob_size (re_storage env)" using Cons.prems(3) by auto
  then obtain range s' where s': "patch_upload env t name u b s = (Accepted (upload_location name u) u range, s')"
      "read_file p (rs_fs s') = Some (old @ b)" "reg_inv st (rs_fs s')"
    using upload_patch [OF Cons.prems(1) assms(2) Cons.prems(2) assms(4,5)] by blast
  then show ?case using Cons.IH [OF s'(3,2)] Cons.prems(3) by (simp add: add.assoc)
qed simp

lemma complete_succeeds:
  assumes "reg_inv st fs" "upload_path t u = Inr up" "read_file up fs = Some data" "blob_path t digest = Inr bp" "digest = digest_of st data"
  shows "\<exists>fs'. complete_upload st False cf t u digest fs = (Inr (), fs') \<and> read_file bp fs' = Some data"
proof -
  have lay: "layout_ok fs" using assms(1) by (simp add: reg_inv_def)
  obtain fs1 where fs1: "create_dir_all (butlast bp) fs = Some fs1"
    using layout_parents [OF lay blob_place [OF assms(4)] _ blob_not_manifest [OF assms(4)]] by (auto simp: create_dir_all_Some)
  have "\<not> is_dir fs bp" using layout_not_dir [OF lay blob_place [OF assms(4)] blob_not_manifest [OF assms(4)]] .
  moreover have "\<not> prefix bp (butlast bp)" using assms(4) by (auto simp: blob_path_iff)
  ultimately obtain fs2 where fs2: "rename_file up bp fs1 = Some fs2"
    using assms(3) by (auto simp: rename_file_Some create_dir_all_is_dir [OF fs1] create_dir_all_read [OF fs1])
  have "read_file bp fs2 = Some data" using assms(3) by (simp add: rename_file_read [OF fs2] create_dir_all_read [OF fs1])
  moreover have "complete_upload st False cf t u digest fs = (Inr (), fs2)"
    using assms(2-5) fs1 fs2 by (simp add: complete_upload_def path_exists_def is_file_read)
  ultimately show ?thesis by blast
qed

text \<open>SHA-256 in hexadecimal: 64 lower-case digits.\<close>

definition sha256_hex :: "(string \<Rightarrow> string) \<Rightarrow> bool" where
  "sha256_hex sha \<longleftrightarrow> (\<forall>data. length (sha data) = 64 \<and> list_all lower_hex (sha data))"

lemma digest_of_pattern: "sha256_hex (st_sha256 st) \<Longrightarrow> digest_pattern (digest_of st data) ''sha256'' (st_sha256 st data)"
  by (simp add: sha256_hex_def digest_pattern_def digest_of_def)


section \<open>Manifests\<close>

lemma put_manifest_created:
  assumes "put_manifest env t name ref body s = (Created loc d, s')"
  shows "name_pattern name" "reference_pattern ref" "d = digest_of (re_storage env) body"
    and "\<exists>fs. store_manifest t name ref body (rs_fs s) = (Inr (), fs) \<and> rs_fs s' = snd (store_manifest t name d body fs)"
proof -
  have req: "manifest_request name ref = Inr ()"
    using assms by (cases "manifest_request name ref") (auto simp: put_manifest_def manifest_request_def and_then_def validate_name_def validate_ref_def split: sum.splits)
  then show "name_pattern name" "reference_pattern ref"
    unfolding validate_name_ok [symmetric] validate_ref_ok [symmetric] by (auto simp: manifest_request_def and_then_def split: sum.splits)
  obtain r s1 where q: "reserve_quota env t (2 * length body) s = (r, s1)" by (cases "reserve_quota env t (2 * length body) s")
  have r: "r = Inr ()" using assms q req
    by (cases r) (auto simp: put_manifest_def reserve_quota_def split: if_splits option.splits prod.splits bool.splits)
  note fs = reserve_quota_fs' [OF q]
  obtain x fs where st: "store_manifest t name ref body (rs_fs s) = (x, fs)" by (cases "store_manifest t name ref body (rs_fs s)")
  show "d = digest_of (re_storage env) body" "\<exists>fs. store_manifest t name ref body (rs_fs s) = (Inr (), fs) \<and> rs_fs s' = snd (store_manifest t name d body fs)"
    using assms req q r fs st by (auto simp: put_manifest_def Let_def split: sum.splits)
qed

lemma digest_not_dir:
  assumes "layout_ok fs" "digest_pattern d a h"
  shows "\<not> is_dir fs ([t, ''manifests''] @ cs @ [d])"
proof
  assume "is_dir fs ([t, ''manifests''] @ cs @ [d])"
  then have "component_pattern d" using assms(1) by (auto simp: layout_ok_def dir_place_def)
  then have "\<not> CHR '':'' \<in> set d" using component_pattern_chars [of d "CHR '':''"] by (auto simp: lower_alnum_def name_sep_def)
  with assms(2) show False by (auto simp: digest_pattern_def)
qed

lemma store_then_get:
  assumes "store_manifest t name ref body fs = (Inr (), fs')"
  shows "get_manifest t name ref fs' = Inr body"
    and "manifest_path t name' ref' = Inr q \<Longrightarrow> (name', ref') \<noteq> (name, ref) \<Longrightarrow> read_file q fs' = read_file q fs"
proof -
  obtain p where p: "manifest_path t name ref = Inr p" "put_file p body fs = (Inr (), fs')"
    using assms by (auto simp: store_manifest_def split: sum.splits)
  then show "get_manifest t name ref fs' = Inr body"
    by (simp add: get_manifest_def put_file_effect(2) [OF p(2)] path_exists_def is_file_read)
  assume q: "manifest_path t name' ref' = Inr q" "(name', ref') \<noteq> (name, ref)"
  then have "q \<noteq> p" using p(1) manifest_path_inj [of name ref name' ref'] by (auto simp: manifest_path_iff)
  then show "read_file q fs' = read_file q fs" by (simp add: put_file_effect(2) [OF p(2)])
qed

lemma second_store:
  assumes "layout_ok fs0" "store_manifest t name ref body fs0 = (Inr (), fs)" "digest_pattern d a h"
  shows "\<exists>fs'. store_manifest t name d body fs = (Inr (), fs')"
proof -
  obtain p where p: "manifest_path t name ref = Inr p" "put_file p body fs0 = (Inr (), fs)"
    using assms(2) by (auto simp: store_manifest_def split: sum.splits)
  let ?q = "[t, ''manifests''] @ split_char CHR ''/'' name @ [d]"
  have q: "manifest_path t name d = Inr ?q" using p(1) assms(3) by (auto simp: manifest_path_iff reference_pattern_def)
  have lay: "layout_ok fs" using layout_put_file [OF assms(1) manifest_place [OF p(1)] p(2)] .
  obtain fs1 where fs1: "create_dir_all (butlast p) fs0 = Some fs1" "write_file p body fs1 = Some fs"
    using p(2) by (auto simp: put_file_def split: option.splits)
  have par: "butlast p = butlast ?q" using p(1) by (simp add: manifest_path_iff butlast_append)
  have "\<not> is_file fs r" if "prefix r (butlast ?q)" for r
  proof -
    have "is_dir fs1 r" using that par create_dir_all_is_dir [OF fs1(1)] by simp
    then have "is_dir fs r" by (simp add: write_file_is_dir [OF fs1(2)])
    then show ?thesis using lay by (auto simp: layout_ok_def fs_ok_def)
  qed
  moreover have "\<not> is_dir fs ?q" using digest_not_dir [OF lay assms(3)] .
  ultimately have "fst (put_file ?q body fs) = Inr ()" by (rule put_file_succeeds) simp_all
  then show ?thesis using q by (cases "put_file ?q body fs") (simp add: store_manifest_def)
qed


lemma get_manifest_ok: "get_manifest t name ref fs = Inr data \<longleftrightarrow> (\<exists>p. manifest_path t name ref = Inr p \<and> read_file p fs = Some data)"
  by (auto simp: get_manifest_def and_then_def path_exists_def is_file_read split: sum.splits option.splits)

lemma api_get_manifest_ok:
  "api_get_manifest env t name ref s = Manifest_data d mt data \<longleftrightarrow>
     get_manifest t name ref (rs_fs s) = Inr data \<and> d = digest_of (re_storage env) data \<and> mt = detect_manifest_media_type (re_json env data)"
proof -
  have "manifest_request name ref = Inr ()" if "get_manifest t name ref (rs_fs s) = Inr data"
    using that by (auto simp: get_manifest_ok manifest_path_iff manifest_request_def validate_name_ok [THEN iffD2] validate_ref_ok [THEN iffD2])
  moreover have "manifest_request name ref \<noteq> Inl (Manifest_data d mt data)"
    by (auto simp: manifest_request_def and_then_def validate_name_def validate_ref_def split: sum.splits)
  ultimately show ?thesis
    by (auto simp: api_get_manifest_def load_manifest_def and_then_def split: sum.splits StorageError.splits)
qed

text \<open>The tags of a repository include the first components of the repositories below it.\<close>

lemma reg_list_tags_exact:
  assumes "layout_ok fs" "name_pattern name" "reg_list_tags t name fs = Inr tags" "is_dir fs ([t, ''manifests''] @ split_char CHR ''/'' name)"
  shows "sorted tags \<and> (r \<in> set tags \<longleftrightarrow> is_file fs ([t, ''manifests''] @ split_char CHR ''/'' name @ [r])
    \<or> is_dir fs ([t, ''manifests''] @ split_char CHR ''/'' name @ [r]))"
proof -
  let ?d = "[t, ''manifests''] @ split_char CHR ''/'' name"
  have tags: "tags = sort (map last (child_files ?d fs @ child_dirs ?d fs))"
    using assms(2-4) by (simp add: reg_list_tags_def path_exists_def validate_repository_name_pattern [symmetric] from_validation_def Let_def)
  have ch: "q \<noteq> [] \<and> butlast q = ?d \<longleftrightarrow> (\<exists>x. q = ?d @ [x])" for q by (cases q rule: rev_cases) auto
  have "r \<in> set tags \<longleftrightarrow> (\<exists>q. (is_file fs q \<or> is_dir fs q) \<and> q \<noteq> [] \<and> butlast q = ?d \<and> r = last q)"
    unfolding tags set_sort set_map set_append image_Un Un_iff image_iff Bex_def child_files_iff child_dirs_iff is_dir_def by blast
  also have "\<dots> \<longleftrightarrow> is_file fs (?d @ [r]) \<or> is_dir fs (?d @ [r])" using ch by (metis last_snoc)
  finally show ?thesis using tags by simp
qed

section \<open>Collections\<close>

definition blob_content :: "string \<Rightarrow> string \<Rightarrow> Fs \<Rightarrow> string option" where
  "blob_content t d fs = (case blob_path t d of Inr p \<Rightarrow> read_file p fs | Inl _ \<Rightarrow> None)"

definition stored :: "string \<Rightarrow> Fs \<Rightarrow> string set" where
  "stored t fs = {d. blob_content t d fs \<noteq> None}"

definition referenced :: "'q RegEnv \<Rightarrow> string \<Rightarrow> Fs \<Rightarrow> string set" where
  "referenced env t fs = {d. \<exists>f data json. strict_prefix [t, ''manifests''] f \<and> read_file f fs = Some data
     \<and> re_json env data = Some json \<and> d \<in> set (manifest_references json)}"

lemma blob_content_digest: "digest_pattern d a h \<Longrightarrow> t \<noteq> ''..'' \<Longrightarrow> blob_content t d fs = read_file [t, ''blobs'', a, h] fs"
  by (auto simp: blob_content_def blob_path_iff split: sum.splits dest: digest_pattern_unique)
    (metis blob_path_iff Inl_Inr_False)

lemma layout_no_file: "layout_ok fs \<Longrightarrow> \<not> is_file fs [t, ''blobs'']" "layout_ok fs \<Longrightarrow> \<not> is_file fs [t, ''manifests'']"
  unfolding layout_ok_def file_place_def by (auto simp: gc_lock_path_def)

lemma layout_blob_file:
  assumes "layout_ok fs" "is_file fs [t, ''blobs'', a, h]"
  shows "digest_pattern (a @ '':'' @ h) a h" "t \<noteq> ''..''" "is_dir fs [t, ''blobs'', a]" "is_dir fs [t, ''blobs'']"
proof -
  have "file_place [t, ''blobs'', a, h]" using assms by (simp add: layout_ok_def)
  then show "digest_pattern (a @ '':'' @ h) a h" "t \<noteq> ''..''" by (auto simp: file_place_def gc_lock_path_def)
  have ok: "fs_ok fs" using assms(1) by (simp add: layout_ok_def)
  then show d: "is_dir fs [t, ''blobs'', a]" using assms(2) by (force simp: fs_ok_def)
  show "is_dir fs [t, ''blobs'']" using dir_prefixes [OF ok d] by simp
qed

lemma stored_iff:
  assumes "layout_ok fs"
  shows "d \<in> stored t fs \<longleftrightarrow> (\<exists>a h. d = a @ '':'' @ h \<and> is_file fs [t, ''blobs'', a, h])"
proof
  assume "d \<in> stored t fs"
  then obtain p where p: "blob_path t d = Inr p" "read_file p fs \<noteq> None" by (auto simp: stored_def blob_content_def split: sum.splits)
  then obtain a h where "digest_pattern d a h" "p = [t, ''blobs'', a, h]" by (auto simp: blob_path_iff)
  with p(2) show "\<exists>a h. d = a @ '':'' @ h \<and> is_file fs [t, ''blobs'', a, h]" by (auto simp: digest_pattern_def is_file_read)
next
  assume "\<exists>a h. d = a @ '':'' @ h \<and> is_file fs [t, ''blobs'', a, h]"
  then obtain a h where d: "d = a @ '':'' @ h" "is_file fs [t, ''blobs'', a, h]" by blast
  then show "d \<in> stored t fs" using layout_blob_file [OF assms d(2)] blob_content_digest [of d a h t fs]
    by (simp add: stored_def is_file_read)
qed

lemma blob_children:
  assumes "layout_ok fs"
  shows "set (child_dirs [t, ''blobs''] fs) = {p. \<exists>a. p = [t, ''blobs'', a] \<and> is_dir fs p}"
    and "child_dirs [t, ''blobs'', a] fs = []" "set (child_files [t, ''blobs'', a] fs) = {p. \<exists>h. p = [t, ''blobs'', a, h] \<and> is_file fs p}"
proof -
  have b: "q \<noteq> [] \<and> butlast q = [t, ''blobs''] \<longleftrightarrow> (\<exists>a. q = [t, ''blobs'', a])" for q by (cases q rule: rev_cases) auto
  have b': "q \<noteq> [] \<and> butlast q = [t, ''blobs'', a] \<longleftrightarrow> (\<exists>h. q = [t, ''blobs'', a, h])" for q by (cases q rule: rev_cases) auto
  show "set (child_dirs [t, ''blobs''] fs) = {p. \<exists>a. p = [t, ''blobs'', a] \<and> is_dir fs p}"
    unfolding set_eq_iff child_dirs_iff b by (auto simp: is_dir_def)
  show "set (child_files [t, ''blobs'', a] fs) = {p. \<exists>h. p = [t, ''blobs'', a, h] \<and> is_file fs p}"
    unfolding set_eq_iff child_files_iff b' by auto
  have "\<not> is_dir fs [t, ''blobs'', a, h]" for h using assms by (auto simp: layout_ok_def dir_place_def)
  then show "child_dirs [t, ''blobs'', a] fs = []" unfolding child_dirs_def filter_empty_conv b' by (auto simp: is_dir_def)
qed

lemma distinct_child_files: "fs_ok fs \<Longrightarrow> distinct ds \<Longrightarrow> distinct (concat (map (\<lambda>d. child_files d fs) ds))"
proof (induction ds)
  case (Cons d ds)
  then show ?case by (auto simp: child_files_iff) (simp add: child_files_def fs_ok_def)
qed simp

lemma distinct_digests:
  assumes "layout_ok fs"
  shows "distinct (concat (map (\<lambda>algo. map (\<lambda>h. last algo @ '':'' @ last h) (child_files algo fs @ child_dirs algo fs)) (child_dirs [t, ''blobs''] fs)))"
proof -
  let ?as = "child_dirs [t, ''blobs''] fs"
  let ?ps = "concat (map (\<lambda>algo. child_files algo fs) ?as)"
  have "map (\<lambda>h. last algo @ '':'' @ last h) (child_files algo fs @ child_dirs algo fs)
      = map (\<lambda>p. last (butlast p) @ '':'' @ last p) (child_files algo fs)" if "algo \<in> set ?as" for algo
    using that by (auto simp: blob_children [OF assms])
  then have eq: "concat (map (\<lambda>algo. map (\<lambda>h. last algo @ '':'' @ last h) (child_files algo fs @ child_dirs algo fs)) ?as)
      = map (\<lambda>p. last (butlast p) @ '':'' @ last p) ?ps"
    unfolding map_concat map_map by (intro arg_cong [of _ _ concat] map_cong) auto
  have ok: "fs_ok fs" using assms by (simp add: layout_ok_def)
  then have "distinct ?ps" by (intro distinct_child_files) (auto simp: child_dirs_def fs_ok_def)
  moreover have "inj_on (\<lambda>p. last (butlast p) @ '':'' @ last p) (set ?ps)"
  proof (rule inj_onI)
    fix p q assume pq: "p \<in> set ?ps" "q \<in> set ?ps" "last (butlast p) @ '':'' @ last p = last (butlast q) @ '':'' @ last q"
    then obtain a h b k where a: "p = [t, ''blobs'', a, h]" "is_file fs [t, ''blobs'', a, h]" and b: "q = [t, ''blobs'', b, k]" "is_file fs [t, ''blobs'', b, k]"
      by (auto simp: blob_children [OF assms])
    then have "a @ '':'' @ h = b @ '':'' @ k" using pq(3) by simp
    then show "p = q" using layout_blob_file(1) [OF assms a(2)] layout_blob_file(1) [OF assms b(2)] digest_pattern_unique [of _ a h b k] a(1) b(1)
      by metis
  qed
  ultimately show ?thesis unfolding eq distinct_map by blast
qed

lemma list_blobs_stored:
  assumes "layout_ok fs"
  obtains bs where "list_blobs t fs = Inr bs" "set bs = stored t fs" "distinct bs"
proof (cases "is_dir fs [t, ''blobs'']")
  case False
  then have "stored t fs = {}" using stored_iff [OF assms] layout_blob_file(4) [OF assms] by auto
  moreover have "list_blobs t fs = Inr []" using False layout_no_file(1) [OF assms] by (simp add: list_blobs_def path_exists_def)
  ultimately show ?thesis using that by simp
next
  case True
  let ?bs = "concat (map (\<lambda>algo. map (\<lambda>h. last algo @ '':'' @ last h) (child_files algo fs @ child_dirs algo fs)) (child_dirs [t, ''blobs''] fs))"
  have "list_blobs t fs = Inr ?bs" using True by (simp add: list_blobs_def path_exists_def)
  moreover have "set ?bs = stored t fs"
  proof (rule set_eqI)
    fix d
    have "d \<in> set ?bs \<longleftrightarrow> (\<exists>algo \<in> set (child_dirs [t, ''blobs''] fs). \<exists>h \<in> set (child_files algo fs @ child_dirs algo fs). d = last algo @ '':'' @ last h)"
      by auto
    also have "\<dots> \<longleftrightarrow> (\<exists>a h. is_dir fs [t, ''blobs'', a] \<and> is_file fs [t, ''blobs'', a, h] \<and> d = a @ '':'' @ h)"
    proof
      assume "\<exists>a h. is_dir fs [t, ''blobs'', a] \<and> is_file fs [t, ''blobs'', a, h] \<and> d = a @ '':'' @ h"
      then obtain a h where "is_dir fs [t, ''blobs'', a]" "is_file fs [t, ''blobs'', a, h]" "d = a @ '':'' @ h" by blast
      then show "\<exists>algo \<in> set (child_dirs [t, ''blobs''] fs). \<exists>h \<in> set (child_files algo fs @ child_dirs algo fs). d = last algo @ '':'' @ last h"
        by (intro bexI [of _ "[t, ''blobs'', a]"] bexI [of _ "[t, ''blobs'', a, h]"]) (simp_all add: blob_children [OF assms])
    qed (auto simp: blob_children [OF assms], blast)
    also have "\<dots> \<longleftrightarrow> d \<in> stored t fs"
      unfolding stored_iff [OF assms] using layout_blob_file(3) [OF assms] by blast
    finally show "d \<in> set ?bs \<longleftrightarrow> d \<in> stored t fs" .
  qed
  ultimately show ?thesis using that distinct_digests [OF assms, of t] by blast
qed

lemma referenced_collect:
  assumes "layout_ok fs"
  obtains refs where "collect_referenced_digests env t fs = Inr refs" "set refs = referenced env t fs"
proof -
  have ok: "fs_ok fs" using assms by (simp add: layout_ok_def)
  obtain ms where ms: "all_manifests t fs = Inr ms" "set ms = {data. \<exists>f. strict_prefix [t, ''manifests''] f \<and> read_file f fs = Some data}"
  proof (cases "is_dir fs [t, ''manifests'']")
    case True
    then show ?thesis using that collect_manifest_data_set [OF ok True] by (simp add: all_manifests_def path_exists_def)
  next
    case False
    have "read_file f fs = None" if "strict_prefix [t, ''manifests''] f" for f
    proof (rule ccontr)
      assume "read_file f fs \<noteq> None"
      then have "is_dir fs (butlast f)" using ok by (auto simp: fs_ok_def is_file_read)
      moreover have "prefix [t, ''manifests''] (butlast f)" using that by (cases f rule: rev_cases) (auto simp: strict_prefix_def prefix_snoc)
      ultimately show False using dir_prefixes [OF ok] False by blast
    qed
    moreover have "all_manifests t fs = Inr []" using False layout_no_file(2) [OF assms] by (simp add: all_manifests_def path_exists_def)
    ultimately show ?thesis using that by auto
  qed
  then have "collect_referenced_digests env t fs = Inr (concat (map (\<lambda>m. case re_json env m of None \<Rightarrow> [] | Some json \<Rightarrow> manifest_references json) ms))"
    by (simp add: collect_referenced_digests_def)
  moreover have "set (concat (map (\<lambda>m. case re_json env m of None \<Rightarrow> [] | Some json \<Rightarrow> manifest_references json) ms)) = referenced env t fs"
    using ms(2) by (auto simp: referenced_def split: option.splits) force
  ultimately show ?thesis using that by blast
qed


text \<open>What deleting a list of blobs does: they are gone, everything else stays.\<close>

definition blobs_gone :: "string \<Rightarrow> string set \<Rightarrow> Fs \<Rightarrow> Fs \<Rightarrow> bool" where
  "blobs_gone t ds fs fs' \<longleftrightarrow> layout_ok fs' \<and> (\<forall>q. is_dir fs' q = is_dir fs q)
     \<and> (\<forall>q. read_file q fs' = (if \<exists>d \<in> ds. blob_path t d = Inr q then None else read_file q fs))"

lemma blobs_gone_refl: "layout_ok fs \<Longrightarrow> blobs_gone t {} fs fs"
  by (simp add: blobs_gone_def)

lemma blobs_gone_trans: "blobs_gone t ds fs fs1 \<Longrightarrow> blobs_gone t es fs1 fs2 \<Longrightarrow> blobs_gone t (ds \<union> es) fs fs2"
  by (auto simp: blobs_gone_def)

lemma blobs_gone_content: "blobs_gone t ds fs fs' \<Longrightarrow> blob_content t d fs' = (if d \<in> ds then None else blob_content t d fs)"
proof -
  assume g: "blobs_gone t ds fs fs'"
  have "blob_path t d = Inr p \<Longrightarrow> blob_path t e = Inr p \<Longrightarrow> d = e" for e p by (auto simp: blob_path_iff digest_pattern_def)
  then show ?thesis using g by (auto simp: blob_content_def blobs_gone_def split: sum.splits)
qed

lemma blobs_gone_stored: "blobs_gone t ds fs fs' \<Longrightarrow> stored t fs' = stored t fs - ds"
  by (auto simp: stored_def blobs_gone_content)

lemma blobs_gone_other: "blobs_gone t ds fs fs' \<Longrightarrow> (\<And>a h. q \<noteq> [t, ''blobs'', a, h]) \<Longrightarrow> read_file q fs' = read_file q fs"
  by (auto simp: blobs_gone_def blob_path_iff)

lemma delete_stored:
  assumes "layout_ok fs" "d \<in> stored t fs"
  obtains fs' where "delete_blob t d fs = (Inr (), fs')" "blobs_gone t {d} fs fs'"
proof -
  obtain p where p: "blob_path t d = Inr p" "is_file fs p"
    using assms(2) by (auto simp: stored_def blob_content_def is_file_read split: sum.splits)
  obtain fs' where fs': "drop_file p fs = (Inr (), fs')" using p(2) by (simp add: drop_file_def path_exists_def remove_file_def)
  then have "blobs_gone t {d} fs fs'"
    using drop_file_effect [OF fs'] layout_drop_file [OF assms(1) fs'] p(1) by (auto simp: blobs_gone_def)
  with that fs' p(1) show ?thesis by (simp add: delete_blob_def)
qed

lemma gc_delete_effect:
  "layout_ok fs \<Longrightarrow> distinct ds \<Longrightarrow> set ds \<subseteq> stored t fs \<Longrightarrow>
   \<exists>fs'. gc_delete t ds fs n = (fs', n + length ds) \<and> blobs_gone t (set ds) fs fs'"
proof (induction ds arbitrary: fs n)
  case Nil
  then show ?case by (simp add: blobs_gone_refl)
next
  case (Cons d ds)
  obtain fs1 where fs1: "delete_blob t d fs = (Inr (), fs1)" "blobs_gone t {d} fs fs1"
    using delete_stored [OF Cons.prems(1), of d t] Cons.prems(3) by auto
  have "layout_ok fs1" "set ds \<subseteq> stored t fs1"
    using fs1(2) Cons.prems(2,3) blobs_gone_stored [OF fs1(2)] by (auto simp: blobs_gone_def)
  then obtain fs2 where "gc_delete t ds fs1 (Suc n) = (fs2, Suc n + length ds)" "blobs_gone t (set ds) fs1 fs2"
    using Cons.IH [of fs1 "Suc n"] Cons.prems(2) by auto
  then show ?case using fs1(1) blobs_gone_trans [OF fs1(2)] by simp
qed

definition blob_len :: "string \<Rightarrow> Fs \<Rightarrow> string \<Rightarrow> nat" where
  "blob_len t fs d = (case blob_content t d fs of Some data \<Rightarrow> length data | None \<Rightarrow> 0)"

definition total_stored :: "string \<Rightarrow> Fs \<Rightarrow> nat" where
  "total_stored t fs = (\<Sum>d \<in> stored t fs. blob_len t fs d)"

lemma blob_size_stored: "layout_ok fs \<Longrightarrow> d \<in> stored t fs \<Longrightarrow> blob_size t d fs = Inr (blob_len t fs d)"
  by (auto simp: stored_def blob_content_def blob_size_def blob_len_def path_exists_def is_file_read split: sum.splits option.splits)

lemma blob_sizes_stored: "layout_ok fs \<Longrightarrow> set bs \<subseteq> stored t fs \<Longrightarrow> blob_sizes t bs fs = map (\<lambda>d. (d, blob_len t fs d)) bs"
  by (induction bs) (auto simp: blob_sizes_def List.map_filter_simps blob_size_stored)


lemma finite_stored: "layout_ok fs \<Longrightarrow> finite (stored t fs)"
  by (metis list_blobs_stored List.finite_set)

lemma evict_loop_effect:
  assumes "layout_ok fs" "distinct (map fst ds)" "fst ` set ds = stored t fs" "\<And>d n. (d, n) \<in> set ds \<Longrightarrow> n = blob_len t fs d"
  shows "\<exists>fs' r' gone. evict_loop limit t ds (total_stored t fs) fs r = (fs', r') \<and> blobs_gone t gone fs fs' \<and> gone \<subseteq> stored t fs
    \<and> total_stored t fs' \<le> limit \<and> deleted_blobs r' = deleted_blobs r \<and> evicted_blobs r' = evicted_blobs r + card gone
    \<and> evicted_bytes r' + total_stored t fs' = evicted_bytes r + total_stored t fs"
  using assms
proof (induction ds arbitrary: fs r)
  case Nil
  then have "total_stored t fs = 0" by (simp add: total_stored_def)
  with Nil show ?case by (auto intro!: exI [of _ "{}"] blobs_gone_refl)
next
  case (Cons x ds)
  obtain d n where x: "x = (d, n)" by (cases x)
  have n: "n = blob_len t fs d" using Cons.prems(4) x by simp
  have d: "d \<in> stored t fs" "d \<notin> fst ` set ds" using Cons.prems(2,3) x by auto
  show ?case
  proof (cases "total_stored t fs \<le> limit")
    case True
    with Cons.prems(1) x show ?thesis by (auto intro!: exI [of _ "{}"] blobs_gone_refl)
  next
    case False
    obtain fs1 where fs1: "delete_blob t d fs = (Inr (), fs1)" "blobs_gone t {d} fs fs1" using delete_stored [OF Cons.prems(1) d(1)] by blast
    have lay: "layout_ok fs1" using fs1(2) by (simp add: blobs_gone_def)
    have st: "stored t fs1 = stored t fs - {d}" using blobs_gone_stored [OF fs1(2)] .
    have len: "e \<noteq> d \<Longrightarrow> blob_len t fs1 e = blob_len t fs e" for e by (simp add: blob_len_def blobs_gone_content [OF fs1(2)])
    have tot: "total_stored t fs = n + total_stored t fs1"
      unfolding total_stored_def st using sum.remove [OF finite_stored [OF Cons.prems(1)] d(1), of "blob_len t fs"] n len by simp
    let ?r = "r\<lparr>evicted_blobs := evicted_blobs r + 1, evicted_bytes := evicted_bytes r + n\<rparr>"
    have "distinct (map fst ds)" "fst ` set ds = stored t fs1" "\<And>e m. (e, m) \<in> set ds \<Longrightarrow> m = blob_len t fs1 e"
      using Cons.prems(2-4) x st d len by (auto simp: image_iff)
    from Cons.IH [OF lay this, of ?r] obtain fs' r' gone where
      ih: "evict_loop limit t ds (total_stored t fs1) fs1 ?r = (fs', r')" "blobs_gone t gone fs1 fs'" "gone \<subseteq> stored t fs1"
        "total_stored t fs' \<le> limit" "deleted_blobs r' = deleted_blobs ?r" "evicted_blobs r' = evicted_blobs ?r + card gone"
        "evicted_bytes r' + total_stored t fs' = evicted_bytes ?r + total_stored t fs1"
      by blast
    have "card (insert d gone) = Suc (card gone)"
      using ih(3) st finite_subset [OF ih(3) finite_stored [OF lay]] by (intro card_insert_disjoint) auto
    moreover have "blobs_gone t (insert d gone) fs fs'" using blobs_gone_trans [OF fs1(2) ih(2)] by simp
    moreover have "evict_loop limit t (x # ds) (total_stored t fs) fs r = (fs', r')" using False fs1(1) tot ih(1) by (simp add: x)
    ultimately show ?thesis using ih(3-7) st d(1) tot
      by (intro exI [of _ fs'] exI [of _ r'] exI [of _ "insert d gone"]) auto
  qed
qed


lemma evict_effect:
  assumes "layout_ok fs"
  shows "\<exists>fs' r' gone. evict_lru limit t fs r = Inr (fs', r') \<and> blobs_gone t gone fs fs' \<and> gone \<subseteq> stored t fs
    \<and> total_stored t fs' \<le> limit \<and> deleted_blobs r' = deleted_blobs r \<and> evicted_blobs r' = evicted_blobs r + card gone
    \<and> evicted_bytes r' + total_stored t fs' = evicted_bytes r + total_stored t fs \<and> (total_stored t fs \<le> limit \<longrightarrow> gone = {})"
proof -
  obtain bs where bs: "list_blobs t fs = Inr bs" "set bs = stored t fs" "distinct bs" using list_blobs_stored [OF assms] .
  let ?sizes = "map (\<lambda>d. (d, blob_len t fs d)) bs"
  have sizes: "blob_sizes t bs fs = ?sizes" using blob_sizes_stored [OF assms] bs(2) by simp
  have tot: "sum_list (map snd ?sizes) = total_stored t fs"
    unfolding total_stored_def bs(2) [symmetric] using bs(3) by (simp add: comp_def sum_list_distinct_conv_sum_set)
  show ?thesis
  proof (cases "total_stored t fs \<le> limit")
    case True
    then show ?thesis using bs(1) sizes tot assms by (auto simp: evict_lru_def Let_def intro!: exI [of _ "{}"] blobs_gone_refl)
  next
    case False
    have "mset (map fst (sort_key snd ?sizes)) = mset bs" by (simp add: comp_def multiset.map_comp)
    then have "distinct (map fst (sort_key snd ?sizes))" using bs(3) mset_eq_imp_distinct_iff by blast
    moreover have "fst ` set (sort_key snd ?sizes) = stored t fs" using bs(2) by (auto simp: image_image)
    moreover have "\<And>d n. (d, n) \<in> set (sort_key snd ?sizes) \<Longrightarrow> n = blob_len t fs d" by auto
    ultimately obtain fs' r' gone where e: "evict_loop limit t (sort_key snd ?sizes) (total_stored t fs) fs r = (fs', r')"
        "blobs_gone t gone fs fs'" "gone \<subseteq> stored t fs" "total_stored t fs' \<le> limit" "deleted_blobs r' = deleted_blobs r"
        "evicted_blobs r' = evicted_blobs r + card gone" "evicted_bytes r' + total_stored t fs' = evicted_bytes r + total_stored t fs"
      using evict_loop_effect [OF assms, of "sort_key snd ?sizes" t limit r] by blast
    have "evict_lru limit t fs r = Inr (fs', r')" unfolding evict_lru_def bs(1) and_then_Inr sizes Let_def tot e(1) using False by simp
    with e(2-) False show ?thesis by blast
  qed
qed

text \<open>The references of a tenant do not change when blobs are deleted or the lock is taken.\<close>

lemma referenced_cong:
  "(\<And>q. strict_prefix [t, ''manifests''] q \<Longrightarrow> read_file q fs' = read_file q fs) \<Longrightarrow> referenced env t fs' = referenced env t fs"
  by (auto simp: referenced_def)

lemma stored_cong: "(\<And>a h. read_file [t, ''blobs'', a, h] fs' = read_file [t, ''blobs'', a, h] fs) \<Longrightarrow> blob_content t d fs' = blob_content t d fs"
  by (cases "blob_path t d") (auto simp: blob_content_def dest!: blob_path_iff [THEN iffD1])

lemma run_inner_effect:
  assumes "layout_ok fs"
  shows "\<exists>report fs' gone. run_inner env limit t fs = (Inr report, fs')
    \<and> blobs_gone t ((stored t fs - referenced env t fs) \<union> gone) fs fs' \<and> gone \<subseteq> stored t fs \<inter> referenced env t fs
    \<and> deleted_blobs report = card (stored t fs - referenced env t fs) \<and> evicted_blobs report = card gone
    \<and> (limit = 0 \<longrightarrow> gone = {}) \<and> (0 < limit \<longrightarrow> total_stored t fs' \<le> limit)
    \<and> ((\<Sum>d \<in> stored t fs \<inter> referenced env t fs. blob_len t fs d) \<le> limit \<longrightarrow> gone = {})"
proof -
  obtain bs where bs: "list_blobs t fs = Inr bs" "set bs = stored t fs" "distinct bs" using list_blobs_stored [OF assms] .
  obtain refs where refs: "collect_referenced_digests env t fs = Inr refs" "set refs = referenced env t fs" using referenced_collect [OF assms] .
  let ?ds = "filter (\<lambda>d. d \<notin> set refs) (remdups bs)"
  let ?un = "stored t fs - referenced env t fs"
  have ds: "distinct ?ds" "set ?ds = ?un" "length ?ds = card ?un"
    using bs(2) refs(2) distinct_card [of ?ds] by (auto simp: set_diff_eq)
  obtain fs1 where fs1: "gc_delete t ?ds fs 0 = (fs1, card ?un)" "blobs_gone t ?un fs fs1"
    using gc_delete_effect [OF assms ds(1), of t 0] ds by auto
  have lay: "layout_ok fs1" using fs1(2) by (simp add: blobs_gone_def)
  have st: "stored t fs1 = stored t fs \<inter> referenced env t fs" using blobs_gone_stored [OF fs1(2)] by auto
  have tot: "total_stored t fs1 = (\<Sum>d \<in> stored t fs \<inter> referenced env t fs. blob_len t fs d)"
    unfolding total_stored_def st by (rule sum.cong) (auto simp: blob_len_def blobs_gone_content [OF fs1(2)])
  let ?report = "\<lparr>deleted_blobs = card ?un, evicted_blobs = 0, evicted_bytes = 0\<rparr>"
  show ?thesis
  proof (cases "limit = 0")
    case True
    then show ?thesis using bs(1) refs(1) fs1 by (auto simp: run_inner_def Let_def intro!: exI [of _ "{}"])
  next
    case False
    obtain fs' r' gone where e: "evict_lru limit t fs1 ?report = Inr (fs', r')" "blobs_gone t gone fs1 fs'" "gone \<subseteq> stored t fs1"
        "total_stored t fs' \<le> limit" "deleted_blobs r' = card ?un" "evicted_blobs r' = card gone" "total_stored t fs1 \<le> limit \<longrightarrow> gone = {}"
      using evict_effect [OF lay, of limit t ?report] by auto
    have "run_inner env limit t fs = (Inr r', fs')" using False bs(1) refs(1) fs1(1) e(1) by (simp add: run_inner_def Let_def)
    moreover have "blobs_gone t (?un \<union> gone) fs fs'" using blobs_gone_trans [OF fs1(2) e(2)] .
    ultimately show ?thesis using e(3-7) False st tot by (intro exI [of _ r'] exI [of _ fs'] exI [of _ gone]) auto
  qed
qed


lemma acquire_cases:
  assumes "layout_ok fs"
  shows "is_file fs (gc_lock_path t) \<and> age < 3600 \<Longrightarrow>
      fst (acquire_lock pid age t fs) = Inl (InvalidInput ''GC is already running (lock file exists)'')
      \<and> read_file q (snd (acquire_lock pid age t fs)) = read_file q fs"
    and "\<not> (is_file fs (gc_lock_path t) \<and> age < 3600) \<Longrightarrow> fst (acquire_lock pid age t fs) = Inr ()"
proof -
  have lock: "\<not> is_dir fs (gc_lock_path t)" using layout_not_dir [OF assms lock_place(1,3)] .
  obtain fs1 where fs1: "create_dir_all (butlast (gc_lock_path t)) fs = Some fs1"
    using layout_parents [OF assms lock_place(1) _ lock_place(3)] by (auto simp: create_dir_all_Some)
  have np: "\<not> prefix (gc_lock_path t) (butlast (gc_lock_path t))" "prefix (butlast (gc_lock_path t)) (butlast (gc_lock_path t))"
    by (simp_all add: gc_lock_path_def)
  have nd: "\<not> is_dir fs1 (gc_lock_path t)" "is_dir fs1 (butlast (gc_lock_path t))"
    using lock np by (auto simp: create_dir_all_is_dir [OF fs1])
  have ex: "path_exists fs1 (gc_lock_path t) \<longleftrightarrow> is_file fs (gc_lock_path t)"
    using nd create_dir_all_read [OF fs1] by (simp add: path_exists_def)
  show "is_file fs (gc_lock_path t) \<and> age < 3600 \<Longrightarrow>
      fst (acquire_lock pid age t fs) = Inl (InvalidInput ''GC is already running (lock file exists)'')
      \<and> read_file q (snd (acquire_lock pid age t fs)) = read_file q fs"
    using fs1 ex create_dir_all_read [OF fs1] by (simp add: acquire_lock_def Let_def try_create_lock_def is_lock_stale_def)
  have new: "\<exists>fs2. try_create_lock pid (gc_lock_path t) (try_remove (gc_lock_path t) fs1) = Some fs2"
    using nd by (simp add: try_create_lock_Some path_exists_def is_file_read try_remove_effect write_file_Some)
  show "\<not> (is_file fs (gc_lock_path t) \<and> age < 3600) \<Longrightarrow> fst (acquire_lock pid age t fs) = Inr ()"
  proof (cases "is_file fs (gc_lock_path t)")
    case False
    then have "\<exists>fs2. try_create_lock pid (gc_lock_path t) fs1 = Some fs2" using ex nd by (simp add: try_create_lock_Some write_file_Some)
    then show ?thesis using fs1 by (auto simp: acquire_lock_def Let_def)
  next
    case True
    moreover assume "\<not> (is_file fs (gc_lock_path t) \<and> age < 3600)"
    ultimately show ?thesis using fs1 ex new by (auto simp: acquire_lock_def Let_def is_lock_stale_def try_create_lock_def)
  qed
qed

lemma upload_complete:
  assumes "reg_inv (re_storage env) (rs_fs s)" "re_quota env = None" "sha256_hex (st_sha256 (re_storage env))"
    and "validate_name name = Inr ()" "validate_upload_id u = Inr ()" "t \<noteq> ''..''"
    and "st_max_blob_size (re_storage env) = 0 \<or> length (concat chunks) \<le> st_max_blob_size (re_storage env)"
    and "start_upload env u t name None [] s = (r0, s0)" "fold (\<lambda>b s. snd (patch_upload env t name u b s)) chunks s0 = s1"
    and "api_complete_upload env False cf t name u (digest_of (re_storage env) (concat chunks)) [] s1 = (r2, s2)"
  shows "r0 = Accepted (upload_location name u) u ''0-0''
    \<and> (\<exists>loc. r2 = Created loc (digest_of (re_storage env) (concat chunks)))
    \<and> api_get_blob t name (digest_of (re_storage env) (concat chunks)) s2 = Blob_data (digest_of (re_storage env) (concat chunks)) (concat chunks)"
proof -
  let ?st = "re_storage env" and ?d = "digest_of (re_storage env) (concat chunks)"
  have name: "name_pattern name" using assms(4) by (simp add: validate_name_ok)
  have "length u = 36" using assms(5) by (auto simp: validate_upload_id_def Let_def split: if_splits)
  then have "u \<noteq> ''..''" by auto
  then obtain p where p: "upload_path t u = Inr p" using assms(5,6) by (simp add: upload_path_iff)
  have lay: "layout_ok (rs_fs s)" using assms(1) by (simp add: reg_inv_def)
  have "p \<noteq> []" using p by (auto simp: upload_path_iff)
  then obtain fs0 where fs0: "put_file p [] (rs_fs s) = (Inr (), fs0)"
    using put_file_succeeds [of p "rs_fs s" "[]"] layout_parents [OF lay upload_place [OF p] _ upload_not_manifest [OF p]]
      layout_not_dir [OF lay upload_place [OF p] upload_not_manifest [OF p]] by (cases "put_file p [] (rs_fs s)") auto
  have s0: "r0 = Accepted (upload_location name u) u ''0-0''" "s0 = s\<lparr>rs_fs := fs0\<rparr>"
    using assms(8) fs0 p assms(4) no_quota [OF assms(2)] by (auto simp: start_upload_def create_upload_def try_mount_def Let_def)
  have inv0: "reg_inv ?st (rs_fs s0)" using reg_inv_put_upload [OF assms(1) p, of "[]"] fs0 s0 by simp
  have "read_file p (rs_fs s0) = Some []" using put_file_effect(2) [OF fs0] s0 by simp
  then have s1: "reg_inv ?st (rs_fs s1)" "read_file p (rs_fs s1) = Some (concat chunks)"
    using upload_patches [OF inv0 p _ name assms(2), of "[]" chunks] assms(7,9) by auto
  have pat: "digest_pattern ?d ''sha256'' (st_sha256 ?st (concat chunks))" using digest_of_pattern [OF assms(3)] .
  then obtain bp where bp: "blob_path t ?d = Inr bp" using assms(6) by (force simp: blob_path_iff)
  obtain fs' where fs': "complete_upload ?st False cf t u ?d (rs_fs s1) = (Inr (), fs')" "read_file bp fs' = Some (concat chunks)"
    using complete_succeeds [OF s1(1) p s1(2) bp refl] by blast
  have vd: "validate_digest_param ?d = Inr ()" unfolding validate_digest_param_ok using pat by blast
  have guard: "and_then (validate_name name) (\<lambda>_. and_then (validate_digest_param ?d) (\<lambda>_. body_quota env t [] s1)) = Inr ()"
    using assms(4) vd no_quota [OF assms(2)] by simp
  have fs2: "rs_fs s2 = fs'" using api_complete_fs [OF guard, of u 0 s1 False cf] fs'(1) assms(10) by simp
  have "\<exists>loc. r2 = Created loc ?d" using assms(10) guard fs'(1) by (auto simp: api_complete_upload_def Let_def split: sum.splits if_splits)
  moreover have "get_blob t ?d (rs_fs s2) = Inr (concat chunks, length (concat chunks))"
    using bp fs'(2) fs2 by (simp add: get_blob_def path_exists_def is_file_read)
  then have "api_get_blob t name ?d s2 = Blob_data ?d (concat chunks)"
    using assms(4) vd by (simp add: api_get_blob_def blob_request_def)
  ultimately show ?thesis using s0(1) by blast
qed

section \<open>Properties\<close>



text \<open>
  C12. A collection deletes exactly what no manifest refers to. Unless another collection holds the lock (for
  less than an hour), it succeeds, removes the lock, and keeps every file that is not a blob of the tenant.
  A blob survives exactly if a manifest of the tenant refers to it, except for those evicted because the
  referenced blobs exceed the size limit; afterwards the limit is respected. The report counts both kinds.
  While the lock is held by another collection nothing changes.\<close>

theorem gc_collects_exactly:
  assumes "layout_ok fs"
  shows "if is_file fs (gc_lock_path t) \<and> age < 3600
    then \<exists>fs'. gc_run env limit pid age t fs = (Inl (InvalidInput ''GC is already running (lock file exists)''), fs')
      \<and> (\<forall>q. read_file q fs' = read_file q fs)
    else \<exists>report fs' evicted. gc_run env limit pid age t fs = (Inr report, fs')
      \<and> (\<forall>d. blob_content t d fs' = (if d \<in> referenced env t fs - evicted then blob_content t d fs else None))
      \<and> (\<forall>q. (\<forall>a h. q \<noteq> [t, ''blobs'', a, h]) \<and> q \<noteq> gc_lock_path t \<longrightarrow> read_file q fs' = read_file q fs)
      \<and> \<not> is_file fs' (gc_lock_path t)
      \<and> evicted \<subseteq> stored t fs \<inter> referenced env t fs
      \<and> deleted_blobs report = card (stored t fs - referenced env t fs) \<and> evicted_blobs report = card evicted
      \<and> (limit = 0 \<or> (\<Sum>d \<in> stored t fs \<inter> referenced env t fs. blob_len t fs d) \<le> limit \<longrightarrow> evicted = {})
      \<and> (0 < limit \<longrightarrow> total_stored t fs' \<le> limit)"
proof (cases "is_file fs (gc_lock_path t) \<and> age < 3600")
  case True
  have a: "fst (acquire_lock pid age t fs) = Inl (InvalidInput ''GC is already running (lock file exists)'')"
    and q: "read_file q (snd (acquire_lock pid age t fs)) = read_file q fs" for q
    using acquire_cases(1) [OF assms True] by auto
  obtain fs' where "acquire_lock pid age t fs = (Inl (InvalidInput ''GC is already running (lock file exists)''), fs')"
    using a by (cases "acquire_lock pid age t fs") auto
  then show ?thesis using True q by (auto simp: gc_run_def)
next
  case False
  obtain fs1 where l: "acquire_lock pid age t fs = (Inr (), fs1)"
    using acquire_cases(2) [OF assms False, of pid] by (cases "acquire_lock pid age t fs") auto
  note e = lock_effect [OF l]
  have lay: "layout_ok fs1" using lock_layout [OF assms l] .
  have same: "read_file q fs1 = read_file q fs" if "\<And>t'. q \<noteq> gc_lock_path t'" for q using e(2) that by simp
  have bc: "blob_content t d fs1 = blob_content t d fs" for d by (rule stored_cong) (simp add: same gc_lock_path_def)
  then have st: "stored t fs1 = stored t fs" by (simp add: stored_def)
  have rf: "referenced env t fs1 = referenced env t fs"
    by (rule referenced_cong, rule same) (auto simp: gc_lock_path_def strict_prefix_def)
  obtain report fs2 gone where r: "run_inner env limit t fs1 = (Inr report, fs2)"
      "blobs_gone t ((stored t fs - referenced env t fs) \<union> gone) fs1 fs2" "gone \<subseteq> stored t fs \<inter> referenced env t fs"
      "deleted_blobs report = card (stored t fs - referenced env t fs)" "evicted_blobs report = card gone"
      "limit = 0 \<longrightarrow> gone = {}" "0 < limit \<longrightarrow> total_stored t fs2 \<le> limit"
      "(\<Sum>d \<in> stored t fs \<inter> referenced env t fs. blob_len t fs d) \<le> limit \<longrightarrow> gone = {}"
    using run_inner_effect [OF lay, of env limit t] unfolding st rf blob_len_def bc by blast
  let ?fs' = "release_lock t fs2"
  have rel: "read_file q ?fs' = (if q = gc_lock_path t then None else read_file q fs2)" for q by (simp add: release_lock_def try_remove_effect)
  have bc2: "blob_content t d ?fs' = blob_content t d fs2" for d by (rule stored_cong) (simp add: rel gc_lock_path_def)
  have "gc_run env limit pid age t fs = (Inr report, ?fs')" using l r(1) by (simp add: gc_run_def)
  moreover have "blob_content t d ?fs' = (if d \<in> referenced env t fs - gone then blob_content t d fs else None)" for d
    using r(3) by (auto simp: bc2 blobs_gone_content [OF r(2)] bc stored_def)
  moreover have "read_file q ?fs' = read_file q fs" if "(\<forall>a h. q \<noteq> [t, ''blobs'', a, h]) \<and> q \<noteq> gc_lock_path t" for q
    using that blobs_gone_other [OF r(2)] e(2) by (simp add: rel)
  moreover have "\<not> is_file ?fs' (gc_lock_path t)" by (simp add: is_file_read rel)
  moreover have "0 < limit \<longrightarrow> total_stored t ?fs' \<le> limit"
    using r(7) by (simp add: total_stored_def stored_def blob_len_def bc2)
  ultimately show ?thesis using False r(3-6,8) by (auto intro!: exI [of _ gone])
qed


text \<open>
  C15. Manifests read back. When a manifest is accepted under a name and a reference, reading it under that
  reference and under the digest of its content returns exactly the bytes that were put, with that digest;
  every other manifest of the tenant reads as before. (The reference need not agree with the content: a
  manifest put under a digest is accepted whatever its content.)\<close>

theorem registry_manifest_roundtrip:
  assumes "layout_ok (rs_fs s)" "sha256_hex (st_sha256 (re_storage env))" "put_manifest env t name ref body s = (Created loc d, s')"
  shows "d = digest_of (re_storage env) body
    \<and> (\<exists>mt. api_get_manifest env t name ref s' = Manifest_data d mt body \<and> api_get_manifest env t name d s' = Manifest_data d mt body)
    \<and> ((name', ref') = (name, ref) \<or> (name', ref') = (name, d)
       \<or> (api_get_manifest env t name' ref' s' = Manifest_data d' mt' data \<longleftrightarrow> api_get_manifest env t name' ref' s = Manifest_data d' mt' data))"
proof -
  note c = put_manifest_created [OF assms(3)]
  obtain fs where fs: "store_manifest t name ref body (rs_fs s) = (Inr (), fs)" "rs_fs s' = snd (store_manifest t name d body fs)"
    using c(4) by blast
  have "digest_pattern d ''sha256'' (st_sha256 (re_storage env) body)" unfolding c(3) by (rule digest_of_pattern [OF assms(2)])
  from second_store [OF assms(1) fs(1) this] fs(2) have fs': "store_manifest t name d body fs = (Inr (), rs_fs s')" by auto
  have byd: "get_manifest t name d (rs_fs s') = Inr body" using store_then_get(1) [OF fs'] .
  have byref: "get_manifest t name ref (rs_fs s') = Inr body"
  proof (cases "ref = d")
    case False
    obtain p where p: "manifest_path t name ref = Inr p" "read_file p fs = Some body" using store_then_get(1) [OF fs(1)] get_manifest_ok by blast
    then have "read_file p (rs_fs s') = Some body" using store_then_get(2) [OF fs' p(1)] False by simp
    with p show ?thesis using get_manifest_ok by blast
  qed (simp add: byd)
  have other: "get_manifest t name' ref' (rs_fs s') = Inr data \<longleftrightarrow> get_manifest t name' ref' (rs_fs s) = Inr data"
    if "(name', ref') \<noteq> (name, ref)" "(name', ref') \<noteq> (name, d)"
    unfolding get_manifest_ok using store_then_get(2) [OF fs' _ that(2)] store_then_get(2) [OF fs(1) _ that(1)] by metis
  show ?thesis unfolding api_get_manifest_ok using c(3) byd byref other by blast
qed

section \<open>Witnesses\<close>

definition sample_registry :: "unit RegEnv" where
  "sample_registry = \<lparr>re_storage = \<lparr>st_max_blob_size = 0, st_sha256 = \<lambda>_. replicate 64 CHR ''a''\<rparr>, re_quota = None,
     re_json = \<lambda>_. Some (JObject [(''layers'', JArray [JObject [(''digest'', JString (''sha256:'' @ replicate 64 CHR ''a''))]])])\<rparr>"

lemma sample_registry_simps:
  "re_quota sample_registry = None" "st_max_blob_size (re_storage sample_registry) = 0" "sha256_hex (st_sha256 (re_storage sample_registry))"
  "digest_of (re_storage sample_registry) data = ''sha256:'' @ replicate 64 CHR ''a''"
  by (simp_all add: sample_registry_def sha256_hex_def list_all_iff lower_hex_def digest_of_def)

lemma sample_upload_ids: "validate_name ''app'' = Inr ()" "validate_upload_id ''12345678-1234-1234-1234-123456789abc'' = Inr ()"
  by (simp_all add: validate_name_def validate_repository_name_def is_valid_name_component_def lower_alnum_def
      validate_upload_id_def is_ascii_hexdigit_def is_ascii_digit_def)




lemma sample_manifest_path: "manifest_path ''t'' ''app'' ''latest'' = Inr [''t'', ''manifests'', ''app'', ''latest'']"
proof -
  have "validate_reference ''latest'' = Inr ()"
    by (simp add: validate_reference_def is_ascii_alphanumeric_def is_ascii_alphabetic_def tag_char_def)
  then have "reference_pattern ''latest''" unfolding reference_pattern_def validate_reference_pattern .
  then show ?thesis using sample_upload_ids(1) by (simp add: manifest_path_iff validate_name_ok)
qed

theorem registry_manifest_roundtrip_witness:
  "\<exists>s' loc mt. put_manifest sample_registry ''t'' ''app'' ''latest'' ''{}'' \<lparr>rs_fs = fs_empty, rs_quota = ()\<rparr>
       = (Created loc (''sha256:'' @ replicate 64 CHR ''a''), s')
     \<and> api_get_manifest sample_registry ''t'' ''app'' ''latest'' s' = Manifest_data (''sha256:'' @ replicate 64 CHR ''a'') mt ''{}''"
proof -
  let ?s = "\<lparr>rs_fs = fs_empty, rs_quota = ()\<rparr>" and ?d = "''sha256:'' @ replicate 64 CHR ''a''"
  have "fst (put_file [''t'', ''manifests'', ''app'', ''latest''] ''{}'' fs_empty) = Inr ()"
    by (rule put_file_succeeds) (simp_all add: fs_empty_def is_file_def is_dir_def)
  then obtain fs where fs: "store_manifest ''t'' ''app'' ''latest'' ''{}'' fs_empty = (Inr (), fs)"
    by (cases "put_file [''t'', ''manifests'', ''app'', ''latest''] ''{}'' fs_empty") (simp add: store_manifest_def sample_manifest_path)
  have req: "manifest_request ''app'' ''latest'' = Inr ()"
    using sample_manifest_path by (simp add: manifest_path_iff manifest_request_def validate_name_ok [THEN iffD2] validate_ref_ok [THEN iffD2])
  obtain loc s' where put: "put_manifest sample_registry ''t'' ''app'' ''latest'' ''{}'' ?s = (Created loc ?d, s')"
    using fs req by (simp add: put_manifest_def reserve_quota_def sample_registry_simps Let_def)
  have "layout_ok (rs_fs ?s)" by (simp add: layout_empty)
  from registry_manifest_roundtrip [OF this sample_registry_simps(3) put, THEN conjunct2, THEN conjunct1]
  obtain mt where "api_get_manifest sample_registry ''t'' ''app'' ''latest'' s' = Manifest_data ?d mt ''{}''" by (elim exE conjE)
  with put show ?thesis by (intro exI conjI)
qed

definition sample_fs :: Fs where
  "sample_fs = \<lparr>fs_files = [([''t'', ''manifests'', ''app'', ''latest''], ''{}''), ([''t'', ''blobs'', ''sha256'', replicate 64 CHR ''a''], ''abc'')],
     fs_dirs = [[''t''], [''t'', ''manifests''], [''t'', ''manifests'', ''app''], [''t'', ''blobs''], [''t'', ''blobs'', ''sha256'']]\<rparr>"

lemma sample_fs_layout: "layout_ok sample_fs"
proof -
  have pat: "digest_pattern (''sha256'' @ '':'' @ replicate 64 CHR ''a'') ''sha256'' (replicate 64 CHR ''a'')"
    by (simp add: digest_pattern_def list_all_iff lower_hex_def)
  have "component_pattern ''app''" unfolding valid_component_pattern [symmetric] by (simp add: is_valid_name_component_def lower_alnum_def)
  moreover have "reference_pattern ''latest''" using sample_manifest_path by (simp add: manifest_path_iff)
  ultimately have files: "is_file sample_fs p \<Longrightarrow> file_place p" and dirs: "is_dir sample_fs p \<Longrightarrow> dir_place p" for p
    using pat by (auto simp: is_file_def is_dir_def sample_fs_def file_place_def dir_place_def)
  have "fs_ok sample_fs"
    unfolding fs_ok_def by (auto simp: is_file_def is_dir_def sample_fs_def)
  with files dirs show ?thesis by (simp add: layout_ok_def)
qed

theorem gc_collects_exactly_witness:
  "\<exists>report fs'. gc_run sample_registry 1 ''7'' 0 ''t'' sample_fs = (Inr report, fs')
     \<and> ''sha256:'' @ replicate 64 CHR ''a'' \<in> referenced sample_registry ''t'' sample_fs
     \<and> blob_content ''t'' (''sha256:'' @ replicate 64 CHR ''a'') sample_fs = Some ''abc''
     \<and> blob_content ''t'' (''sha256:'' @ replicate 64 CHR ''a'') fs' = None"
proof -
  let ?d = "''sha256:'' @ replicate 64 CHR ''a''"
  have pat: "digest_pattern ?d ''sha256'' (replicate 64 CHR ''a'')" by (simp add: digest_pattern_def list_all_iff lower_hex_def)
  have content: "blob_content ''t'' ?d sample_fs = Some ''abc''"
    using blob_content_digest [OF pat, of "''t''" sample_fs] by (simp add: read_file_def sample_fs_def)
  have "read_file [''t'', ''manifests'', ''app'', ''latest''] sample_fs = Some ''{}''" by (simp add: read_file_def sample_fs_def)
  moreover have "strict_prefix [''t'', ''manifests''] [''t'', ''manifests'', ''app'', ''latest'']" by (simp add: strict_prefix_def)
  ultimately have ref: "?d \<in> referenced sample_registry ''t'' sample_fs"
    unfolding referenced_def by (auto simp: sample_registry_def manifest_references_def List.map_filter_simps intro!: exI)
  have nolock: "\<not> (is_file sample_fs (gc_lock_path ''t'') \<and> (0 :: nat) < 3600)" by (simp add: is_file_def sample_fs_def gc_lock_path_def)
  obtain report fs' evicted where r: "gc_run sample_registry 1 ''7'' 0 ''t'' sample_fs = (Inr report, fs')"
      "\<forall>d. blob_content ''t'' d fs' = (if d \<in> referenced sample_registry ''t'' sample_fs - evicted then blob_content ''t'' d sample_fs else None)"
      "0 < (1 :: nat) \<longrightarrow> total_stored ''t'' fs' \<le> 1"
    using gc_collects_exactly [OF sample_fs_layout, of "''t''" 0 sample_registry 1 "''7''", unfolded if_not_P [OF nolock]] by (elim exE conjE)
  have "blob_content ''t'' ?d fs' = None"
  proof (rule ccontr)
    assume "blob_content ''t'' ?d fs' \<noteq> None"
    then have c: "blob_content ''t'' ?d fs' = Some ''abc''" using spec [OF r(2), of ?d] content by (simp split: if_splits)
    have "reg_inv (re_storage sample_registry) sample_fs"
      using sample_fs_layout by (auto simp: reg_inv_def addressed_def read_file_def sample_fs_def sample_registry_simps split: if_splits)
    then have "layout_ok fs'" using reg_inv_gc [of _ sample_fs sample_registry 1 "''7''" 0 "''t''"] r(1) by (auto simp: reg_inv_def)
    then have "blob_len ''t'' fs' ?d \<le> total_stored ''t'' fs'"
      unfolding total_stored_def using c by (intro member_le_sum finite_stored) (simp_all add: stored_def)
    then show False using r(3) c by (simp add: blob_len_def)
  qed
  then show ?thesis using r(1) content ref by blast
qed

end
