(* ===== verification/Spec2Isabelle.thy ===== *)
theory Spec2Isabelle
  imports Retry Scheduler Pipeline_Matrix Pipeline_Trigger Job_Execution Dag_Executor Git_Push Registry_Gc
begin

text \<open>
  A verification of \<open>muli\<close>, a server for continuous integration with a git service and a package registry
  (Rust, \<open>src/crates\<close>). Clients push to git repositories over HTTP or SSH; a push starts pipelines; a pipeline
  is a graph of jobs; jobs wait in a priority queue, are dispatched within concurrency limits, run in
  containers, and write logs; images that they build go to the registry, within the storage quota of the
  tenant. The theories follow these parts. Definitions keep the names of the code where HOL leaves them free; a
  prefix (\<open>git_\<close>, \<open>api_\<close>, \<open>service_\<close>, \<open>sqlite_\<close>, \<open>reg_\<close>, \<open>gc_\<close>) separates functions that the code separates by module.

  \<^bold>\<open>How the code is represented.\<close> A \<open>struct\<close> is a record, an \<open>enum\<close> a datatype, \<open>Result<T>\<close> the type \<open>'a result\<close>
  (\<open>MuliError + 'a\<close>) or a sum with the error type of the module, \<open>str\<close> a list of bytes, \<open>HashMap\<close> and \<open>DashMap\<close>
  an association list with string keys (\<open>'v table\<close>; its order is not determined and no theorem relies on it),
  \<open>DateTime\<close> an integer and \<open>Duration\<close> a natural number of nanoseconds. \<open>u64\<close> is a \<open>64 word\<close> where the code
  relies on its width (quotas, sizes), else a natural number with the bound written out; \<open>f64\<close> is exact binary64
  rounding on rationals (\<open>Muli_Float\<close>). A method that changes \<open>self\<close> returns the new state. A trait object is a
  record of operations over a type of states, its contract a locale, and the locale is interpreted on the
  in-memory store of the code. Tasks that run concurrently are step relations, or functions with the effects of
  other tasks as an argument. Clock readings, UUIDs, hash functions (SHA-256, Argon2, HMAC), base64 and
  percent decoding, the YAML and JSON readers, name resolution, the container run and the outcome of git
  subprocesses are arguments; what a theorem needs of them is a hypothesis, which its witness instantiates.

  \<^bold>\<open>Theories.\<close>

  \<^item> \<open>Muli_Prelude\<close>, \<open>Rust_Text\<close>, \<open>Muli_Float\<close>, \<open>File_Tree\<close>, \<open>Json_Value\<close>: results, tables, the string functions of
    the standard library, UTF-8, binary64, a tree of files, JSON accessors. \<open>Muli_Error\<close>, \<open>Error_Display\<close>:
    \<open>muli-core/src/error.rs\<close>, the error type with its retry class and its messages.
  \<^item> \<open>Job_State\<close>, \<open>Job_Model\<close>: \<open>muli-core/src/job\<close>, the state machine, the job record and the priority score. A
    history of accepted transitions has at most four steps; waiting jobs overtake every tier.
  \<^item> \<open>Priority_Queue\<close>, \<open>Concurrency\<close>, \<open>Retry\<close>, \<open>Scheduler\<close>: \<open>muli-queue/src\<close>. The heap with tombstones refines a
    priority queue on its live jobs; the limiter is safe under every interleaving of its atomic steps; the
    scheduler runs each job at most once, loses none that is not cancelled, and never misses a wake-up.
  \<^item> \<open>Pipeline_Schema\<close>, \<open>Pipeline_Validation\<close>, \<open>Dag_Graph\<close>, \<open>Pipeline_Matrix\<close>, \<open>Pipeline_Trigger\<close>:
    \<open>muli-pipeline/src/yaml\<close>, \<open>dag/graph.rs\<close>, \<open>dag/matrix.rs\<close>, \<open>trigger/matcher.rs\<close>. What the parser and the
    validator accept, the levels and cycles of the graph against reference definitions, exact matrix
    expansion, triggers, conditions and interpolation.
  \<^item> \<open>Pipeline_Model\<close>, \<open>Step_Store\<close>, \<open>Dag_Executor\<close>: \<open>muli-core/src/pipeline\<close> and \<open>dag/executor.rs\<close>. The executor
    submits jobs after what they need, ends with the state that the outcomes determine, terminates with a
    clock that advances, and gives the publish token only to jobs that ask for it.
  \<^item> \<open>Job_Store\<close>, \<open>Log_Collector\<close>, \<open>Job_Execution\<close>: the job store (trait and in-memory store), log parsing and
    flushing (\<open>muli-engine/src/docker\<close>), and \<open>execution.rs\<close>, \<open>recovery.rs\<close>, \<open>watchdog.rs\<close> of \<open>muli-server\<close>. Results
    never overwrite a terminal state, logs are stored once and in order; retries, recovery and the watchdog are
    characterised exactly, including where they do not do what they are meant to.
  \<^item> \<open>Git_Access\<close>, \<open>Git_Repos\<close>, \<open>Git_Http\<close>, \<open>Git_Push\<close>: \<open>muli-core/src/git\<close>, \<open>org\<close>, \<open>service\<close>, the in-memory stores,
    and \<open>muli-git/src\<close>. Access decisions after every change of collaborators and members; repository operations
    that succeed or undo their effects; which HTTP requests and SSH commands pass; hooks and webhooks of a push.
  \<^item> \<open>Tenant_Quota\<close>: the quota model and its in-memory and SQLite stores, which agree with a specification on
    natural numbers below \<open>2\<^sup>6\<^sup>3\<close>.
  \<^item> \<open>Registry_Names\<close>, \<open>Registry_Storage\<close>, \<open>Registry_Api\<close>, \<open>Registry_Gc\<close>: \<open>muli-registry/src\<close>, the OCI registry.
    Names match their patterns; blobs are addressed by content after any sequence of requests; uploads and
    manifests read back; garbage collection deletes exactly the unreferenced blobs.

  \<^bold>\<open>Fuel and termination.\<close> Loops are structural recursion or functions with a termination proof. The polling
  loop of the executor (\<open>wait_for_job\<close>) may wait forever: it is a partial function into \<open>option\<close>, where not returning
  is \<open>None\<close>, and its termination property shows that it returns \<open>Some\<close> for a clock that advances during sleeps. Recursive directory walks terminate by the
  depth of the tree.

  \<^bold>\<open>Not modelled.\<close> The agent process, the Docker engine and the start-up code are I/O around third-party
  clients. The gRPC services convert messages to the records of the stores. The MongoDB stores, and the SQLite
  stores except the quotas, run queries of a database; the in-memory stores stand for their contracts. The git
  content and pull request endpoints and the LFS transfer render or stream the output of subprocesses. The npm,
  Cargo, Maven and Luat formats and the proxy cache of the registry, its authentication and tenant middlewares,
  resource and tenant limits, the triggering of pipelines by the server, releases, artifacts and caches are not
  modelled: the theorems on the registry are about requests that have passed authentication. Metrics, log messages
  and headers that carry no information are left out throughout.
\<close>

end
